(* ===== verification/Star_Prelude.thy ===== *)
theory Star_Prelude
  imports Main "HOL-Library.Word" "HOL-Library.Monad_Syntax"
begin

text \<open>
  Shared ground of the development: the machine types of the Go sources, the run-time
  checks that Go performs on indexing, storing and remainder (a failed check is the value
  \<open>None\<close>, standing for a panic), the named collections the component proofs draw on, and
  the reachability and invariant interface that every state machine of the development is
  an instance of.
\<close>

unbundle bit_operations_syntax

type_synonym u8 = "8 word"
type_synonym u16 = "16 word"
type_synonym u32 = "32 word"
type_synonym u64 = "64 word"
type_synonym bytes = "u8 list"

named_theorems go_simps "evaluation of Go run-time checks"
named_theorems step_intros "introduction rules of step relations"
named_theorems inv_defs "definitions of component invariants"

section \<open>Run-time checked operations\<close>

text \<open>\<open>xs[i]\<close>: panics when \<open>i\<close> is out of range.\<close>

definition go_index :: "'a list \<Rightarrow> nat \<Rightarrow> 'a option" where
  "go_index xs i = (if i < length xs then Some (xs ! i) else None)"

text \<open>\<open>xs[i] = v\<close>: panics when \<open>i\<close> is out of range.\<close>

definition go_store :: "'a list \<Rightarrow> nat \<Rightarrow> 'a \<Rightarrow> 'a list option" where
  "go_store xs i v = (if i < length xs then Some (xs[i := v]) else None)"

text \<open>\<open>a % b\<close>: panics when \<open>b\<close> is zero.\<close>

definition go_mod :: "nat \<Rightarrow> nat \<Rightarrow> nat option" where
  "go_mod a b = (if b = 0 then None else Some (a mod b))"

lemma go_index_Some [go_simps]: "i < length xs \<Longrightarrow> go_index xs i = Some (xs ! i)"
  by (simp add: go_index_def)

lemma go_store_Some [go_simps]: "i < length xs \<Longrightarrow> go_store xs i v = Some (xs[i := v])"
  by (simp add: go_store_def)

lemma go_mod_Some [go_simps]: "b \<noteq> 0 \<Longrightarrow> go_mod a b = Some (a mod b)"
  by (simp add: go_mod_def)

section \<open>Index arithmetic of ring buffers\<close>

text \<open>Two offsets below the capacity that land on the same slot are equal.\<close>

lemma ring_slot_inj:
  fixes h i j n :: nat
  assumes "(h + i) mod n = (h + j) mod n" and "i < n" and "j < n"
  shows "i = j"
proof -
  have aux: "i = j" if "(h + i) mod n = (h + j) mod n" "i \<le> j" "j < n" for i j :: nat
  proof -
    have "n dvd (h + j) - (h + i)"
      using that by (metis mod_eq_dvd_iff_nat add_le_mono order_refl)
    then have "n dvd j - i" by simp
    with \<open>j < n\<close> have "j - i = 0"
      by (metis dvd_imp_le less_imp_diff_less not_le not_gr_zero)
    with \<open>i \<le> j\<close> show ?thesis by simp
  qed
  show ?thesis
    using assms aux [of i j] aux [of j i] by (cases "i \<le> j") auto
qed

lemma ring_slot_Suc: "(Suc h mod n + i) mod n = (h + Suc i) mod (n :: nat)"
  by (simp add: mod_add_left_eq)

section \<open>Hexadecimal text\<close>

text \<open>\<open>hex.EncodeToString\<close>: two digits for a byte, so that different bytes of one length differ.\<close>

definition hex_digit :: "nat \<Rightarrow> char" where
  "hex_digit n = ''0123456789abcdef'' ! n"

definition hex_byte :: "u8 \<Rightarrow> string" where
  "hex_byte w = [hex_digit (unat w div 16), hex_digit (unat w mod 16)]"

definition hex_EncodeToString :: "bytes \<Rightarrow> string" where
  "hex_EncodeToString b = concat (map hex_byte b)"

lemma hex_digit_in: "n < 16 \<Longrightarrow> hex_digit n \<in> set ''0123456789abcdef''"
  unfolding hex_digit_def by (intro nth_mem) simp

lemma hex_digit_inj:
  assumes "m < 16" and "n < 16" and "hex_digit m = hex_digit n"
  shows "m = n"
proof -
  have "distinct ''0123456789abcdef''" by simp
  then show ?thesis using assms unfolding hex_digit_def by (subst (asm) nth_eq_iff_index_eq) simp_all
qed

lemma unat_nibbles: "unat (w :: u8) div 16 < 16" "unat w mod 16 < 16"
  using unsigned_less [of w, where ?'a = nat] by (simp_all add: div_less_iff_less_mult)

lemma hex_byte_inj: "hex_byte v = hex_byte w \<Longrightarrow> v = w"
proof -
  assume "hex_byte v = hex_byte w"
  then have "unat v div 16 = unat w div 16" "unat v mod 16 = unat w mod 16"
    unfolding hex_byte_def using hex_digit_inj unat_nibbles by blast+
  then have "unat v = unat w" by (metis div_mult_mod_eq)
  then show "v = w" by (rule word_unat_eq_iff [THEN iffD2])
qed

lemma hex_EncodeToString_inj: "hex_EncodeToString a = hex_EncodeToString b \<longleftrightarrow> a = b"
proof
  show "hex_EncodeToString a = hex_EncodeToString b \<Longrightarrow> a = b"
  proof (induction a arbitrary: b)
    case Nil
    then show ?case by (cases b) (auto simp: hex_EncodeToString_def hex_byte_def)
  next
    case (Cons w a)
    then obtain w' b' where b: "b = w' # b'"
      by (cases b) (auto simp: hex_EncodeToString_def hex_byte_def)
    with Cons.prems have "hex_byte w = hex_byte w'" "hex_EncodeToString a = hex_EncodeToString b'"
      by (auto simp: hex_EncodeToString_def hex_byte_def)
    then show ?case using b hex_byte_inj Cons.IH by blast
  qed
qed simp

section \<open>Reachable states and invariants\<close>

inductive reach :: "('s \<Rightarrow> bool) \<Rightarrow> ('s \<Rightarrow> 's \<Rightarrow> bool) \<Rightarrow> 's \<Rightarrow> bool"
  for init :: "'s \<Rightarrow> bool" and step :: "'s \<Rightarrow> 's \<Rightarrow> bool" where
  reach_init: "init s \<Longrightarrow> reach init step s"
| reach_step: "reach init step s \<Longrightarrow> step s t \<Longrightarrow> reach init step t"

text \<open>
  The contract every state machine of the development meets: an invariant that holds
  initially and that each step keeps. What it gives is proved once.
\<close>

locale inductive_invariant =
  fixes init :: "'s \<Rightarrow> bool"
    and step :: "'s \<Rightarrow> 's \<Rightarrow> bool"
    and inv :: "'s \<Rightarrow> bool"
  assumes inv_init: "init s \<Longrightarrow> inv s"
    and inv_step: "inv s \<Longrightarrow> step s t \<Longrightarrow> inv t"
begin

lemma inv_reach: "reach init step s \<Longrightarrow> inv s"
  by (induction rule: reach.induct) (auto intro: inv_init inv_step)

lemma inv_steps: "step\<^sup>*\<^sup>* s t \<Longrightarrow> inv s \<Longrightarrow> inv t"
  by (induction rule: rtranclp_induct) (auto intro: inv_step)

end

lemma reach_next: "reach init step s \<Longrightarrow> step s t \<Longrightarrow> t = u \<Longrightarrow> reach init step u"
  by (auto intro: reach_step)

lemma reach_steps: "step\<^sup>*\<^sup>* s t \<Longrightarrow> reach init step s \<Longrightarrow> reach init step t"
proof -
  assume "step\<^sup>*\<^sup>* s t" and "reach init step s"
  then show "reach init step t"
    by (induction rule: rtranclp_induct) (auto intro: reach_step)
qed

end
