(* ===== verification/Ring_Queue.thy ===== *)
theory Ring_Queue
  imports Star_Prelude
begin

text \<open>
  The FIFO queue of \<^verbatim>\<open>internal/platform/queue.go\<close>: a growable ring buffer. The state is
  the Go struct, \<open>cap(rb.buf)\<close> is the length of the list \<open>buf\<close> (the code only makes
  slices whose length is their capacity), and the zero value of the element type is the
  argument \<open>z\<close>. Indices and lengths are \<open>nat\<close>: they are bounded by the size of an
  allocated slice. A run-time panic is \<open>None\<close>. The component is shown to be a
  specification queue (a list) for every sequence of calls from the zero value.
\<close>

section \<open>Model\<close>

record 'a queue =
  buf :: "'a list"
  head :: nat
  len :: nat

definition zero_queue :: "'a queue" where
  "zero_queue = \<lparr>buf = [], head = 0, len = 0\<rparr>"

definition Peek :: "'a \<Rightarrow> 'a queue \<Rightarrow> ('a \<times> bool) option" where
  "Peek z rb =
     (if len rb = 0 then Some (z, False)
      else do {
        item \<leftarrow> go_index (buf rb) (head rb);
        Some (item, True)
      })"

definition Pop :: "'a \<Rightarrow> 'a queue \<Rightarrow> (('a \<times> bool) \<times> 'a queue) option" where
  "Pop z rb =
     (if len rb = 0 then Some ((z, False), rb)
      else do {
        item \<leftarrow> go_index (buf rb) (head rb);
        b \<leftarrow> go_store (buf rb) (head rb) z;
        h \<leftarrow> go_mod (head rb + 1) (length b);
        Some ((item, True), rb\<lparr>buf := b, head := h, len := len rb - 1\<rparr>)
      })"

text \<open>The copy loop of \<open>grow\<close>: \<open>i\<close> runs over \<open>range rb.len\<close>.\<close>

fun grow_loop :: "'a queue \<Rightarrow> nat list \<Rightarrow> 'a list \<Rightarrow> 'a list option" where
  "grow_loop rb [] b = Some b"
| "grow_loop rb (i # is) b = do {
     pos \<leftarrow> go_mod (head rb + i) (length (buf rb));
     x \<leftarrow> go_index (buf rb) pos;
     b' \<leftarrow> go_store b i x;
     grow_loop rb is b'
   }"

definition grow :: "'a \<Rightarrow> 'a queue \<Rightarrow> 'a queue option" where
  "grow z rb = do {
     b \<leftarrow> grow_loop rb [0..<len rb] (replicate ((length (buf rb) + 1) * 2) z);
     Some (rb\<lparr>buf := b, head := 0\<rparr>)
   }"

definition Push :: "'a \<Rightarrow> 'a \<Rightarrow> 'a queue \<Rightarrow> 'a queue option" where
  "Push z item rb = do {
     rb1 \<leftarrow> (if len rb = length (buf rb) then grow z rb else Some rb);
     pos \<leftarrow> go_mod (head rb1 + len rb1) (length (buf rb1));
     b \<leftarrow> go_store (buf rb1) pos item;
     Some (rb1\<lparr>buf := b, len := len rb1 + 1\<rparr>)
   }"

section \<open>Invariant and abstraction\<close>

definition slot :: "'a queue \<Rightarrow> nat \<Rightarrow> nat" where
  "slot rb i = (head rb + i) mod length (buf rb)"

definition elems :: "'a queue \<Rightarrow> 'a list" where
  "elems rb = map (\<lambda>i. buf rb ! slot rb i) [0..<len rb]"

text \<open>
  The window fits the buffer, and every slot outside the window holds the zero value
  (\<open>Pop\<close> clears the reference it hands out).
\<close>

definition queue_inv :: "'a \<Rightarrow> 'a queue \<Rightarrow> bool" where
  "queue_inv z rb \<longleftrightarrow>
     len rb \<le> length (buf rb) \<and>
     (buf rb \<noteq> [] \<longrightarrow> head rb < length (buf rb)) \<and>
     (\<forall>j < length (buf rb). (\<forall>i < len rb. slot rb i \<noteq> j) \<longrightarrow> buf rb ! j = z)"

lemma length_elems [simp]: "length (elems rb) = len rb"
  by (simp add: elems_def)

lemma nth_elems [simp]: "i < len rb \<Longrightarrow> elems rb ! i = buf rb ! slot rb i"
  by (simp add: elems_def)

lemma slot_less: "buf rb \<noteq> [] \<Longrightarrow> slot rb i < length (buf rb)"
  by (simp add: slot_def)

lemma slot_inj:
  "slot rb i = slot rb j \<Longrightarrow> i < length (buf rb) \<Longrightarrow> j < length (buf rb) \<Longrightarrow> i = j"
  unfolding slot_def by (rule ring_slot_inj)

lemma slot_advance:
  "length b = length (buf rb) \<Longrightarrow>
   slot (rb\<lparr>buf := b, head := Suc (head rb) mod length (buf rb), len := l\<rparr>) i = slot rb (Suc i)"
  by (simp add: slot_def ring_slot_Suc del: add_Suc_right)

lemma slot_store:
  "length b = length (buf rb) \<Longrightarrow> slot (rb\<lparr>buf := b, len := l\<rparr>) i = slot rb i"
  by (simp add: slot_def)

lemma queue_invD:
  assumes "queue_inv z rb"
  shows "len rb \<le> length (buf rb)" and "buf rb \<noteq> [] \<Longrightarrow> head rb < length (buf rb)"
    and "\<And>j. j < length (buf rb) \<Longrightarrow> (\<And>i. i < len rb \<Longrightarrow> slot rb i \<noteq> j) \<Longrightarrow> buf rb ! j = z"
  using assms by (auto simp: queue_inv_def)

lemma queue_inv_zero: "queue_inv z zero_queue"
  by (simp add: queue_inv_def zero_queue_def)

section \<open>Peek and Pop\<close>

lemma Peek_spec:
  assumes "queue_inv z rb"
  shows "Peek z rb = Some (case elems rb of [] \<Rightarrow> (z, False) | x # _ \<Rightarrow> (x, True))"
proof (cases "len rb = 0")
  case True
  then show ?thesis by (simp add: Peek_def elems_def)
next
  case False
  with queue_invD(1,2) [OF assms] have h: "head rb < length (buf rb)" by fastforce
  from False obtain x xs where e: "elems rb = x # xs"
    by (metis length_elems length_0_conv list.exhaust)
  moreover from False h have "elems rb ! 0 = buf rb ! head rb" by (simp add: slot_def)
  ultimately have "x = buf rb ! head rb" by simp
  with e False h show ?thesis by (simp add: Peek_def go_simps)
qed

lemma Pop_empty: "len rb = 0 \<Longrightarrow> Pop z rb = Some ((z, False), rb)"
  by (simp add: Pop_def)

lemma Pop_nonempty:
  assumes "queue_inv z rb" and "len rb \<noteq> 0"
  obtains rb' where "Pop z rb = Some ((hd (elems rb), True), rb')"
    and "elems rb' = tl (elems rb)" and "queue_inv z rb'"
proof
  let ?n = "length (buf rb)"
  let ?rb' = "rb\<lparr>buf := (buf rb)[head rb := z], head := Suc (head rb) mod ?n, len := len rb - 1\<rparr>"
  from queue_invD(1,2) [OF assms(1)] assms(2) have h: "head rb < ?n" and l: "len rb \<le> ?n"
    by fastforce+
  have hd: "hd (elems rb) = buf rb ! head rb"
    using assms(2) h by (subst hd_conv_nth) (auto simp: slot_def simp flip: length_0_conv)
  have head_slot: "slot rb 0 = head rb" using h by (simp add: slot_def)
  have ne: "slot rb (Suc i) \<noteq> head rb" if "Suc i < len rb" for i
    using slot_inj [of rb "Suc i" 0] that l head_slot by (metis Suc_neq_Zero less_le_trans less_trans zero_less_Suc)
  from h have "buf rb \<noteq> []" by auto
  then show "Pop z rb = Some ((hd (elems rb), True), ?rb')"
    using assms(2) h hd by (simp add: Pop_def go_simps)
  show "elems ?rb' = tl (elems rb)"
  proof (rule nth_equalityI)
    fix i
    assume "i < length (elems ?rb')"
    then have "Suc i < len rb" by simp
    with ne [OF this] show "elems ?rb' ! i = tl (elems rb) ! i"
      by (simp add: nth_tl slot_advance)
  qed simp
  have zero: "(buf rb)[head rb := z] ! j = z"
    if "j < ?n" "\<forall>i < len rb - 1. slot rb (Suc i) \<noteq> j" for j
  proof (cases "j = head rb")
    case False
    have "slot rb i \<noteq> j" if "i < len rb" for i
      using that \<open>\<forall>i < len rb - 1. slot rb (Suc i) \<noteq> j\<close> False head_slot by (cases i) auto
    with queue_invD(3) [OF assms(1) \<open>j < ?n\<close>] False show ?thesis by simp
  qed (use that in simp)
  show "queue_inv z ?rb'"
    using h l zero by (auto simp: queue_inv_def slot_advance)
qed

section \<open>Growth and Push\<close>

lemma grow_loop_spec:
  assumes "\<forall>i \<in> set is. i < length b" and "distinct is" and "buf rb \<noteq> []"
  shows "\<exists>b'. grow_loop rb is b = Some b' \<and> length b' = length b \<and>
    (\<forall>j < length b. b' ! j = (if j \<in> set is then buf rb ! slot rb j else b ! j))"
  using assms
proof (induction "is" arbitrary: b)
  case (Cons i "is")
  let ?b = "b[i := buf rb ! slot rb i]"
  obtain b' where b': "grow_loop rb is ?b = Some b'" "length b' = length b"
    "\<forall>j < length b. b' ! j = (if j \<in> set is then buf rb ! slot rb j else ?b ! j)"
    using Cons.IH [of ?b] Cons.prems by auto
  have "grow_loop rb (i # is) b = Some b'"
    using Cons.prems b'(1) slot_less [OF Cons.prems(3), of i]
    by (simp add: go_simps flip: slot_def)
  with b' Cons.prems show ?case by (auto simp: nth_list_update)
qed simp

lemma grow_loop_fresh:
  assumes "len rb \<le> n" and "len rb = 0 \<or> buf rb \<noteq> []"
  shows "\<exists>b'. grow_loop rb [0..<len rb] (replicate n z) = Some b' \<and> length b' = n \<and>
    (\<forall>j < n. b' ! j = (if j < len rb then buf rb ! slot rb j else z))"
proof (cases "len rb = 0")
  case False
  with assms have "\<exists>b'. grow_loop rb [0..<len rb] (replicate n z) = Some b' \<and>
    length b' = length (replicate n z) \<and> (\<forall>j < length (replicate n z).
      b' ! j = (if j \<in> set [0..<len rb] then buf rb ! slot rb j else replicate n z ! j))"
    by (intro grow_loop_spec) auto
  then show ?thesis by (elim exE, intro exI) auto
qed simp

lemma grow_spec:
  assumes "queue_inv z rb" and "len rb = length (buf rb)"
  obtains rb' where "grow z rb = Some rb'" and "elems rb' = elems rb" and "queue_inv z rb'"
    and "len rb' < length (buf rb')" and "len rb' = len rb"
proof -
  let ?n = "(length (buf rb) + 1) * 2"
  have "\<exists>b'. grow_loop rb [0..<len rb] (replicate ?n z) = Some b' \<and> length b' = ?n \<and>
    (\<forall>j < ?n. b' ! j = (if j < len rb then buf rb ! slot rb j else z))"
    using assms(2) by (intro grow_loop_fresh) auto
  then obtain b' where b': "grow_loop rb [0..<len rb] (replicate ?n z) = Some b'" "length b' = ?n"
    "\<And>j. j < ?n \<Longrightarrow> b' ! j = (if j < len rb then buf rb ! slot rb j else z)"
    by blast
  let ?rb' = "rb\<lparr>buf := b', head := 0\<rparr>"
  have l: "len rb < length b'" using b'(2) assms(2) by simp
  have slot': "slot ?rb' j = j" if "j < length b'" for j
    using that by (simp add: slot_def)
  have "elems ?rb' = elems rb"
    using l b' slot' by (auto simp: list_eq_iff_nth_eq)
  moreover have "queue_inv z ?rb'"
    using l b' slot' unfolding queue_inv_def by auto
  moreover have "grow z rb = Some ?rb'" unfolding grow_def b'(1) by simp
  ultimately show thesis using l that by auto
qed

lemma Push_room:
  assumes "queue_inv z rb" and "len rb < length (buf rb)"
  shows "\<exists>rb'. (do {
     pos \<leftarrow> go_mod (head rb + len rb) (length (buf rb));
     b \<leftarrow> go_store (buf rb) pos x;
     Some (rb\<lparr>buf := b, len := len rb + 1\<rparr>)}) = Some rb'
   \<and> elems rb' = elems rb @ [x] \<and> queue_inv z rb'"
proof -
  let ?rb' = "rb\<lparr>buf := (buf rb)[slot rb (len rb) := x], len := len rb + 1\<rparr>"
  have n: "buf rb \<noteq> []" using assms(2) by auto
  then have h: "head rb < length (buf rb)" using queue_invD(2) [OF assms(1)] by blast
  have ne: "slot rb (len rb) \<noteq> slot rb i" if "i < len rb" for i
    using slot_inj [of rb i "len rb"] that assms(2) by auto
  have "elems ?rb' = elems rb @ [x]"
  proof (rule nth_equalityI)
    fix i
    assume "i < length (elems ?rb')"
    then consider "i < len rb" | "i = len rb" by fastforce
    then show "elems ?rb' ! i = (elems rb @ [x]) ! i"
      using ne slot_less [OF n] by cases (simp_all add: nth_append slot_store)
  qed simp
  moreover have "queue_inv z ?rb'"
  proof -
    have "(buf rb)[slot rb (len rb) := x] ! j = z"
      if "j < length (buf rb)" "\<forall>i < len rb + 1. slot rb i \<noteq> j" for j
      using queue_invD(3) [OF assms(1) that(1)] that(2) by simp
    then show ?thesis using assms(2) h by (simp add: queue_inv_def slot_store)
  qed
  moreover have "go_mod (head rb + len rb) (length (buf rb)) = Some (slot rb (len rb))"
    using n by (simp add: go_simps slot_def)
  moreover have "go_store (buf rb) (slot rb (len rb)) x = Some ((buf rb)[slot rb (len rb) := x])"
    using slot_less [OF n] by (simp add: go_simps)
  ultimately show ?thesis by simp
qed

lemma Push_spec:
  assumes "queue_inv z rb"
  obtains rb' where "Push z x rb = Some rb'" and "elems rb' = elems rb @ [x]"
    and "queue_inv z rb'"
proof (cases "len rb = length (buf rb)")
  case True
  obtain rb1 where rb1: "grow z rb = Some rb1" "elems rb1 = elems rb" "queue_inv z rb1"
    "len rb1 < length (buf rb1)"
    using grow_spec [OF assms True] by metis
  from Push_room [OF rb1(3,4), of x] that True rb1 show thesis by (auto simp: Push_def)
next
  case False
  with queue_invD(1) [OF assms] have "len rb < length (buf rb)" by simp
  from Push_room [OF assms this, of x] that False show thesis by (auto simp: Push_def)
qed

section \<open>The queue interface\<close>

text \<open>
  What a client of a FIFO queue relies on: each call returns (no panic), keeps the
  provider's invariant and acts on the abstract list. The client lemma is about whole
  sequences of calls.
\<close>

datatype 'a queue_call = CPush 'a | CPop | CPeek

datatype 'a queue_reply = RPush | RItem 'a | REmpty

fun reply :: "'a \<times> bool \<Rightarrow> 'a queue_reply" where
  "reply (x, True) = RItem x"
| "reply (_, False) = REmpty"

fun spec_call :: "'a queue_call \<Rightarrow> 'a list \<Rightarrow> 'a queue_reply \<times> 'a list" where
  "spec_call (CPush x) xs = (RPush, xs @ [x])"
| "spec_call CPop xs = (case xs of [] \<Rightarrow> (REmpty, []) | y # ys \<Rightarrow> (RItem y, ys))"
| "spec_call CPeek xs = (case xs of [] \<Rightarrow> (REmpty, []) | y # ys \<Rightarrow> (RItem y, xs))"

fun spec_calls :: "'a queue_call list \<Rightarrow> 'a list \<Rightarrow> 'a queue_reply list \<times> 'a list" where
  "spec_calls [] xs = ([], xs)"
| "spec_calls (c # cs) xs =
     (case spec_call c xs of (r, xs1) \<Rightarrow>
      case spec_calls cs xs1 of (rs, xs2) \<Rightarrow> (r # rs, xs2))"

fun do_call :: "('a \<Rightarrow> 'q \<Rightarrow> 'q option) \<Rightarrow> ('q \<Rightarrow> (('a \<times> bool) \<times> 'q) option) \<Rightarrow>
    ('q \<Rightarrow> ('a \<times> bool) option) \<Rightarrow> 'a queue_call \<Rightarrow> 'q \<Rightarrow> ('a queue_reply \<times> 'q) option" where
  "do_call push pop peek (CPush x) q = do { q' \<leftarrow> push x q; Some (RPush, q') }"
| "do_call push pop peek CPop q = do { (r, q') \<leftarrow> pop q; Some (reply r, q') }"
| "do_call push pop peek CPeek q = do { r \<leftarrow> peek q; Some (reply r, q) }"

fun do_calls :: "('a \<Rightarrow> 'q \<Rightarrow> 'q option) \<Rightarrow> ('q \<Rightarrow> (('a \<times> bool) \<times> 'q) option) \<Rightarrow>
    ('q \<Rightarrow> ('a \<times> bool) option) \<Rightarrow> 'a queue_call list \<Rightarrow> 'q \<Rightarrow>
    ('a queue_reply list \<times> 'q) option" where
  "do_calls push pop peek [] q = Some ([], q)"
| "do_calls push pop peek (c # cs) q = do {
     (r, q1) \<leftarrow> do_call push pop peek c q;
     (rs, q2) \<leftarrow> do_calls push pop peek cs q1;
     Some (r # rs, q2)
   }"

locale fifo =
  fixes empty :: 'q
    and push :: "'a \<Rightarrow> 'q \<Rightarrow> 'q option"
    and pop :: "'q \<Rightarrow> (('a \<times> bool) \<times> 'q) option"
    and peek :: "'q \<Rightarrow> ('a \<times> bool) option"
    and items :: "'q \<Rightarrow> 'a list"
    and inv :: "'q \<Rightarrow> bool"
  assumes items_empty: "items empty = []"
    and inv_empty: "inv empty"
    and push_ok: "inv q \<Longrightarrow> \<exists>q'. push x q = Some q' \<and> items q' = items q @ [x] \<and> inv q'"
    and pop_none: "inv q \<Longrightarrow> items q = [] \<Longrightarrow> \<exists>x. pop q = Some ((x, False), q)"
    and pop_some: "inv q \<Longrightarrow> items q = y # ys \<Longrightarrow>
      \<exists>q'. pop q = Some ((y, True), q') \<and> items q' = ys \<and> inv q'"
    and peek_none: "inv q \<Longrightarrow> items q = [] \<Longrightarrow> \<exists>x. peek q = Some (x, False)"
    and peek_some: "inv q \<Longrightarrow> items q = y # ys \<Longrightarrow> peek q = Some (y, True)"
begin

lemma call_refines:
  assumes "inv q"
  shows "\<exists>q'. do_call push pop peek c q = Some (fst (spec_call c (items q)), q') \<and>
    items q' = snd (spec_call c (items q)) \<and> inv q'"
proof (cases c)
  case (CPush x)
  then show ?thesis using push_ok [OF assms, of x] by auto
next
  case CPop
  then show ?thesis using pop_none [OF assms] pop_some [OF assms] assms
    by (cases "items q") fastforce+
next
  case CPeek
  then show ?thesis using peek_none [OF assms] peek_some [OF assms] assms
    by (cases "items q") fastforce+
qed

lemma calls_refine:
  assumes "inv q"
  shows "\<exists>q'. do_calls push pop peek cs q = Some (fst (spec_calls cs (items q)), q') \<and>
    items q' = snd (spec_calls cs (items q)) \<and> inv q'"
  using assms
proof (induction cs arbitrary: q)
  case (Cons c cs)
  obtain q1 where q1: "do_call push pop peek c q = Some (fst (spec_call c (items q)), q1)"
    "items q1 = snd (spec_call c (items q))" "inv q1"
    using call_refines [OF Cons.prems] by blast
  then obtain q2 where
    "do_calls push pop peek cs q1 = Some (fst (spec_calls cs (items q1)), q2)"
    "items q2 = snd (spec_calls cs (items q1))" "inv q2"
    using Cons.IH by blast
  with q1 show ?case by (simp split: prod.split)
qed simp

end

interpretation rq: fifo zero_queue "Push z" "Pop z" "Peek z" elems "queue_inv z"
proof
  fix rb :: "'a queue" and x y :: 'a and ys
  show "elems zero_queue = []" by (simp add: elems_def zero_queue_def)
  show "queue_inv z zero_queue" by (rule queue_inv_zero)
  assume inv: "queue_inv z rb"
  show "\<exists>q'. Push z x rb = Some q' \<and> elems q' = elems rb @ [x] \<and> queue_inv z q'"
    using Push_spec [OF inv] by metis
  { assume "elems rb = []"
    then have "len rb = 0" by (metis length_elems list.size(3))
    then show "\<exists>x. Pop z rb = Some ((x, False), rb)" by (simp add: Pop_empty) }
  { assume e: "elems rb = y # ys"
    then have "len rb \<noteq> 0" by (metis length_elems length_0_conv list.distinct(1))
    from Pop_nonempty [OF inv this] e
    show "\<exists>q'. Pop z rb = Some ((y, True), q') \<and> elems q' = ys \<and> queue_inv z q'"
      by (metis list.sel(1,3)) }
  { assume "elems rb = []"
    then show "\<exists>x. Peek z rb = Some (x, False)" by (simp add: Peek_spec [OF inv]) }
  { assume "elems rb = y # ys"
    then show "Peek z rb = Some (y, True)" by (simp add: Peek_spec [OF inv]) }
qed

section \<open>Properties\<close>

text \<open>
  C21. From the zero value, any sequence of \<open>Push\<close>, \<open>Pop\<close> and \<open>Peek\<close> calls runs without a
  panic and gives exactly the replies of a first-in first-out list, whatever the wrapping
  and growing of the ring did in between.
\<close>
theorem queue_refines_fifo:
  "map_option fst (do_calls (Push z) (Pop z) (Peek z) cs zero_queue)
    = Some (fst (spec_calls cs []))"
  using rq.calls_refine [OF rq.inv_empty, of z cs] by (auto simp: rq.items_empty)

text \<open>
  After any sequence of calls from the zero value, every slot of the backing array that
  is not a live element holds the zero value: the queue keeps no reference to an item it
  has handed out.
\<close>
theorem queue_drops_popped_references:
  "\<exists>rs rb. do_calls (Push z) (Pop z) (Peek z) cs zero_queue = Some (rs, rb) \<and>
     set (buf rb) \<subseteq> insert z (set (elems rb))"
proof -
  obtain rb where rb: "do_calls (Push z) (Pop z) (Peek z) cs zero_queue
      = Some (fst (spec_calls cs (elems zero_queue)), rb)" and inv: "queue_inv z rb"
    using rq.calls_refine [OF rq.inv_empty, of z cs] by auto
  have "set (buf rb) \<subseteq> insert z (set (elems rb))"
    using queue_invD(3) [OF inv] by (fastforce simp: in_set_conv_nth elems_def)
  with rb show ?thesis by blast
qed

end
