(* ===== verification/Go_Errors.thy ===== *)
theory Go_Errors
  imports Star_Prelude
begin

text \<open>
  Go error values. An \<open>error\<close> is \<open>None\<close> (nil) or a tree: a leaf (a sentinel made by
  \<open>errors.New\<close>, or a typed error of quic-go, http3 or this repository), a leaf wrapped with
  \<open>%w\<close> by \<open>fmt.Errorf\<close>, or several errors put together by \<open>errors.Join\<close>. \<open>errors.Is\<close> and
  \<open>errors.As\<close> walk the tree in pre-order, as the standard library does. The second half
  holds the QUIC error codes and classifiers of \<^verbatim>\<open>internal/errcode/errcode.go\<close>.
\<close>

section \<open>Error trees\<close>

datatype leaf =
    Sentinel string
  | StreamError u64 bool
  | ApplicationError u64 bool
  | H3Error u64 bool
  | IdleTimeoutError
  | BadStatusCodeError int bytes
  | BadRequestError string
  | InvalidLengthError nat
  | Opaque string

datatype err = Leaf leaf | Wrap string err | Joined "err list"

type_synonym error = "err option"

fun leaves :: "err \<Rightarrow> leaf list" where
  "leaves (Leaf l) = [l]"
| "leaves (Wrap m e) = leaves e"
| "leaves (Joined es) = concat (map leaves es)"

definition errorsIs :: "error \<Rightarrow> leaf \<Rightarrow> bool" where
  "errorsIs e t = (case e of None \<Rightarrow> False | Some e' \<Rightarrow> t \<in> set (leaves e'))"

definition errorsAs :: "error \<Rightarrow> (leaf \<Rightarrow> bool) \<Rightarrow> leaf option" where
  "errorsAs e P = (case e of None \<Rightarrow> None | Some e' \<Rightarrow> List.find P (leaves e'))"

definition errorsJoin :: "error list \<Rightarrow> error" where
  "errorsJoin es = (let xs = List.map_filter id es in if xs = [] then None else Some (Joined xs))"

definition errorf :: "string \<Rightarrow> err \<Rightarrow> error" where
  "errorf m e = Some (Wrap m e)"

lemma errorsIs_None [simp]: "\<not> errorsIs None t"
  by (simp add: errorsIs_def)

lemma errorsIs_Leaf [simp]: "errorsIs (Some (Leaf l)) t \<longleftrightarrow> l = t"
  by (auto simp: errorsIs_def)

lemma errorsIs_Wrap [simp]: "errorsIs (Some (Wrap m e)) t \<longleftrightarrow> errorsIs (Some e) t"
  by (simp add: errorsIs_def)

lemma errorsIs_Joined [simp]:
  "errorsIs (Some (Joined es)) t \<longleftrightarrow> (\<exists>e \<in> set es. errorsIs (Some e) t)"
  by (auto simp: errorsIs_def)

lemma errorsIs_errorf [simp]: "errorsIs (errorf m e) t \<longleftrightarrow> errorsIs (Some e) t"
  by (simp add: errorf_def)

lemma set_map_filter_id: "set (List.map_filter id es) = {e. Some e \<in> set es}"
  by (induction es) (auto simp: List.map_filter_simps split: option.splits)

lemma errorsIs_join: "errorsIs (errorsJoin es) t \<longleftrightarrow> (\<exists>e \<in> set es. errorsIs e t)"
proof -
  have "errorsIs (errorsJoin es) t \<longleftrightarrow> (\<exists>e \<in> set (List.map_filter id es). errorsIs (Some e) t)"
    by (auto simp: errorsJoin_def Let_def)
  also have "\<dots> \<longleftrightarrow> (\<exists>e \<in> set es. errorsIs e t)"
    by (auto simp: set_map_filter_id) (metis errorsIs_None option.exhaust)
  finally show ?thesis .
qed

lemma errorsJoin_None: "errorsJoin es = None \<longleftrightarrow> set es \<subseteq> {None}"
proof -
  have "errorsJoin es = None \<longleftrightarrow> set (List.map_filter id es) = {}"
    by (simp add: errorsJoin_def Let_def)
  also have "\<dots> \<longleftrightarrow> set es \<subseteq> {None}"
    unfolding set_map_filter_id by (auto dest: subsetD) (metis option.exhaust)
  finally show ?thesis .
qed

lemma errorsAs_Leaf [simp]: "errorsAs (Some (Leaf l)) P = (if P l then Some l else None)"
  by (simp add: errorsAs_def)

lemma errorsAs_None [simp]: "errorsAs None P = None"
  by (simp add: errorsAs_def)

lemma errorsAs_Wrap [simp]: "errorsAs (Some (Wrap m e)) P = errorsAs (Some e) P"
  by (simp add: errorsAs_def)

lemma errorsAs_errorf [simp]: "errorsAs (errorf m e) P = errorsAs (Some e) P"
  by (simp add: errorf_def)

section \<open>The typed errors the sources look for\<close>

fun is_StreamError :: "leaf \<Rightarrow> bool" where
  "is_StreamError (StreamError _ _) = True" | "is_StreamError _ = False"

fun is_ApplicationError :: "leaf \<Rightarrow> bool" where
  "is_ApplicationError (ApplicationError _ _) = True" | "is_ApplicationError _ = False"

fun is_H3Error :: "leaf \<Rightarrow> bool" where
  "is_H3Error (H3Error _ _) = True" | "is_H3Error _ = False"

fun is_IdleTimeoutError :: "leaf \<Rightarrow> bool" where
  "is_IdleTimeoutError IdleTimeoutError = True" | "is_IdleTimeoutError _ = False"

fun is_BadRequestError :: "leaf \<Rightarrow> bool" where
  "is_BadRequestError (BadRequestError _) = True" | "is_BadRequestError _ = False"

text \<open>The common shape: the first error of one type in the tree has this code and side.\<close>

definition as_stream :: "error \<Rightarrow> u64 \<Rightarrow> bool \<Rightarrow> bool" where
  "as_stream e code remote = (errorsAs e is_StreamError = Some (StreamError code remote))"

definition as_h3 :: "error \<Rightarrow> u64 \<Rightarrow> bool \<Rightarrow> bool" where
  "as_h3 e code remote = (errorsAs e is_H3Error = Some (H3Error code remote))"

definition as_application :: "error \<Rightarrow> u64 \<Rightarrow> bool \<Rightarrow> bool" where
  "as_application e code remote =
     (errorsAs e is_ApplicationError = Some (ApplicationError code remote))"

lemma as_h3_functional: "as_h3 e c r \<Longrightarrow> as_h3 e c' r' \<Longrightarrow> c = c' \<and> r = r'"
  by (simp add: as_h3_def)

lemma as_stream_functional: "as_stream e c r \<Longrightarrow> as_stream e c' r' \<Longrightarrow> c = c' \<and> r = r'"
  by (simp add: as_stream_def)

text \<open>\<open>os.ErrDeadlineExceeded\<close>, \<open>net.ErrClosed\<close>, \<open>context.Canceled\<close> and \<open>DeadlineExceeded\<close>.\<close>

definition ErrDeadlineExceeded :: leaf where "ErrDeadlineExceeded = Sentinel ''i/o timeout''"

definition ErrNetClosed :: leaf where
  "ErrNetClosed = Sentinel ''use of closed network connection''"

definition ContextCanceled :: leaf where "ContextCanceled = Sentinel ''context canceled''"

definition ContextDeadlineExceeded :: leaf where
  "ContextDeadlineExceeded = Sentinel ''context deadline exceeded''"

section \<open>errcode.go\<close>

definition Exit :: u64 where "Exit = 0"

definition Unknown :: u64 where "Unknown = 1"
definition HostClosed :: u64 where "HostClosed = 2"
definition PeerClosed :: u64 where "PeerClosed = 3"
definition HostInternalError :: u64 where "HostInternalError = 4"
definition PeerInternalError :: u64 where "PeerInternalError = 5"
definition Cancelled :: u64 where "Cancelled = 6"

definition IsLocalQUICConnClosed :: "error \<Rightarrow> bool" where
  "IsLocalQUICConnClosed e = as_h3 e Exit False"

definition IsRemoteQUICConnClosed :: "error \<Rightarrow> bool" where
  "IsRemoteQUICConnClosed e = as_h3 e Exit True"

definition IsLocalStreamError :: "error \<Rightarrow> u64 \<Rightarrow> bool" where
  "IsLocalStreamError e code = as_stream e code False"

definition IsLocalHTTPError :: "error \<Rightarrow> u64 \<Rightarrow> bool" where
  "IsLocalHTTPError e code = as_h3 e code False"

definition IsRemoteStreamError :: "error \<Rightarrow> u64 \<Rightarrow> bool" where
  "IsRemoteStreamError e code = as_stream e code True"

end
