(* ===== verification/Udp_Listener.thy ===== *)
theory Udp_Listener
  imports Go_Errors
begin

text \<open>
  The stream-like listener over one UDP socket: \<^verbatim>\<open>internal/platform/udp/listen.go\<close>,
  \<^verbatim>\<open>conn.go\<close> and \<^verbatim>\<open>deadline.go\<close>. The goroutine \<open>readLoop\<close> runs concurrently with the
  callers of \<open>Accept\<close>, \<open>Close\<close> and the connections' methods, so the model is a step
  relation: one step per atomic section of the code (between two lock, channel or socket
  operations). The reader's position inside \<open>dispatch\<close> is explicit (\<open>rpc\<close>); the lock
  \<open>connLock\<close> is explicit only where a holder blocks, which is \<open>tryCloseConn\<close> waiting for
  \<open>readDone\<close> (\<open>lock_held\<close>). Connections are heap objects with a number; packets carry their
  source address so that routing can be stated. The socket of the operating system is the
  environment: it delivers any packet, or an error, at any time, and fails reads once closed.
\<close>

section \<open>State\<close>

type_synonym addr = string
type_synonym conn_id = nat

record packet =
  src :: addr
  payload :: bytes

text \<open>\<open>type Conn struct\<close>; a zero deadline is \<open>None\<close>.\<close>

record conn =
  reads :: "packet list"
  writeAddr :: addr
  conn_done :: bool
  readDeadline :: "int option"
  writeDeadline :: "int option"

text \<open>Where \<open>readLoop\<close> stands.\<close>

datatype reader =
    RIdle                     \<comment> \<open>in \<open>ReadFrom\<close>\<close>
  | RLookup packet            \<comment> \<open>at \<open>connLock.RLock\<close> of \<open>dispatch\<close>\<close>
  | RFound conn_id packet     \<comment> \<open>entry found, about to send on \<open>conn.reads\<close>\<close>
  | RMiss packet              \<comment> \<open>no entry, about to look at \<open>done\<close>\<close>
  | RNew packet               \<comment> \<open>connection built, at the \<open>acceptQueue\<close> select\<close>
  | RStore addr conn_id       \<comment> \<open>queued, about to take the lock and store the entry\<close>
  | RExit

text \<open>\<open>type Listener struct\<close>, with the heap of connections and the lock.\<close>

record listener =
  acceptQueue :: "conn_id list"
  backlog :: nat
  readBufferSize :: nat
  l_done :: bool
  readDone :: bool
  readErr :: error
  conns :: "addr \<rightharpoonup> conn_id"
  heap :: "conn_id \<Rightarrow> conn"
  next_id :: conn_id
  accepted :: "conn_id set"
  releasing :: "conn_id set"
  sock_closed :: bool
  lock_held :: bool
  rpc :: reader

definition MTU :: nat where "MTU = 1200"

definition defaultConnBacklog :: nat where "defaultConnBacklog = 128"

definition defaultReadBufferSize :: nat where "defaultReadBufferSize = 512"

definition ErrClosedListener :: err where
  "ErrClosedListener = Leaf (Sentinel ''udp: listener closed'')"

definition ErrListenQueueExceeded :: err where
  "ErrListenQueueExceeded = Leaf (Sentinel ''udp: listen queue exceeded'')"

definition ErrReadBufferExceeded :: err where
  "ErrReadBufferExceeded = Leaf (Sentinel ''upd: read buffer size exceeded'')"

definition blank_conn :: conn where
  "blank_conn = \<lparr>reads = [], writeAddr = [], conn_done = False,
     readDeadline = None, writeDeadline = None\<rparr>"

text \<open>\<open>ListenConfig.Listen\<close> on a socket that could be opened; non-positive sizes default.\<close>

definition Listen :: "int \<Rightarrow> int \<Rightarrow> listener" where
  "Listen connBacklog readBuf =
     \<lparr>acceptQueue = [],
      backlog = (if connBacklog \<le> 0 then defaultConnBacklog else nat connBacklog),
      readBufferSize = (if readBuf \<le> 0 then defaultReadBufferSize else nat readBuf),
      l_done = False, readDone = False, readErr = None,
      conns = Map.empty, heap = (\<lambda>_. blank_conn), next_id = 0,
      accepted = {}, releasing = {}, sock_closed = False, lock_held = False, rpc = RIdle\<rparr>"

section \<open>The atomic sections of the reader\<close>

definition set_conn :: "conn_id \<Rightarrow> conn \<Rightarrow> listener \<Rightarrow> listener" where
  "set_conn c x l = l\<lparr>heap := (heap l)(c := x)\<rparr>"

text \<open>Lookup under the read lock.\<close>

definition dispatch_lookup :: "packet \<Rightarrow> listener \<Rightarrow> listener" where
  "dispatch_lookup p l =
     (case conns l (src p) of
        Some c \<Rightarrow> l\<lparr>rpc := RFound c p\<rparr>
      | None \<Rightarrow> l\<lparr>rpc := RMiss p\<rparr>)"

text \<open>Non-blocking send to the connection; a full buffer drops the packet.\<close>

definition dispatch_deliver :: "conn_id \<Rightarrow> packet \<Rightarrow> listener \<Rightarrow> listener \<times> error" where
  "dispatch_deliver c p l =
     (let x = heap l c in
      if length (reads x) < readBufferSize l
      then (set_conn c (x\<lparr>reads := reads x @ [p]\<rparr>) l\<lparr>rpc := RIdle\<rparr>, None)
      else (l\<lparr>rpc := RIdle\<rparr>, Some ErrReadBufferExceeded))"

definition dispatch_check :: "packet \<Rightarrow> listener \<Rightarrow> listener \<times> error" where
  "dispatch_check p l =
     (if l_done l then (l\<lparr>rpc := RIdle\<rparr>, Some ErrClosedListener) else (l\<lparr>rpc := RNew p\<rparr>, None))"

text \<open>
  The connection with its first packet, put on the accept queue. Which ready case of the
  select is taken is not determined; the three outcomes are the three functions.
\<close>

definition new_conn :: "packet \<Rightarrow> conn" where
  "new_conn p = \<lparr>reads = [p], writeAddr = src p, conn_done = False,
     readDeadline = None, writeDeadline = None\<rparr>"

definition dispatch_enqueue :: "packet \<Rightarrow> listener \<Rightarrow> listener" where
  "dispatch_enqueue p l =
     (let c = next_id l in
      set_conn c (new_conn p) l
        \<lparr>next_id := Suc c, acceptQueue := acceptQueue l @ [c], rpc := RStore (src p) c\<rparr>)"

definition dispatch_refuse :: "err \<Rightarrow> listener \<Rightarrow> listener \<times> error" where
  "dispatch_refuse e l = (l\<lparr>rpc := RIdle\<rparr>, Some e)"

definition dispatch_store :: "addr \<Rightarrow> conn_id \<Rightarrow> listener \<Rightarrow> listener" where
  "dispatch_store a c l = l\<lparr>conns := (conns l)(a \<mapsto> c), rpc := RIdle\<rparr>"

definition readLoop_exit :: "err \<Rightarrow> listener \<Rightarrow> listener" where
  "readLoop_exit e l = l\<lparr>readErr := Some e, readDone := True, rpc := RExit\<rparr>"

section \<open>Closing\<close>

text \<open>
  \<open>tryCloseConn\<close>, called with the lock: with the listener closed and no entry left it closes
  the socket and then waits for the reader, still holding the lock.
\<close>

definition tryCloseConn :: "listener \<Rightarrow> listener" where
  "tryCloseConn l =
     (if l_done l then
        (if conns l = Map.empty then l\<lparr>sock_closed := True, lock_held := True\<rparr> else l)
      else l)"

definition Listener_Close :: "listener \<Rightarrow> listener" where
  "Listener_Close l = (if l_done l then l else tryCloseConn (l\<lparr>l_done := True\<rparr>))"

text \<open>\<open>Conn.Close\<close>: the first call closes \<open>done\<close> and goes on to \<open>release\<close>.\<close>

definition Conn_Close :: "conn_id \<Rightarrow> listener \<Rightarrow> listener" where
  "Conn_Close c l =
     (if conn_done (heap l c) then l
      else set_conn c ((heap l c)\<lparr>conn_done := True\<rparr>) l\<lparr>releasing := insert c (releasing l)\<rparr>)"

definition release :: "conn_id \<Rightarrow> listener \<Rightarrow> listener" where
  "release c l =
     tryCloseConn (l\<lparr>conns := (conns l)(writeAddr (heap l c) := None),
                     releasing := releasing l - {c}\<rparr>)"

section \<open>Calls of the application\<close>

definition Accept :: "listener \<Rightarrow> (conn_id \<times> listener) option" where
  "Accept l = (case acceptQueue l of [] \<Rightarrow> None
     | c # q \<Rightarrow> Some (c, l\<lparr>acceptQueue := q, accepted := insert c (accepted l)\<rparr>))"

text \<open>The ready cases of the select in \<open>Accept\<close>; none ready means it blocks.\<close>

definition Accept_ready :: "listener \<Rightarrow> (error + conn_id) set" where
  "Accept_ready l =
     (case acceptQueue l of [] \<Rightarrow> {} | c # _ \<Rightarrow> {Inr c})
     \<union> (if readDone l then {Inl (readErr l)} else {})
     \<union> (if l_done l then {Inl (Some ErrClosedListener)} else {})"

text \<open>\<open>newDeadline\<close>: no deadline never fires.\<close>

definition deadline_fired :: "int option \<Rightarrow> int \<Rightarrow> bool" where
  "deadline_fired dl now = (case dl of None \<Rightarrow> False | Some t \<Rightarrow> t \<le> now)"

definition SetReadDeadline :: "int option \<Rightarrow> conn \<Rightarrow> conn" where
  "SetReadDeadline t x = x\<lparr>readDeadline := t\<rparr>"

definition SetWriteDeadline :: "int option \<Rightarrow> conn \<Rightarrow> conn" where
  "SetWriteDeadline t x = x\<lparr>writeDeadline := t\<rparr>"

definition SetDeadline :: "int option \<Rightarrow> conn \<Rightarrow> conn" where
  "SetDeadline t x = x\<lparr>readDeadline := t, writeDeadline := t\<rparr>"

text \<open>
  \<open>Conn.Read\<close> into a buffer of \<open>n\<close> bytes at time \<open>now\<close>: the outcomes the select may choose,
  each with the connection afterwards. The empty set means the call blocks.
\<close>

definition Conn_Read :: "nat \<Rightarrow> int \<Rightarrow> conn \<Rightarrow> ((err + bytes) \<times> conn) set" where
  "Conn_Read n now x =
     (if deadline_fired (readDeadline x) now then {(Inl (Leaf ErrDeadlineExceeded), x)} else {})
     \<union> (case reads x of [] \<Rightarrow> {} | p # ps \<Rightarrow> {(Inr (take n (payload p)), x\<lparr>reads := ps\<rparr>)})
     \<union> (if conn_done x then {(Inl (Leaf ErrNetClosed), x)} else {})"

text \<open>\<open>Conn.Write\<close>: refused by the deadline or a closed connection, else handed to the socket.\<close>

definition Conn_Write :: "int \<Rightarrow> bytes \<Rightarrow> conn \<Rightarrow> (err + (addr \<times> bytes)) set" where
  "Conn_Write now p x =
     (if deadline_fired (writeDeadline x) now \<or> conn_done x
      then (if deadline_fired (writeDeadline x) now then {Inl (Leaf ErrDeadlineExceeded)} else {})
           \<union> (if conn_done x then {Inl (Leaf ErrNetClosed)} else {})
      else {Inr (writeAddr x, p)})"

section \<open>Steps\<close>

inductive udp_step :: "listener \<Rightarrow> listener \<Rightarrow> bool" where
  recv: "rpc l = RIdle \<Longrightarrow> \<not> sock_closed l \<Longrightarrow> length (payload p) \<le> MTU \<Longrightarrow>
     udp_step l (l\<lparr>rpc := RLookup p\<rparr>)"
| recv_err: "rpc l = RIdle \<Longrightarrow> udp_step l (readLoop_exit e l)"
| lookup: "rpc l = RLookup p \<Longrightarrow> \<not> lock_held l \<Longrightarrow> udp_step l (dispatch_lookup p l)"
| deliver: "rpc l = RFound c p \<Longrightarrow> udp_step l (fst (dispatch_deliver c p l))"
| check: "rpc l = RMiss p \<Longrightarrow> udp_step l (fst (dispatch_check p l))"
| enqueue: "rpc l = RNew p \<Longrightarrow> length (acceptQueue l) < backlog l \<Longrightarrow>
     udp_step l (dispatch_enqueue p l)"
| refuse_closed: "rpc l = RNew p \<Longrightarrow> l_done l \<Longrightarrow>
     udp_step l (fst (dispatch_refuse ErrClosedListener l))"
| refuse_full: "rpc l = RNew p \<Longrightarrow> backlog l \<le> length (acceptQueue l) \<Longrightarrow> \<not> l_done l \<Longrightarrow>
     udp_step l (fst (dispatch_refuse ErrListenQueueExceeded l))"
| store: "rpc l = RStore a c \<Longrightarrow> \<not> lock_held l \<Longrightarrow> udp_step l (dispatch_store a c l)"
| accept: "Accept l = Some (c, l') \<Longrightarrow> udp_step l l'"
| read: "c \<in> accepted l \<Longrightarrow> (r, x) \<in> Conn_Read n now (heap l c) \<Longrightarrow> udp_step l (set_conn c x l)"
| deadline: "c \<in> accepted l \<Longrightarrow>
     x \<in> {SetReadDeadline t (heap l c), SetWriteDeadline t (heap l c), SetDeadline t (heap l c)} \<Longrightarrow>
     udp_step l (set_conn c x l)"
| conn_close: "c \<in> accepted l \<Longrightarrow> udp_step l (Conn_Close c l)"
| conn_release: "c \<in> releasing l \<Longrightarrow> \<not> lock_held l \<Longrightarrow> udp_step l (release c l)"
| listener_close: "\<not> lock_held l \<Longrightarrow> udp_step l (Listener_Close l)"
| reader_gone: "lock_held l \<Longrightarrow> readDone l \<Longrightarrow> udp_step l (l\<lparr>lock_held := False\<rparr>)"

definition udp_init :: "listener \<Rightarrow> bool" where
  "udp_init l \<longleftrightarrow> (\<exists>b r. l = Listen b r)"

abbreviation udp_reach :: "listener \<Rightarrow> bool" where
  "udp_reach \<equiv> reach udp_init udp_step"

lemmas udp_defs = dispatch_lookup_def dispatch_deliver_def dispatch_check_def dispatch_enqueue_def
  dispatch_refuse_def dispatch_store_def readLoop_exit_def tryCloseConn_def Listener_Close_def
  Conn_Close_def release_def Accept_def set_conn_def new_conn_def

section \<open>Invariants\<close>

text \<open>Every live reference is below the allocation counter, and names its own address.\<close>

fun reader_ids :: "reader \<Rightarrow> conn_id set" where
  "reader_ids (RFound c p) = {c}"
| "reader_ids (RStore a c) = {c}"
| "reader_ids _ = {}"

fun reader_addr_ok :: "listener \<Rightarrow> reader \<Rightarrow> bool" where
  "reader_addr_ok l (RFound c p) = (writeAddr (heap l c) = src p)"
| "reader_addr_ok l (RStore a c) = (writeAddr (heap l c) = a)"
| "reader_addr_ok l _ = True"

definition ids_inv :: "listener \<Rightarrow> bool" where
  "ids_inv l \<longleftrightarrow>
     set (acceptQueue l) \<union> accepted l \<union> releasing l \<union> reader_ids (rpc l) \<subseteq> {..<next_id l} \<and>
     (\<forall>a c. conns l a = Some c \<longrightarrow> c < next_id l)"

definition route_inv :: "listener \<Rightarrow> bool" where
  "route_inv l \<longleftrightarrow>
     (\<forall>a c. conns l a = Some c \<longrightarrow> writeAddr (heap l c) = a) \<and>
     reader_addr_ok l (rpc l) \<and>
     (\<forall>c < next_id l. \<forall>p \<in> set (reads (heap l c)). src p = writeAddr (heap l c))"

definition bound_inv :: "listener \<Rightarrow> bool" where
  "bound_inv l \<longleftrightarrow>
     0 < readBufferSize l \<and> length (acceptQueue l) \<le> backlog l \<and>
     (\<forall>c < next_id l. length (reads (heap l c)) \<le> readBufferSize l)"

definition queue_once_inv :: "listener \<Rightarrow> bool" where
  "queue_once_inv l \<longleftrightarrow> distinct (acceptQueue l) \<and> set (acceptQueue l) \<inter> accepted l = {}"

definition socket_inv :: "listener \<Rightarrow> bool" where
  "socket_inv l \<longleftrightarrow>
     (readDone l \<longleftrightarrow> rpc l = RExit) \<and>
     (lock_held l \<longrightarrow> sock_closed l) \<and>
     (sock_closed l \<longrightarrow> l_done l \<and> conns l = Map.empty \<and> (lock_held l \<or> readDone l))"

definition udp_inv :: "listener \<Rightarrow> bool" where
  "udp_inv l \<longleftrightarrow> ids_inv l \<and> route_inv l \<and> bound_inv l \<and> queue_once_inv l \<and> socket_inv l"

lemmas [inv_defs] = ids_inv_def route_inv_def bound_inv_def queue_once_inv_def socket_inv_def

lemma udp_inv_init: "udp_init l \<Longrightarrow> udp_inv l"
  by (auto simp: udp_init_def Listen_def udp_inv_def inv_defs defaultReadBufferSize_def)

lemma ids_inv_step: "udp_step l l' \<Longrightarrow> ids_inv l \<Longrightarrow> ids_inv l'"
  by (induction rule: udp_step.induct)
    (auto simp: ids_inv_def udp_defs Let_def less_Suc_eq split: option.splits list.splits if_splits)

lemma Conn_Read_conn:
  "(r, x) \<in> Conn_Read n now y \<Longrightarrow>
   writeAddr x = writeAddr y \<and> conn_done x = conn_done y \<and> (x = y \<or> reads x = tl (reads y))"
  by (auto simp: Conn_Read_def split: if_splits list.splits)

lemma queue_once_step: "udp_step l l' \<Longrightarrow> ids_inv l \<Longrightarrow> queue_once_inv l \<Longrightarrow> queue_once_inv l'"
  by (induction rule: udp_step.induct)
    (auto simp: queue_once_inv_def ids_inv_def udp_defs Let_def split: option.splits list.splits)

lemma socket_inv_step: "udp_step l l' \<Longrightarrow> socket_inv l \<Longrightarrow> socket_inv l'"
  by (induction rule: udp_step.induct)
    (auto simp: socket_inv_def udp_defs Let_def split: option.splits list.splits if_splits)

text \<open>Steps that touch one connection keep its address and do not invent packets.\<close>

lemma route_inv_set_conn:
  assumes "route_inv l" and "writeAddr x = writeAddr (heap l c)"
    and "set (reads x) \<subseteq> insert p (set (reads (heap l c)))" and "src p = writeAddr x"
  shows "route_inv (set_conn c x l)"
proof -
  have "reader_addr_ok (set_conn c x l) (rpc l)"
    using assms(1,2) by (cases "rpc l") (auto simp: route_inv_def set_conn_def)
  with assms show ?thesis by (auto simp: route_inv_def set_conn_def subset_iff)
qed

lemma route_inv_rpc: "route_inv l \<Longrightarrow> reader_addr_ok l r \<Longrightarrow> route_inv (l\<lparr>rpc := r\<rparr>)"
proof -
  have "reader_addr_ok (l\<lparr>rpc := r\<rparr>) r = reader_addr_ok l r" by (cases r) simp_all
  then show "route_inv l \<Longrightarrow> reader_addr_ok l r \<Longrightarrow> route_inv (l\<lparr>rpc := r\<rparr>)"
    by (simp add: route_inv_def)
qed

lemma reader_addr_ok_cong:
  "heap l' = heap l \<Longrightarrow> reader_addr_ok l' r = reader_addr_ok l r"
  by (cases r) simp_all

lemma route_inv_cong:
  "route_inv l \<Longrightarrow> heap l' = heap l \<Longrightarrow> next_id l' = next_id l \<Longrightarrow> rpc l' = rpc l \<Longrightarrow>
   conns l' \<subseteq>\<^sub>m conns l \<Longrightarrow> route_inv l'"
  by (auto simp: route_inv_def reader_addr_ok_cong [of l' l] map_le_def dom_def)

lemma route_inv_enqueue:
  assumes "route_inv l" and "ids_inv l"
  shows "route_inv (dispatch_enqueue p l)"
proof -
  have "c \<noteq> next_id l" if "conns l a = Some c" for a c
    using that assms(2) by (auto simp: ids_inv_def)
  with assms(1) show ?thesis
    by (auto simp: route_inv_def dispatch_enqueue_def set_conn_def new_conn_def Let_def less_Suc_eq)
qed

text \<open>A connection that loses packets, or none.\<close>

lemma route_inv_conn:
  assumes "route_inv l" and "writeAddr x = writeAddr (heap l c)" and "set (reads x) \<subseteq> set (reads (heap l c))"
  shows "route_inv (set_conn c x l)"
  using assms by (intro route_inv_set_conn [where p = "\<lparr>src = writeAddr x, payload = []\<rparr>"]) auto

lemma route_inv_deliver:
  assumes "route_inv l" and "rpc l = RFound c p"
  shows "route_inv (fst (dispatch_deliver c p l))"
proof -
  have "src p = writeAddr (heap l c)" using assms by (simp add: route_inv_def)
  then have "route_inv (set_conn c ((heap l c)\<lparr>reads := reads (heap l c) @ [p]\<rparr>) l)"
    by (intro route_inv_set_conn [OF assms(1), where p = p]) auto
  then show ?thesis using assms(1) by (auto simp: dispatch_deliver_def Let_def intro!: route_inv_rpc)
qed

lemma route_inv_close: "route_inv l \<Longrightarrow> route_inv (Conn_Close c l)"
  using route_inv_conn [of l "(heap l c)\<lparr>conn_done := True\<rparr>" c]
  by (auto simp: Conn_Close_def intro: route_inv_cong)

lemma route_inv_step:
  assumes "udp_step l l'" and "ids_inv l" and "route_inv l"
  shows "route_inv l'"
  using assms
proof (induction rule: udp_step.induct)
  case (recv_err l e)
  then show ?case by (auto simp: readLoop_exit_def route_inv_def)
next
  case (lookup l p)
  then show ?case
    by (auto simp: dispatch_lookup_def route_inv_def split: option.split intro!: route_inv_rpc)
next
  case (store l a c)
  then show ?case by (auto simp: dispatch_store_def route_inv_def)
next
  case (read c l r x n now)
  have "set (reads x) \<subseteq> set (reads (heap l c))"
    using Conn_Read_conn [OF read.hyps(2)] by (cases "reads (heap l c)") auto
  with Conn_Read_conn [OF read.hyps(2)] read.prems show ?case by (intro route_inv_conn) auto
next
  case (deadline c l x t)
  then show ?case
    by (intro route_inv_conn) (auto simp: SetReadDeadline_def SetWriteDeadline_def SetDeadline_def)
next
  case (conn_release c l)
  then show ?case
    by (auto simp: release_def tryCloseConn_def map_le_def elim!: route_inv_cong)
next
  case (listener_close l)
  then show ?case by (auto simp: Listener_Close_def tryCloseConn_def elim!: route_inv_cong)
next
  case (reader_gone l)
  then show ?case by (auto elim!: route_inv_cong)
next
  case (accept l c l')
  then show ?case by (auto simp: Accept_def split: list.splits elim!: route_inv_cong)
qed (auto simp: dispatch_check_def dispatch_refuse_def
      intro: route_inv_rpc route_inv_enqueue route_inv_deliver route_inv_close)

lemma bound_inv_step:
  assumes "udp_step l l'" and "ids_inv l" and "bound_inv l"
  shows "bound_inv l'"
  using assms
proof (induction rule: udp_step.induct)
  case (read c l r x n now)
  from Conn_Read_conn [OF read.hyps(2)] have "length (reads x) \<le> length (reads (heap l c))" by auto
  with read show ?case by (fastforce simp: bound_inv_def set_conn_def)
next
  case (deadline c l x t)
  then show ?case
    by (auto simp: bound_inv_def set_conn_def SetReadDeadline_def SetWriteDeadline_def SetDeadline_def)
qed (auto simp: bound_inv_def udp_defs Let_def less_Suc_eq split: option.splits list.splits)

interpretation udp: inductive_invariant udp_init udp_step udp_inv
proof
  show "udp_init l \<Longrightarrow> udp_inv l" for l by (rule udp_inv_init)
  show "udp_inv l \<Longrightarrow> udp_step l l' \<Longrightarrow> udp_inv l'" for l l'
    unfolding udp_inv_def
    using ids_inv_step route_inv_step bound_inv_step queue_once_step socket_inv_step by blast
qed

section \<open>Runs used as witnesses\<close>

text \<open>A packet from \<open>a\<close> arrives, becomes a connection, is stored and accepted.\<close>

definition pkt0 :: packet where
  "pkt0 = \<lparr>src = ''a'', payload = [1, 2, 3]\<rparr>"

definition l_read :: listener where "l_read = (Listen 0 0)\<lparr>rpc := RLookup pkt0\<rparr>"

definition l_queued :: listener where
  "l_queued = dispatch_enqueue pkt0 ((Listen 0 0)\<lparr>rpc := RNew pkt0\<rparr>)"

definition l_stored :: listener where "l_stored = dispatch_store ''a'' 0 l_queued"

definition l_accepted :: listener where
  "l_accepted = l_stored\<lparr>acceptQueue := [], accepted := {0}\<rparr>"

lemma udp_start: "udp_reach (Listen b r)"
  by (rule reach_init) (auto simp: udp_init_def)

lemma reach_l_read: "udp_reach l_read"
  unfolding l_read_def
  by (rule reach_step [OF udp_start], rule udp_step.recv) (simp_all add: Listen_def pkt0_def MTU_def)

lemma l_read_rpc: "rpc l_read = RLookup pkt0" "\<not> lock_held l_read" "conns l_read = Map.empty"
  by (simp_all add: l_read_def Listen_def)

lemma reach_l_new: "udp_reach ((Listen 0 0)\<lparr>rpc := RNew pkt0\<rparr>)"
proof -
  have "udp_reach (dispatch_lookup pkt0 l_read)"
    using reach_l_read l_read_rpc by (auto intro: reach_step udp_step.lookup)
  moreover have m: "dispatch_lookup pkt0 l_read = (Listen 0 0)\<lparr>rpc := RMiss pkt0\<rparr>"
    by (simp add: dispatch_lookup_def l_read_rpc) (simp add: l_read_def)
  ultimately have "udp_reach ((Listen 0 0)\<lparr>rpc := RMiss pkt0\<rparr>)" by simp
  then have "udp_reach (fst (dispatch_check pkt0 ((Listen 0 0)\<lparr>rpc := RMiss pkt0\<rparr>)))"
    by (rule reach_step) (rule udp_step.check, simp)
  then show ?thesis by (simp add: dispatch_check_def Listen_def)
qed

lemma reach_l_queued: "udp_reach l_queued"
  unfolding l_queued_def
  by (rule reach_step [OF reach_l_new], rule udp_step.enqueue)
    (simp_all add: Listen_def defaultConnBacklog_def)

lemmas l_queued_simps = l_queued_def dispatch_enqueue_def Listen_def set_conn_def new_conn_def
  pkt0_def Let_def

lemma reach_l_stored: "udp_reach l_stored"
  unfolding l_stored_def
  by (rule reach_step [OF reach_l_queued], rule udp_step.store) (simp_all add: l_queued_simps)

lemma Accept_l_stored: "Accept l_stored = Some (0, l_accepted)"
  by (simp add: Accept_def l_accepted_def l_stored_def dispatch_store_def l_queued_simps)

lemma reach_l_accepted: "udp_reach l_accepted"
  by (rule reach_step [OF reach_l_stored], rule udp_step.accept, rule Accept_l_stored)

section \<open>Properties\<close>

text \<open>
  C20. No cross-delivery: whatever the interleaving, what \<open>Read\<close> on a connection returns is
  (the prefix that fits the buffer of) a packet that came from that connection's own remote
  address.
\<close>
theorem udp_read_own_packets:
  assumes "udp_reach l" and "c \<in> accepted l" and "(Inr d, x) \<in> Conn_Read n now (heap l c)"
  shows "\<exists>p. src p = writeAddr (heap l c) \<and> d = take n (payload p) \<and> reads (heap l c) = p # reads x"
proof -
  have inv: "udp_inv l" using assms(1) by (rule udp.inv_reach)
  then have "c < next_id l" using assms(2) by (auto simp: udp_inv_def ids_inv_def)
  moreover obtain p where p: "reads (heap l c) = p # reads x" "d = take n (payload p)"
    using assms(3) by (auto simp: Conn_Read_def split: if_splits list.splits)
  moreover have "\<forall>c < next_id l. \<forall>p \<in> set (reads (heap l c)). src p = writeAddr (heap l c)"
    using inv by (simp add: udp_inv_def route_inv_def)
  moreover have "p \<in> set (reads (heap l c))" by (simp only: p list.set_intros)
  ultimately show ?thesis by blast
qed

lemma heap_l_accepted: "heap l_accepted 0 = new_conn pkt0" "accepted l_accepted = {0}"
  by (simp_all add: l_accepted_def l_stored_def dispatch_store_def l_queued_def
      dispatch_enqueue_def set_conn_def Let_def Listen_def)

lemma read_l_accepted:
  "(Inr [1, 2], (heap l_accepted 0)\<lparr>reads := []\<rparr>) \<in> Conn_Read 2 0 (heap l_accepted 0)"
  unfolding heap_l_accepted by (simp add: Conn_Read_def new_conn_def pkt0_def)

theorem udp_read_own_packets_witness:
  "\<exists>p. src p = writeAddr (heap l_accepted 0) \<and> [1, 2] = take 2 (payload p) \<and>
     reads (heap l_accepted 0) = p # reads ((heap l_accepted 0)\<lparr>reads := []\<rparr>)"
  by (rule udp_read_own_packets [OF reach_l_accepted _ read_l_accepted])
    (simp add: heap_l_accepted)



text \<open>
  A connection is handed out once: \<open>Accept\<close> never returns a connection it returned before.
\<close>
theorem udp_accept_once:
  assumes "udp_reach l" and "Accept l = Some (c, l')"
  shows "c \<notin> accepted l \<and> c \<in> accepted l' \<and> c \<notin> set (acceptQueue l')"
  using udp.inv_reach [OF assms(1)] assms(2)
  by (auto simp: udp_inv_def queue_once_inv_def Accept_def split: list.splits)

theorem udp_accept_once_witness:
  "0 \<notin> accepted l_stored \<and> 0 \<in> accepted l_accepted \<and> 0 \<notin> set (acceptQueue l_accepted)"
  by (rule udp_accept_once [OF reach_l_stored Accept_l_stored])


lemma reach_l_closed: "udp_reach (Listener_Close (Listen 0 0))"
  by (rule reach_step [OF udp_start], rule udp_step.listener_close) (simp add: Listen_def)


section \<open>Defects of the interleaving\<close>

text \<open>
  The closer holds the lock and waits for the reader; the reader has read a packet and waits
  for the lock.
\<close>

definition stuck :: "listener \<Rightarrow> bool" where
  "stuck l \<longleftrightarrow> lock_held l \<and> \<not> readDone l \<and> (\<exists>p. rpc l = RLookup p)"

interpretation dead: inductive_invariant "\<lambda>_. False" udp_step stuck
proof
  fix l l'
  assume "udp_step l l'" and "stuck l"
  then show "stuck l'"
    by (cases rule: udp_step.cases)
      (auto simp: stuck_def Accept_def Conn_Close_def set_conn_def split: list.splits)
qed simp

text \<open>
  \<open>Listener.Close\<close> can deadlock: \<open>tryCloseConn\<close> waits for \<open>readDone\<close> while it holds
  \<open>connLock\<close>, and a reader that has just received a packet needs that lock before it can
  finish. From the state below, whatever anybody does next, the lock is never released and
  the reader never ends.
\<close>
theorem udp_close_deadlock:
  "\<exists>l. udp_reach l \<and> l = Listener_Close l_read \<and>
     udp_step\<^sup>*\<^sup>* l \<le> (\<lambda>t. lock_held t \<and> \<not> readDone t)"
proof -
  have "udp_reach (Listener_Close l_read)"
    by (rule reach_step [OF reach_l_read], rule udp_step.listener_close) (simp add: l_read_rpc)
  moreover have "stuck (Listener_Close l_read)"
    by (simp add: stuck_def Listener_Close_def tryCloseConn_def l_read_def Listen_def)
  then have "udp_step\<^sup>*\<^sup>* (Listener_Close l_read) \<le> (\<lambda>t. lock_held t \<and> \<not> readDone t)"
    using dead.inv_steps by (auto simp: stuck_def)
  ultimately show ?thesis by blast
qed

text \<open>
  A connection nobody accepted keeps the socket open: the code counts the entries of the
  table, and a queued connection is stored there before it is accepted.
\<close>

definition unaccepted :: "listener \<Rightarrow> bool" where
  "unaccepted l \<longleftrightarrow> accepted l = {} \<and> releasing l = {} \<and> conns l \<noteq> Map.empty \<and> \<not> sock_closed l"

definition quiet_step :: "listener \<Rightarrow> listener \<Rightarrow> bool" where
  "quiet_step l l' \<longleftrightarrow> udp_step l l' \<and> accepted l' = accepted l"

interpretation leak: inductive_invariant "\<lambda>_. False" quiet_step unaccepted
proof
  fix l l'
  assume u: "unaccepted l" and "quiet_step l l'"
  then have "udp_step l l'" and a: "accepted l' = accepted l" by (auto simp: quiet_step_def)
  then show "unaccepted l'" using u
    by (cases rule: udp_step.cases)
      (auto simp: unaccepted_def udp_defs Let_def split: option.splits list.splits if_splits)
qed simp

text \<open>
  After \<open>Listener.Close\<close> the socket stays open for good when a queued connection was never
  accepted, although no accepted connection is left: every continuation in which nothing more
  is accepted leaves it open.
\<close>
theorem udp_unaccepted_leak:
  "\<exists>l. udp_reach l \<and> l_done l \<and> accepted l = {} \<and> quiet_step\<^sup>*\<^sup>* l \<le> (\<lambda>t. \<not> sock_closed t)"
proof -
  let ?l = "Listener_Close l_stored"
  have s: "?l = l_stored\<lparr>l_done := True\<rparr>"
    by (simp add: Listener_Close_def tryCloseConn_def l_stored_def dispatch_store_def l_queued_simps)
  have "udp_reach ?l"
    by (rule reach_step [OF reach_l_stored], rule udp_step.listener_close)
      (simp add: l_stored_def dispatch_store_def l_queued_simps)
  moreover have u: "unaccepted ?l" unfolding s
    by (simp add: unaccepted_def l_stored_def dispatch_store_def l_queued_simps)
  then have "quiet_step\<^sup>*\<^sup>* ?l \<le> (\<lambda>t. \<not> sock_closed t)"
    using leak.inv_steps by (auto simp: unaccepted_def)
  ultimately show ?thesis using s u by (auto simp: unaccepted_def)
qed

text \<open>
  The table entry is written after the connection is on the accept queue, so an application
  that accepts and closes it in between leaves an entry for a closed connection.
\<close>

fun reader_targets :: "reader \<Rightarrow> addr \<Rightarrow> bool" where
  "reader_targets (RMiss p) a = (src p = a)"
| "reader_targets (RNew p) a = (src p = a)"
| "reader_targets (RStore b c) a = (b = a)"
| "reader_targets _ a = False"

definition stale :: "addr \<Rightarrow> conn_id \<Rightarrow> listener \<Rightarrow> bool" where
  "stale a c l \<longleftrightarrow>
     conns l a = Some c \<and> c < next_id l \<and> conn_done (heap l c) \<and> c \<notin> releasing l \<and>
     \<not> reader_targets (rpc l) a \<and>
     (\<forall>c' < next_id l. writeAddr (heap l c') = a \<longrightarrow> c' = c)"

lemma stale_release:
  assumes "udp_inv l" and "stale a c l" and "c' \<in> releasing l"
  shows "stale a c (release c' l)"
proof -
  have "c' < next_id l" "c' \<noteq> c" using assms by (auto simp: udp_inv_def ids_inv_def stale_def)
  then have w: "writeAddr (heap l c') \<noteq> a" using assms(2) by (auto simp: stale_def)
  then have "(conns l)(writeAddr (heap l c') := None) \<noteq> Map.empty"
    using assms(2) by (metis fun_upd_other option.distinct(1) stale_def)
  with w show ?thesis using assms(2) by (auto simp: stale_def release_def tryCloseConn_def)
qed

lemma stale_set_conn:
  assumes "stale a c l" and "writeAddr x = writeAddr (heap l d)" and "conn_done x = conn_done (heap l d)"
  shows "stale a c (set_conn d x l)"
  using assms by (auto simp: stale_def set_conn_def split: if_splits)

lemma stale_step:
  assumes "udp_inv l" and "stale a c l" and "udp_step l l'"
  shows "stale a c l'"
  using assms(3,1,2)
proof (cases rule: udp_step.cases)
  case (conn_release c')
  then show ?thesis using stale_release [OF assms(1,2)] by simp
next
  case (read c' r x n now)
  then show ?thesis using stale_set_conn [OF assms(2)] Conn_Read_conn [OF read(3)] by simp
next
  case (deadline c' x t)
  then show ?thesis using stale_set_conn [OF assms(2), of x c']
    by (auto simp: SetReadDeadline_def SetWriteDeadline_def SetDeadline_def)
next
  case (enqueue p)
  then show ?thesis using assms(2)
    by (auto simp: stale_def dispatch_enqueue_def set_conn_def new_conn_def Let_def less_Suc_eq)
next
  case (listener_close)
  have "conns l \<noteq> Map.empty" using assms(2) by (auto simp: stale_def)
  with listener_close show ?thesis using assms(2)
    by (simp add: stale_def Listener_Close_def tryCloseConn_def)
next
  case (accept d)
  obtain q where "l' = l\<lparr>acceptQueue := q, accepted := insert d (accepted l)\<rparr>"
    using accept by (auto simp: Accept_def split: list.splits)
  then show ?thesis using assms(2) by (simp add: stale_def)
qed (use assms(2) in \<open>auto simp: stale_def dispatch_lookup_def dispatch_check_def dispatch_refuse_def dispatch_deliver_def
      dispatch_store_def Conn_Close_def set_conn_def readLoop_exit_def Let_def split: option.split\<close>)

interpretation stale_entry: inductive_invariant "\<lambda>_. False" udp_step "\<lambda>l. udp_inv l \<and> stale a c l"
  by unfold_locales (auto intro: stale_step udp.inv_step)

definition l_raced :: listener where
  "l_raced = dispatch_store ''a'' 0 (release 0 (Conn_Close 0
     (l_queued\<lparr>acceptQueue := [], accepted := {0}\<rparr>)))"

lemma reach_l_raced: "udp_reach l_raced"
proof -
  let ?acc = "l_queued\<lparr>acceptQueue := [], accepted := {0}\<rparr>"
  have "Accept l_queued = Some (0, ?acc)"
    by (simp add: Accept_def l_queued_simps)
  then have "udp_reach ?acc" by (rule reach_step [OF reach_l_queued udp_step.accept])
  then have "udp_reach (Conn_Close 0 ?acc)"
    by (rule reach_step) (rule udp_step.conn_close, simp)
  then have "udp_reach (release 0 (Conn_Close 0 ?acc))"
    by (rule reach_step) (rule udp_step.conn_release, simp_all add: Conn_Close_def l_queued_simps)
  then show ?thesis unfolding l_raced_def
    by (rule reach_step)
      (rule udp_step.store, simp_all add: release_def tryCloseConn_def Conn_Close_def l_queued_simps)
qed

text \<open>
  A fast accept-and-close loses the peer: a schedule leaves the table entry of an address
  on a connection that is closed and released. From then on the entry never goes away, so no
  later packet of that address ever makes a new connection, and the socket is never closed.
\<close>
theorem udp_stale_entry:
  "udp_reach l_raced \<and> conn_done (heap l_raced 0) \<and> 0 \<notin> releasing l_raced \<and>
   udp_step\<^sup>*\<^sup>* l_raced \<le> (\<lambda>t. conns t ''a'' = Some 0 \<and> \<not> sock_closed t)"
proof -
  have st: "stale ''a'' 0 l_raced"
    by (simp add: stale_def l_raced_def dispatch_store_def release_def tryCloseConn_def
        Conn_Close_def l_queued_simps)
  have inv: "udp_inv l_raced" by (rule udp.inv_reach [OF reach_l_raced])
  have "conns t ''a'' = Some 0 \<and> \<not> sock_closed t" if "udp_step\<^sup>*\<^sup>* l_raced t" for t
    using stale_entry.inv_steps [OF that, of "''a''" 0] inv st
    by (auto simp: stale_def udp_inv_def socket_inv_def)
  with st reach_l_raced show ?thesis by (auto simp: stale_def)
qed

end
