(* ===== verification/Go_Codec.thy ===== *)
theory Go_Codec
  imports Go_Errors
begin

text \<open>
  The parts of Go's \<open>encoding/binary\<close>, \<open>encoding/base32\<close>, \<open>encoding/base64\<close>,
  \<open>unicode/utf8\<close> and \<open>bytes\<close> that the sources call. All of them regroup digits: a byte
  string read as a number in base 256 and written in base 32 or 64, and back. The decoders
  follow the library's order of checks (newlines stripped, padding required and only at the
  end, non-strict trailing bits); a decoder that would write past its destination is
  \<open>None\<close>, the panic.
\<close>

section \<open>Positional digits, most significant first\<close>

fun digits :: "nat \<Rightarrow> nat \<Rightarrow> nat \<Rightarrow> nat list" where
  "digits b 0 x = []"
| "digits b (Suc n) x = digits b n (x div b) @ [x mod b]"

definition undigits :: "nat \<Rightarrow> nat list \<Rightarrow> nat" where
  "undigits b ds = foldl (\<lambda>a d. a * b + d) 0 ds"

lemma undigits_Nil [simp]: "undigits b [] = 0"
  by (simp add: undigits_def)

lemma undigits_snoc [simp]: "undigits b (ds @ [d]) = undigits b ds * b + d"
  by (simp add: undigits_def)

lemma digits_numeral:
  "digits b (numeral k) x = digits b (pred_numeral k) (x div b) @ [x mod b]"
  by (simp add: numeral_eq_Suc)

lemma length_digits [simp]: "length (digits b n x) = n"
  by (induction b n x rule: digits.induct) auto

lemma digits_bound: "0 < b \<Longrightarrow> d \<in> set (digits b n x) \<Longrightarrow> d < b"
  by (induction b n x rule: digits.induct) auto

lemma undigits_digits: "x < b ^ n \<Longrightarrow> undigits b (digits b n x) = x"
proof (induction b n x rule: digits.induct)
  case (2 b n x)
  then have "x div b < b ^ n"
    by (simp add: less_mult_imp_div_less mult.commute)
  with 2 show ?case by simp
qed simp

lemma undigits_bound: "(\<forall>d \<in> set ds. d < b) \<Longrightarrow> undigits b ds < b ^ length ds"
proof (induction ds rule: rev_induct)
  case (snoc d ds)
  then have "undigits b ds \<le> b ^ length ds - 1" and d: "d < b" by auto
  then have "undigits b ds * b \<le> (b ^ length ds - 1) * b" by simp
  then have "undigits b ds * b + d < (b ^ length ds - 1) * b + b" using d by linarith
  also have "\<dots> = b ^ length ds * b"
    using d by (simp add: algebra_simps)
  finally show ?case by (simp add: mult.commute)
qed simp

lemma digits_undigits:
  "(\<forall>d \<in> set ds. d < b) \<Longrightarrow> digits b (length ds) (undigits b ds) = ds"
  by (induction ds rule: rev_induct) auto

section \<open>Bytes as digits\<close>

definition of_bytes :: "bytes \<Rightarrow> nat" where
  "of_bytes bs = undigits 256 (map unat bs)"

definition to_bytes :: "nat \<Rightarrow> nat \<Rightarrow> bytes" where
  "to_bytes n x = map of_nat (digits 256 n x)"

lemma unat_u8_bound: "unat (b :: u8) < 256"
  using unsigned_less [of b, where ?'a = nat] by simp

lemma length_to_bytes [simp]: "length (to_bytes n x) = n"
  by (simp add: to_bytes_def)

lemma to_of_bytes [simp]: "length bs = n \<Longrightarrow> to_bytes n (of_bytes bs) = bs"
proof -
  assume "length bs = n"
  then have "digits 256 n (undigits 256 (map unat bs)) = map unat bs"
    using digits_undigits [of "map unat bs" 256] by (auto simp: unat_u8_bound)
  then show ?thesis by (simp add: to_bytes_def of_bytes_def comp_def)
qed

lemma of_to_bytes:
  assumes "x < 256 ^ n"
  shows "of_bytes (to_bytes n x) = x"
proof -
  have "map (unat \<circ> (of_nat :: nat \<Rightarrow> u8)) (digits 256 n x) = digits 256 n x"
    by (rule map_idI) (auto dest!: digits_bound [rotated] simp: unat_of_nat)
  then show ?thesis using assms undigits_digits [of x 256 n]
    by (simp add: of_bytes_def to_bytes_def)
qed

lemma of_bytes_bound: "of_bytes bs < 256 ^ length bs"
  using undigits_bound [of "map unat bs" 256] by (simp add: of_bytes_def unat_u8_bound)

text \<open>\<open>binary.BigEndian.PutUint32\<close>, \<open>Uint32\<close> and the little-endian 16-bit pair.\<close>

definition put_u32 :: "u32 \<Rightarrow> bytes" where
  "put_u32 w = to_bytes 4 (unat w)"

definition get_u32 :: "bytes \<Rightarrow> u32" where
  "get_u32 bs = of_nat (of_bytes bs)"

definition le_put_u16 :: "u16 \<Rightarrow> bytes" where
  "le_put_u16 w = rev (to_bytes 2 (unat w))"

definition le_get_u16 :: "bytes \<Rightarrow> u16" where
  "le_get_u16 bs = of_nat (of_bytes (rev bs))"

lemma length_put_u32 [simp]: "length (put_u32 w) = 4"
  by (simp add: put_u32_def)

lemma length_le_put_u16 [simp]: "length (le_put_u16 w) = 2"
  by (simp add: le_put_u16_def)

lemma get_put_u32 [simp]: "get_u32 (put_u32 w) = w"
proof -
  have "unat w < 256 ^ 4" using unsigned_less [of w, where ?'a = nat] by simp
  then show ?thesis by (simp add: get_u32_def put_u32_def of_to_bytes)
qed

lemma le_get_put_u16 [simp]: "le_get_u16 (le_put_u16 w) = w"
proof -
  have "unat w < 256 ^ 2" using unsigned_less [of w, where ?'a = nat] by simp
  then show ?thesis by (simp add: le_get_u16_def le_put_u16_def of_to_bytes)
qed

lemma put_get_u32: "length bs = 4 \<Longrightarrow> put_u32 (get_u32 bs) = bs"
proof -
  assume l: "length bs = 4"
  have "of_bytes bs < 2 ^ 32" using of_bytes_bound [of bs] by (simp add: l)
  then have "unat (of_nat (of_bytes bs) :: u32) = of_bytes bs"
    by (simp add: unat_of_nat)
  then show ?thesis using l by (simp add: put_u32_def get_u32_def)
qed

section \<open>Alphabets\<close>

definition ascii :: "string \<Rightarrow> bytes" where
  "ascii s = map (\<lambda>c. of_nat (of_char c)) s"

fun index_of :: "'a \<Rightarrow> 'a list \<Rightarrow> nat option" where
  "index_of x [] = None"
| "index_of x (y # ys) = (if x = y then Some 0 else map_option Suc (index_of x ys))"

lemma index_of_Some: "index_of x ys = Some i \<Longrightarrow> i < length ys \<and> ys ! i = x"
  by (induction ys arbitrary: i) (auto split: if_splits)

lemma index_of_nth: "distinct ys \<Longrightarrow> i < length ys \<Longrightarrow> index_of (ys ! i) ys = Some i"
proof (induction ys arbitrary: i)
  case (Cons y ys)
  then show ?case by (cases i) auto
qed simp

definition pad_char :: u8 where "pad_char = 61"

definition is_newline :: "u8 \<Rightarrow> bool" where
  "is_newline b \<longleftrightarrow> b = 10 \<or> b = 13"

definition strip_newlines :: "bytes \<Rightarrow> bytes" where
  "strip_newlines bs = filter (\<lambda>b. \<not> is_newline b) bs"

datatype codec_error = CorruptInput

section \<open>base32\<close>

text \<open>\<open>Encode\<close> of one five-byte quantum.\<close>

definition b32_encode :: "bytes \<Rightarrow> bytes \<Rightarrow> bytes" where
  "b32_encode alphabet bs = map (\<lambda>d. alphabet ! d) (digits 32 8 (of_bytes bs))"

text \<open>
  One quantum of \<open>decode\<close>: up to eight characters are collected in \<open>dbuf\<close>; a padding
  character in position 2 or later with fewer than eight characters after it ends the input.
  The result is the collected digits, whether the end was reached, and the rest.
\<close>

fun b32_quantum :: "bytes \<Rightarrow> nat list \<Rightarrow> bytes \<Rightarrow> codec_error + (nat list \<times> bool \<times> bytes)" where
  "b32_quantum alphabet dbuf [] =
     (if length dbuf = 8 then Inr (dbuf, False, []) else Inl CorruptInput)"
| "b32_quantum alphabet dbuf (c # cs) =
     (if length dbuf = 8 then Inr (dbuf, False, c # cs)
      else if c = pad_char \<and> 2 \<le> length dbuf \<and> length cs < 8 then
        (if length cs + length dbuf < 7 then Inl CorruptInput
         else if \<not> list_all (\<lambda>x. x = pad_char) (take (7 - length dbuf) cs) then Inl CorruptInput
         else if length dbuf \<in> {1, 3, 6} then Inl CorruptInput
         else Inr (dbuf, True, cs))
      else (case index_of c alphabet of
              None \<Rightarrow> Inl CorruptInput
            | Some d \<Rightarrow> b32_quantum alphabet (dbuf @ [d]) cs))"

text \<open>The bytes a quantum of \<open>dlen\<close> digits packs to: 8, 7, 5, 4, 2 digits give 5 to 1 bytes.\<close>

definition b32_pack :: "nat list \<Rightarrow> bytes" where
  "b32_pack dbuf =
     take (length dbuf * 5 div 8)
       (to_bytes 5 (undigits 32 (dbuf @ replicate (8 - length dbuf) 0)))"

text \<open>
  The loop over quanta, writing into a destination with \<open>room\<close> bytes left; \<open>fuel\<close> bounds
  the number of quanta and is never exhausted (every quantum that does not end the input
  consumes eight characters).
\<close>

fun b32_loop :: "nat \<Rightarrow> bytes \<Rightarrow> nat \<Rightarrow> bytes \<Rightarrow> (codec_error + bytes) option" where
  "b32_loop 0 alphabet room src = (if src = [] then Some (Inr []) else None)"
| "b32_loop (Suc fuel) alphabet room src =
     (if src = [] then Some (Inr [])
      else case b32_quantum alphabet [] src of
        Inl e \<Rightarrow> Some (Inl e)
      | Inr (dbuf, end, rest) \<Rightarrow>
          (let out = b32_pack dbuf in
           if room < length out then None
           else if end then Some (Inr out)
           else (case b32_loop fuel alphabet (room - length out) rest of
                   None \<Rightarrow> None
                 | Some (Inl e) \<Rightarrow> Some (Inl e)
                 | Some (Inr bs) \<Rightarrow> Some (Inr (out @ bs)))))"

definition b32_decode :: "bytes \<Rightarrow> nat \<Rightarrow> bytes \<Rightarrow> (codec_error + bytes) option" where
  "b32_decode alphabet room src =
     (let s = strip_newlines src in b32_loop (length s) alphabet room s)"

section \<open>base64\<close>

definition b64_group :: "bytes \<Rightarrow> bytes \<Rightarrow> bytes" where
  "b64_group alphabet bs = map (\<lambda>d. alphabet ! d) (digits 64 4 (of_bytes bs))"

fun b64_encode :: "bytes \<Rightarrow> bytes \<Rightarrow> bytes" where
  "b64_encode alphabet (a # b # c # bs) = b64_group alphabet [a, b, c] @ b64_encode alphabet bs"
| "b64_encode alphabet [a, b] = take 3 (b64_group alphabet [a, b, 0]) @ [pad_char]"
| "b64_encode alphabet [a] = take 2 (b64_group alphabet [a, 0, 0]) @ [pad_char, pad_char]"
| "b64_encode alphabet [] = []"

definition b64_pack :: "nat list \<Rightarrow> bytes" where
  "b64_pack dbuf =
     take (length dbuf - 1) (to_bytes 3 (undigits 64 (dbuf @ replicate (4 - length dbuf) 0)))"

fun b64_quanta :: "bytes \<Rightarrow> bytes \<Rightarrow> codec_error + bytes" where
  "b64_quanta alphabet [] = Inr []"
| "b64_quanta alphabet (c0 # c1 # c2 # c3 # cs) =
     (case (index_of c0 alphabet, index_of c1 alphabet) of
        (Some d0, Some d1) \<Rightarrow>
          (case index_of c2 alphabet of
             Some d2 \<Rightarrow>
               (case index_of c3 alphabet of
                  Some d3 \<Rightarrow>
                    (case b64_quanta alphabet cs of
                       Inl e \<Rightarrow> Inl e
                     | Inr bs \<Rightarrow> Inr (b64_pack [d0, d1, d2, d3] @ bs))
                | None \<Rightarrow>
                    (if c3 = pad_char \<and> cs = [] then Inr (b64_pack [d0, d1, d2])
                     else Inl CorruptInput))
           | None \<Rightarrow>
               (if c2 = pad_char \<and> c3 = pad_char \<and> cs = [] then Inr (b64_pack [d0, d1])
                else Inl CorruptInput))
      | _ \<Rightarrow> Inl CorruptInput)"
| "b64_quanta alphabet _ = Inl CorruptInput"

definition b64_decode :: "bytes \<Rightarrow> bytes \<Rightarrow> codec_error + bytes" where
  "b64_decode alphabet src = b64_quanta alphabet (strip_newlines src)"

section \<open>UTF-8 and bytes.Map\<close>

definition rune_error :: nat where "rune_error = 65533"

definition cont :: "u8 \<Rightarrow> bool" where
  "cont b \<longleftrightarrow> 128 \<le> b \<and> b \<le> 191"

text \<open>\<open>utf8.DecodeRune\<close> on a non-empty string: the rune and its width.\<close>

definition decode_rune :: "bytes \<Rightarrow> nat \<times> nat" where
  "decode_rune bs =
     (case bs of
        [] \<Rightarrow> (rune_error, 0)
      | b0 # r0 \<Rightarrow>
         if b0 < 128 then (unat b0, 1)
         else (case r0 of
            [] \<Rightarrow> (rune_error, 1)
          | b1 # r1 \<Rightarrow>
             if \<not> cont b1 then (rune_error, 1)
             else if 194 \<le> b0 \<and> b0 \<le> 223 then ((unat b0 - 192) * 64 + (unat b1 - 128), 2)
             else (case r1 of
                [] \<Rightarrow> (rune_error, 1)
              | b2 # r2 \<Rightarrow>
                 if \<not> cont b2 then (rune_error, 1)
                 else if 224 \<le> b0 \<and> b0 \<le> 239 then
                   (if b0 = 224 \<and> b1 < 160 \<or> b0 = 237 \<and> 160 \<le> b1 then (rune_error, 1)
                    else ((unat b0 - 224) * 4096 + (unat b1 - 128) * 64 + (unat b2 - 128), 3))
                 else (case r2 of
                    [] \<Rightarrow> (rune_error, 1)
                  | b3 # _ \<Rightarrow>
                     if \<not> cont b3 \<or> b0 < 240 \<or> 244 < b0 \<or> b0 = 240 \<and> b1 < 144 \<or> b0 = 244 \<and> 144 \<le> b1
                     then (rune_error, 1)
                     else ((unat b0 - 240) * 262144 + (unat b1 - 128) * 4096
                            + (unat b2 - 128) * 64 + (unat b3 - 128), 4)))))"

text \<open>\<open>utf8.AppendRune\<close>; a rune that is not a valid code point is written as U+FFFD.\<close>

definition mk_byte :: "nat \<Rightarrow> u8" where
  "mk_byte n = of_nat n"

definition encode_valid :: "nat \<Rightarrow> bytes" where
  "encode_valid r =
     (if r < 128 then [mk_byte r]
      else if r < 2048 then [mk_byte (192 + r div 64), mk_byte (128 + r mod 64)]
      else if r < 65536 then
        [mk_byte (224 + r div 4096), mk_byte (128 + r div 64 mod 64), mk_byte (128 + r mod 64)]
      else [mk_byte (240 + r div 262144), mk_byte (128 + r div 4096 mod 64),
            mk_byte (128 + r div 64 mod 64), mk_byte (128 + r mod 64)])"

definition encode_rune :: "nat \<Rightarrow> bytes" where
  "encode_rune r =
     encode_valid (if 1114111 < r \<or> 55296 \<le> r \<and> r \<le> 57343 then rune_error else r)"

text \<open>\<open>bytes.Map\<close>: \<open>None\<close> stands for the negative rune that drops a character.\<close>

function bytes_map :: "(nat \<Rightarrow> nat option) \<Rightarrow> bytes \<Rightarrow> bytes" where
  "bytes_map f bs =
     (if bs = [] then []
      else (case decode_rune bs of (r, w) \<Rightarrow>
              (case f r of None \<Rightarrow> [] | Some r' \<Rightarrow> encode_rune r')
                @ bytes_map f (drop (max 1 w) bs)))"
  by pat_completeness auto
termination
  by (relation "measure (\<lambda>(f, bs). length bs)") auto

declare bytes_map.simps [simp del]

section \<open>Laws of the decoders\<close>

text \<open>
  What the codecs rely on in an alphabet: one character per digit, none of them the padding
  character or a newline, all of them ASCII.
\<close>

locale codec_alphabet =
  fixes alphabet :: bytes and base :: nat
  assumes alphabet_distinct: "distinct alphabet"
    and alphabet_length: "length alphabet = base"
    and alphabet_pad: "pad_char \<notin> set alphabet"
    and alphabet_newline: "b \<in> set alphabet \<Longrightarrow> \<not> is_newline b"
    and alphabet_ascii: "b \<in> set alphabet \<Longrightarrow> b < 128"
begin

lemma index_alphabet: "d < base \<Longrightarrow> index_of (alphabet ! d) alphabet = Some d"
  by (simp add: index_of_nth alphabet_distinct alphabet_length)

lemma alphabet_mem: "d < base \<Longrightarrow> alphabet ! d \<in> set alphabet"
  by (simp add: alphabet_length)

lemma nth_index_alphabet: "index_of c alphabet = Some d \<Longrightarrow> d < base \<and> alphabet ! d = c"
  using index_of_Some alphabet_length by metis

lemma index_ascii: "index_of c alphabet = Some d \<Longrightarrow> c < 128"
  using nth_index_alphabet alphabet_mem alphabet_ascii by metis

lemma index_pad: "index_of pad_char alphabet = None"
  using index_of_Some alphabet_pad nth_mem by (metis option.exhaust)

lemma strip_alphabet: "set cs \<subseteq> set alphabet \<union> {pad_char} \<Longrightarrow> strip_newlines cs = cs"
  using alphabet_newline unfolding strip_newlines_def filter_id_conv
  by (auto dest!: subsetD simp: pad_char_def is_newline_def)

end

subsection \<open>base32\<close>

locale base32_alphabet = codec_alphabet alphabet 32 for alphabet
begin

lemma quantum_digits:
  assumes "length dbuf + length ds = 8" and "\<forall>d \<in> set ds. d < 32"
  shows "b32_quantum alphabet dbuf (map ((!) alphabet) ds @ rest) = Inr (dbuf @ ds, False, rest)"
  using assms
proof (induction ds arbitrary: dbuf)
  case Nil
  then show ?case by (cases rest) auto
next
  case (Cons d ds)
  have "alphabet ! d \<noteq> pad_char"
    using Cons.prems(2) alphabet_mem [of d] alphabet_pad by auto
  with Cons show ?case by (simp add: index_alphabet)
qed

lemma quantum_result:
  assumes "b32_quantum alphabet dbuf src = Inr (ds, e, rest)" and "length dbuf \<le> 8"
    and "\<forall>d \<in> set dbuf. d < 32"
  shows "2 \<le> length ds \<and> length ds \<le> 8 \<and> (\<forall>d \<in> set ds. d < 32) \<and> (\<not> e \<longrightarrow> length ds = 8) \<and>
    (e \<longrightarrow> length ds < 8) \<and>
    (\<exists>cs. src = cs @ rest \<and> (\<forall>c \<in> set cs. c < 128) \<and>
          (\<not> e \<longrightarrow> length dbuf + length cs = 8 \<and> dbuf @ map (\<lambda>c. the (index_of c alphabet)) cs = ds \<and>
             (\<forall>c \<in> set cs. index_of c alphabet \<noteq> None)))"
  using assms
proof (induction src arbitrary: dbuf)
  case Nil
  then show ?case by (auto split: if_splits)
next
  case (Cons c cs)
  consider "length dbuf = 8" | "length dbuf < 8" "c = pad_char \<and> 2 \<le> length dbuf \<and> length cs < 8"
    | "length dbuf < 8" "\<not> (c = pad_char \<and> 2 \<le> length dbuf \<and> length cs < 8)"
    using Cons.prems(2) by linarith
  then show ?case
  proof cases
    case 1
    with Cons.prems show ?thesis by auto
  next
    case 2
    with Cons.prems have "ds = dbuf" "e" "rest = cs"
      by (auto split: if_splits)
    with 2 Cons.prems show ?thesis by (auto simp: pad_char_def intro!: exI [of _ "[c]"])
  next
    case 3
    with Cons.prems obtain d where d: "index_of c alphabet = Some d"
      and q: "b32_quantum alphabet (dbuf @ [d]) cs = Inr (ds, e, rest)"
      by (auto split: option.splits)
    have "\<forall>d' \<in> set (dbuf @ [d]). d' < 32" using Cons.prems(3) nth_index_alphabet [OF d] by auto
    from Cons.IH [OF q _ this] 3 obtain cs' where cs':
      "2 \<le> length ds" "length ds \<le> 8" "\<forall>d \<in> set ds. d < 32" "\<not> e \<longrightarrow> length ds = 8"
      "e \<longrightarrow> length ds < 8" "cs = cs' @ rest" "\<forall>c \<in> set cs'. c < 128"
      "\<not> e \<longrightarrow> length (dbuf @ [d]) + length cs' = 8 \<and>
         (dbuf @ [d]) @ map (\<lambda>c. the (index_of c alphabet)) cs' = ds \<and>
         (\<forall>c \<in> set cs'. index_of c alphabet \<noteq> None)"
      by auto
    with d index_ascii [OF d] show ?thesis by (intro conjI exI [of _ "c # cs'"]) auto
  qed
qed

lemmas quantum_length = quantum_result [THEN conjunct1] quantum_result [THEN conjunct2, THEN conjunct1]

lemma length_pack: "2 \<le> length ds \<Longrightarrow> length ds \<le> 8 \<Longrightarrow> length (b32_pack ds) = length ds * 5 div 8"
proof -
  assume "length ds \<le> 8"
  then have "length ds * 5 div 8 \<le> 5" by linarith
  then show ?thesis by (simp add: b32_pack_def)
qed

lemma pack_digits: "length bs = 5 \<Longrightarrow> b32_pack (digits 32 8 (of_bytes bs)) = bs"
proof -
  assume l: "length bs = 5"
  have "undigits 32 (digits 32 8 (of_bytes bs)) = of_bytes bs"
    using of_bytes_bound [of bs] by (intro undigits_digits) (simp add: l)
  then show ?thesis using l by (simp add: b32_pack_def)
qed

lemma digits_pack:
  assumes "length ds = 8" and "\<forall>d \<in> set ds. d < 32"
  shows "digits 32 8 (of_bytes (b32_pack ds)) = ds"
proof -
  have "undigits 32 ds < 256 ^ 5" using undigits_bound [OF assms(2)] assms(1) by simp
  then have "of_bytes (b32_pack ds) = undigits 32 ds"
    using assms(1) by (simp add: b32_pack_def of_to_bytes)
  then show ?thesis using digits_undigits [OF assms(2)] assms(1) by simp
qed

lemma encode_subset: "set (b32_encode alphabet bs) \<subseteq> set alphabet"
proof -
  have "\<forall>d \<in> set (digits 32 8 (of_bytes bs)). d < 32" using digits_bound by auto
  then show ?thesis by (auto simp: b32_encode_def intro: alphabet_mem)
qed

lemma length_encode [simp]: "length (b32_encode alphabet bs) = 8"
  by (simp add: b32_encode_def)

lemma loop_Nil [simp]: "b32_loop n alphabet room [] = Some (Inr [])"
  by (cases n) simp_all

lemma loop_step:
  "src \<noteq> [] \<Longrightarrow> b32_quantum alphabet [] src = Inr (ds, e, rest) \<Longrightarrow>
   length (b32_pack ds) \<le> room \<Longrightarrow>
   b32_loop (Suc n) alphabet room src =
     (if e then Some (Inr (b32_pack ds))
      else case b32_loop n alphabet (room - length (b32_pack ds)) rest of
        None \<Rightarrow> None | Some (Inl x) \<Rightarrow> Some (Inl x) | Some (Inr bs) \<Rightarrow> Some (Inr (b32_pack ds @ bs)))"
  by (simp add: Let_def)

lemma decode_encode:
  assumes "length bs = 5"
  shows "b32_decode alphabet 5 (b32_encode alphabet bs) = Some (Inr bs)"
proof -
  let ?ds = "digits 32 8 (of_bytes bs)"
  have enc: "b32_encode alphabet bs = map ((!) alphabet) ?ds" by (simp add: b32_encode_def)
  have strip: "strip_newlines (b32_encode alphabet bs) = b32_encode alphabet bs"
    using encode_subset by (intro strip_alphabet) auto
  have "b32_quantum alphabet [] (map ((!) alphabet) ?ds @ []) = Inr ([] @ ?ds, False, [])"
    by (rule quantum_digits) (auto dest: digits_bound [rotated])
  then have q: "b32_quantum alphabet [] (b32_encode alphabet bs) = Inr (?ds, False, [])"
    by (simp add: enc)
  have "b32_encode alphabet bs \<noteq> []" by (metis length_encode list.size(3) zero_neq_numeral)
  then obtain n where n: "length (b32_encode alphabet bs) = Suc n"
    by (metis length_0_conv not0_implies_Suc)
  have "length (b32_pack ?ds) \<le> 5" using pack_digits [OF assms] assms by simp
  from loop_step [OF \<open>b32_encode alphabet bs \<noteq> []\<close> q this]
  show ?thesis unfolding b32_decode_def strip Let_def n using pack_digits [OF assms] by simp
qed

text \<open>With no room left the loop ends well only at the end of its input.\<close>

lemma loop_full:
  assumes "b32_loop n alphabet 0 rest = Some (Inr bs)"
  shows "rest = []"
proof (rule ccontr)
  assume "rest \<noteq> []"
  with assms obtain ds e rest' where q: "b32_quantum alphabet [] rest = Inr (ds, e, rest')"
    and "\<not> 0 < length (b32_pack ds)"
    by (cases n) (auto simp: Let_def split: sum.splits if_splits)
  moreover from quantum_result [OF q] have "0 < length (b32_pack ds)" by (subst length_pack) auto
  ultimately show False by simp
qed

lemma decode_Inr:
  assumes "b32_decode alphabet 5 src = Some (Inr bs)" and "length bs = 5"
  shows "strip_newlines src = b32_encode alphabet bs"
proof -
  let ?s = "strip_newlines src"
  have ne: "?s \<noteq> []" using assms by (auto simp: b32_decode_def)
  then obtain n where n: "length ?s = Suc n" by (cases "length ?s") auto
  then obtain ds e rest where q: "b32_quantum alphabet [] ?s = Inr (ds, e, rest)"
    and step: "(if 5 < length (b32_pack ds) then None else if e then Some (Inr (b32_pack ds))
       else case b32_loop n alphabet (5 - length (b32_pack ds)) rest of None \<Rightarrow> None
         | Some (Inl e) \<Rightarrow> Some (Inl e) | Some (Inr bs) \<Rightarrow> Some (Inr (b32_pack ds @ bs))) = Some (Inr bs)"
    using assms(1) ne by (auto simp: b32_decode_def Let_def split: sum.splits)
  note r = quantum_result [OF q]
  have "\<not> e"
  proof
    assume e: e
    with r have "length ds < 8" "2 \<le> length ds" by auto
    moreover from this have "length (b32_pack ds) = length ds * 5 div 8" by (intro length_pack) auto
    ultimately have "length (b32_pack ds) < 5" by auto
    with step e assms(2) show False by simp
  qed
  with r have ds: "length ds = 8" "\<forall>d \<in> set ds. d < 32"
    and cs: "\<exists>cs. ?s = cs @ rest \<and> length cs = 8 \<and> map (\<lambda>c. the (index_of c alphabet)) cs = ds \<and>
      (\<forall>c \<in> set cs. index_of c alphabet \<noteq> None)" by auto
  have p: "length (b32_pack ds) = 5" using length_pack ds by simp
  with step \<open>\<not> e\<close> obtain bs' where l: "b32_loop n alphabet 0 rest = Some (Inr bs')"
    and bs: "bs = b32_pack ds @ bs'" by (auto split: option.splits sum.splits)
  from bs p assms(2) have bs': "bs' = []" "bs = b32_pack ds" by auto
  have "rest = []" by (rule loop_full [OF l])
  with cs obtain cs where "?s = cs" "map (\<lambda>c. the (index_of c alphabet)) cs = ds"
    "\<forall>c \<in> set cs. index_of c alphabet \<noteq> None" by auto
  then have "map ((!) alphabet) ds = ?s"
    using nth_index_alphabet by (fastforce simp: comp_def intro!: map_idI)
  then show ?thesis using digits_pack [OF ds] bs' by (simp add: b32_encode_def del: digits.simps)
qed

lemma strip_ascii_count:
  "length (filter (\<lambda>b. b < 128) (strip_newlines src)) \<le> length (filter (\<lambda>b. b < 128) src)"
proof -
  have "filter (\<lambda>b. b < 128) (strip_newlines src) = filter (\<lambda>b. \<not> is_newline b) (filter (\<lambda>b. b < 128) src)"
    by (simp add: strip_newlines_def conj_commute)
  then show ?thesis by (simp only: length_filter_le)
qed

text \<open>On input outside ASCII the loop reports the first character.\<close>

lemma loop_non_ascii:
  assumes "filter (\<lambda>b. b < 128) rest = []" and "rest \<noteq> [] \<Longrightarrow> \<exists>m. n = Suc m"
  shows "b32_loop n alphabet k rest \<noteq> None"
proof (cases rest)
  case (Cons c cs)
  with assms(1) have c: "\<not> c < 128" by (auto split: if_splits)
  then have "index_of c alphabet = None" using index_ascii by (metis option.exhaust)
  moreover from c have "c \<noteq> pad_char" by (auto simp: pad_char_def)
  moreover obtain m where "n = Suc m" using assms(2) Cons by auto
  ultimately show ?thesis using Cons by simp
qed (cases n; simp)

lemma decode_no_panic:
  assumes "length (filter (\<lambda>b. b < 128) src) \<le> 8"
  shows "b32_decode alphabet 5 src \<noteq> None"
proof -
  let ?s = "strip_newlines src"
  have s: "length (filter (\<lambda>b. b < 128) ?s) \<le> 8"
    using strip_ascii_count [of src] assms by linarith
  show ?thesis
  proof (cases "?s = [] \<or> (\<exists>x. b32_quantum alphabet [] ?s = Inl x)")
    case True
    then show ?thesis by (cases "length ?s") (auto simp: b32_decode_def Let_def)
  next
    case False
    then obtain ds e rest where q: "b32_quantum alphabet [] ?s = Inr (ds, e, rest)"
      by (cases "b32_quantum alphabet [] ?s") auto
    note r = quantum_result [OF q]
    have ds: "2 \<le> length ds" "length ds \<le> 8" using quantum_length [OF q] by simp_all
    then have p: "length (b32_pack ds) \<le> 5" by (subst length_pack) linarith+
    obtain n where n: "length ?s = Suc n" using False by (cases "length ?s") auto
    have "b32_loop n alphabet (5 - length (b32_pack ds)) rest \<noteq> None" if "\<not> e"
    proof -
      from that r obtain cs where cs: "?s = cs @ rest" "length cs = 8" "\<forall>c \<in> set cs. c < 128"
        by auto
      then have "filter (\<lambda>b. b < 128) cs = cs" by simp
      with cs s have none: "filter (\<lambda>b. b < 128) rest = []" by simp
      moreover have "rest \<noteq> [] \<Longrightarrow> \<exists>m. n = Suc m" using n cs by (cases n) auto
      ultimately show ?thesis by (rule loop_non_ascii)
    qed
    then have "b32_loop (Suc n) alphabet 5 ?s \<noteq> None"
      using loop_step [OF _ q p, of n] False by (auto split: option.splits sum.splits)
    then show ?thesis unfolding b32_decode_def Let_def n .
  qed
qed

end

subsection \<open>base64\<close>

lemma triples_induct [case_names triple two one nil]:
  assumes "\<And>a b c bs. P bs \<Longrightarrow> P (a # b # c # bs)" and "\<And>a b. P [a, b]" and "\<And>a. P [a]" and "P []"
  shows "P (bs :: bytes)"
  using assms by (rule b64_encode.induct [of "\<lambda>_. P"])

locale base64_alphabet = codec_alphabet alphabet 64 for alphabet
begin

lemma group_index:
  "b64_group alphabet bs = map ((!) alphabet) (digits 64 4 (of_bytes bs))"
  by (simp add: b64_group_def)

lemma pack_group:
  assumes "length bs = 3"
  shows "b64_pack (digits 64 4 (of_bytes bs)) = bs"
proof -
  have "undigits 64 (digits 64 4 (of_bytes bs)) = of_bytes bs"
    using of_bytes_bound [of bs] assms by (intro undigits_digits) simp
  then show ?thesis using assms by (simp add: b64_pack_def)
qed

lemma group_chars:
  assumes "digits 64 4 (of_bytes bs) = [d0, d1, d2, d3]"
  shows "b64_group alphabet bs = [alphabet ! d0, alphabet ! d1, alphabet ! d2, alphabet ! d3]"
    and "d0 < 64" and "d1 < 64" and "d2 < 64" and "d3 < 64"
proof -
  have "\<forall>d \<in> set [d0, d1, d2, d3]. d < 64"
    using digits_bound [of 64 _ 4 "of_bytes bs"] unfolding assms by auto
  then show "d0 < 64" "d1 < 64" "d2 < 64" "d3 < 64" by auto
qed (simp only: group_index assms list.map)


lemma of_bytes_3: "of_bytes [a, b, c] = (unat a * 256 + unat b) * 256 + unat c"
  by (simp add: of_bytes_def undigits_def)

lemma digits4_eq: "digits 64 4 x = [x div 262144 mod 64, x div 4096 mod 64, x div 64 mod 64, x mod 64]"
proof -
  have four: "(4 :: nat) = Suc (Suc (Suc (Suc 0)))" by simp
  show ?thesis unfolding four digits.simps by (simp add: div_mult2_eq [symmetric])
qed

lemma digits4: "\<exists>d0 d1 d2 d3. digits 64 4 x = [d0, d1, d2, d3]"
  by (simp add: digits4_eq)

lemma zero_tail2: "digits 64 4 (of_bytes [a, b, 0]) = [d0, d1, d2, d3] \<Longrightarrow> d3 = 0"
  by (auto simp: digits4_eq of_bytes_3)

lemma zero_tail1:
  assumes "digits 64 4 (of_bytes [a, 0, 0]) = [d0, d1, d2, d3]"
  shows "d2 = 0" and "d3 = 0"
proof -
  have x: "of_bytes [a, 0, 0] = 64 * (64 * (unat a * 16))" by (simp add: of_bytes_3)
  have "64 * (64 * k) div 64 mod 64 = 0" "64 * (64 * k) mod 64 = 0" for k :: nat by simp_all
  with assms show "d2 = 0" "d3 = 0" unfolding digits4_eq x by (metis list.inject)+
qed

lemma pack_short:
  "b64_pack [d0, d1] = take 1 (b64_pack [d0, d1, 0, 0])"
  "b64_pack [d0, d1, d2] = take 2 (b64_pack [d0, d1, d2, 0])"
proof -
  have "replicate 2 (0 :: nat) = [0, 0]" by (simp add: numeral_2_eq_2)
  then show "b64_pack [d0, d1] = take 1 (b64_pack [d0, d1, 0, 0])" by (simp add: b64_pack_def)
  show "b64_pack [d0, d1, d2] = take 2 (b64_pack [d0, d1, d2, 0])"
    by (simp add: b64_pack_def) (simp add: numeral_2_eq_2)
qed

lemma quanta_encode: "b64_quanta alphabet (b64_encode alphabet bs) = Inr bs"
proof (induction bs rule: triples_induct)
  case (triple a b c bs)
  obtain d0 d1 d2 d3 where d: "digits 64 4 (of_bytes [a, b, c]) = [d0, d1, d2, d3]"
    using digits4 by blast
  have "b64_pack [d0, d1, d2, d3] = [a, b, c]" using pack_group [of "[a, b, c]"] d by simp
  with group_chars [OF d] triple show ?case by (simp add: index_alphabet)
next
  case (two a b)
  obtain d0 d1 d2 d3 where d: "digits 64 4 (of_bytes [a, b, 0]) = [d0, d1, d2, d3]"
    using digits4 by blast
  have "b64_pack [d0, d1, d2, d3] = [a, b, 0]" using pack_group [of "[a, b, 0]"] d by simp
  then have "b64_pack [d0, d1, d2] = [a, b]" using zero_tail2 [OF d] by (simp add: pack_short)
  then show ?case using group_chars [OF d] by (simp add: index_alphabet index_pad)
next
  case (one a)
  obtain d0 d1 d2 d3 where d: "digits 64 4 (of_bytes [a, 0, 0]) = [d0, d1, d2, d3]"
    using digits4 by blast
  have "b64_pack [d0, d1, d2, d3] = [a, 0, 0]" using pack_group [of "[a, 0, 0]"] d by simp
  then have "b64_pack [d0, d1] = [a]" using zero_tail1 [OF d] by (simp add: pack_short)
  then show ?case using group_chars [OF d] by (simp add: index_alphabet index_pad)
qed simp

lemma encode_chars: "set (b64_encode alphabet bs) \<subseteq> set alphabet \<union> {pad_char}"
proof -
  have "set (b64_group alphabet bs) \<subseteq> set alphabet" for bs
    using digits_bound [of 64 _ 4 "of_bytes bs"] alphabet_mem by (auto simp: group_index)
  then show ?thesis
    by (induction bs rule: triples_induct) (auto dest!: in_set_takeD)
qed

lemma decode_encode: "b64_decode alphabet (b64_encode alphabet bs) = Inr bs"
  by (simp add: b64_decode_def strip_alphabet [OF encode_chars] quanta_encode)

end

subsection \<open>bytes.Map\<close>

lemma mk_byte_high: "128 \<le> n \<Longrightarrow> n < 256 \<Longrightarrow> \<not> mk_byte n < 128"
  by (simp add: mk_byte_def word_less_nat_alt unat_of_nat)

lemma mk_byte_cont: "\<not> mk_byte (128 + n mod 64) < 128"
proof (rule mk_byte_high)
  have "n mod 64 < 64" by simp
  then show "128 + n mod 64 < 256" by linarith
qed simp

lemma encode_valid_ascii:
  assumes "r \<le> 1114111"
  shows "length (filter (\<lambda>b. b < 128) (encode_valid r)) \<le> 1"
proof -
  consider "r < 128" | "128 \<le> r" "r < 2048" | "2048 \<le> r" "r < 65536" | "65536 \<le> r"
    by linarith
  then show ?thesis
  proof cases
    case 2
    then have "192 + r div 64 < 256" by linarith
    with 2 show ?thesis by (simp add: encode_valid_def mk_byte_cont mk_byte_high)
  next
    case 3
    then have "224 + r div 4096 < 256" by linarith
    with 3 show ?thesis by (simp add: encode_valid_def mk_byte_cont mk_byte_high)
  next
    case 4
    then have "240 + r div 262144 < 256" using assms by linarith
    with 4 show ?thesis by (simp add: encode_valid_def mk_byte_cont mk_byte_high)
  qed (simp add: encode_valid_def)
qed

lemma encode_rune_ascii: "length (filter (\<lambda>b. b < 128) (encode_rune r)) \<le> 1"
  unfolding encode_rune_def by (rule encode_valid_ascii) (simp add: rune_error_def)

text \<open>
  A map that drops the dash yields at most as many ASCII characters as the input has bytes
  other than a dash: every rune consumes a byte of its own and yields at most one.
\<close>

lemma filter_drop_le:
  assumes "0 < n"
  shows "length (filter P (drop n bs)) \<le> length (filter P (tl bs))"
proof -
  from assms have "drop n bs = drop (n - 1) (tl bs)"
    by (cases n) (simp_all add: drop_Suc)
  then have "filter P (tl bs) = filter P (take (n - 1) (tl bs)) @ filter P (drop n bs)"
    by (metis append_take_drop_id filter_append)
  then show ?thesis by simp
qed

lemma bytes_map_ascii_count:
  assumes "f 45 = None"
  shows "length (filter (\<lambda>b. b < 128) (bytes_map f bs)) \<le> length (filter (\<lambda>b. b \<noteq> 45) bs)"
  using assms
proof (induction f bs rule: bytes_map.induct)
  case (1 f bs)
  show ?case
  proof (cases bs)
    case Nil
    then show ?thesis by (simp add: bytes_map.simps)
  next
    case (Cons b bs')
    obtain r w where rw: "decode_rune bs = (r, w)" by fastforce
    let ?out = "case f r of None \<Rightarrow> [] | Some r' \<Rightarrow> encode_rune r'"
    have IH: "length (filter (\<lambda>b. b < 128) (bytes_map f (drop (max 1 w) bs)))
        \<le> length (filter (\<lambda>b. b \<noteq> 45) bs')"
      using 1 Cons rw filter_drop_le [of "max 1 w" "\<lambda>b. b \<noteq> 45" bs] by fastforce
    have "r = 45" if "b = 45" using rw that Cons by (simp add: decode_rune_def)
    then have "length (filter (\<lambda>b. b < 128) ?out) \<le> (if b = 45 then 0 else 1)"
      using 1(2) encode_rune_ascii by (auto split: option.split)
    moreover have "bytes_map f bs = ?out @ bytes_map f (drop (max 1 w) bs)"
      using Cons by (subst bytes_map.simps) (simp add: rw [unfolded Cons])
    ultimately show ?thesis using IH Cons by (auto split: if_splits)
  qed
qed

lemma bytes_map_ascii:
  assumes "\<forall>b \<in> set bs. b < 128"
  shows "bytes_map f bs =
    concat (map (\<lambda>b. case f (unat b) of None \<Rightarrow> [] | Some r \<Rightarrow> encode_rune r) bs)"
  using assms
proof (induction bs)
  case Nil
  then show ?case by (simp add: bytes_map.simps)
next
  case (Cons b bs)
  then show ?case by (subst bytes_map.simps) (simp add: decode_rune_def)
qed

end
