(* ===== verification/Netip.thy ===== *)
theory Netip
  imports Go_Errors Go_Codec
begin

text \<open>
  What the sources use of the standard library's \<open>net/netip\<close> and of \<open>net.UDPAddr\<close>: addresses
  with their binary format, and the order \<open>Compare\<close>, under which \<open>netip.AddrPort\<close> is
  an instance of the class of linear orders.
\<close>

section \<open>netip.Addr and netip.AddrPort\<close>

text \<open>The zero address, an IPv4 address, an IPv6 address with its zone (empty when it has none).\<close>

datatype ip_addr = Z0 | V4 u32 | V6 "128 word" bytes

datatype addr_port = AddrPort (ip_of: ip_addr) (port_of: u16)

definition put_u128 :: "128 word \<Rightarrow> bytes" where "put_u128 w = to_bytes 16 (unat w)"

definition get_u128 :: "bytes \<Rightarrow> 128 word" where "get_u128 bs = of_nat (of_bytes bs)"

lemma length_put_u128 [simp]: "length (put_u128 w) = 16"
  by (simp add: put_u128_def)

lemma get_put_u128 [simp]: "get_u128 (put_u128 w) = w"
proof -
  have "unat w < 256 ^ 16" using unsigned_less [of w, where ?'a = nat] by simp
  then show ?thesis by (simp add: get_u128_def put_u128_def of_to_bytes)
qed

lemma put_get_u128: "length bs = 16 \<Longrightarrow> put_u128 (get_u128 bs) = bs"
proof -
  assume l: "length bs = 16"
  have "of_bytes bs < 2 ^ 128" using of_bytes_bound [of bs] by (simp add: l)
  then have "unat (get_u128 bs) = of_bytes bs"
    by (simp add: get_u128_def unat_of_nat take_bit_nat_def)
  then show ?thesis by (simp add: put_u128_def l)
qed

lemma le_put_get_u16: "length bs = 2 \<Longrightarrow> le_put_u16 (le_get_u16 bs) = bs"
proof -
  assume l: "length bs = 2"
  have "of_bytes (rev bs) < 2 ^ 16" using of_bytes_bound [of "rev bs"] by (simp add: l)
  then have "unat (le_get_u16 bs) = of_bytes (rev bs)"
    by (simp add: le_get_u16_def unat_of_nat take_bit_nat_def)
  then show ?thesis by (simp add: le_put_u16_def l)
qed

fun WithZone :: "ip_addr \<Rightarrow> bytes \<Rightarrow> ip_addr" where
  "WithZone (V6 w _) z = V6 w z"
| "WithZone a _ = a"

definition AddrFromSlice :: "bytes \<Rightarrow> ip_addr" where
  "AddrFromSlice bs =
     (if length bs = 4 then V4 (get_u32 bs)
      else if length bs = 16 then V6 (get_u128 bs) [] else Z0)"

fun Addr_AppendBinary :: "bytes \<Rightarrow> ip_addr \<Rightarrow> bytes" where
  "Addr_AppendBinary b Z0 = b"
| "Addr_AppendBinary b (V4 w) = b @ put_u32 w"
| "Addr_AppendBinary b (V6 w z) = b @ put_u128 w @ z"

definition errSliceSize :: err where
  "errSliceSize = Leaf (Sentinel ''unexpected slice size'')"

definition Addr_UnmarshalBinary :: "bytes \<Rightarrow> err + ip_addr" where
  "Addr_UnmarshalBinary b =
     (let n = length b in
      if n = 0 then Inr Z0
      else if n = 4 then Inr (V4 (get_u32 b))
      else if n = 16 then Inr (V6 (get_u128 b) [])
      else if 16 < n then Inr (WithZone (V6 (get_u128 (take 16 b)) []) (drop 16 b))
      else Inl errSliceSize)"

definition AddrPort_AppendBinary :: "bytes \<Rightarrow> addr_port \<Rightarrow> bytes" where
  "AddrPort_AppendBinary b p = Addr_AppendBinary b (ip_of p) @ le_put_u16 (port_of p)"

definition AddrPort_UnmarshalBinary :: "bytes \<Rightarrow> err + addr_port" where
  "AddrPort_UnmarshalBinary b =
     (if length b < 2 then Inl errSliceSize
      else case Addr_UnmarshalBinary (take (length b - 2) b) of
          Inl e \<Rightarrow> Inl e
        | Inr a \<Rightarrow> Inr (AddrPort a (le_get_u16 (drop (length b - 2) b))))"

lemma Addr_unmarshal_marshal:
  "Addr_UnmarshalBinary (Addr_AppendBinary [] a) = Inr a"
  by (cases a) (auto simp: Addr_UnmarshalBinary_def)

lemma Addr_marshal_unmarshal:
  "Addr_UnmarshalBinary b = Inr a \<Longrightarrow> Addr_AppendBinary [] a = b"
  by (auto simp: Addr_UnmarshalBinary_def Let_def put_get_u128 put_get_u32 split: if_splits)

lemma Addr_AppendBinary_append: "Addr_AppendBinary b a = b @ Addr_AppendBinary [] a"
  by (cases a) auto

lemma AddrPort_unmarshal_marshal [simp]:
  "AddrPort_UnmarshalBinary (AddrPort_AppendBinary [] p) = Inr p"
  by (simp add: AddrPort_UnmarshalBinary_def AddrPort_AppendBinary_def Addr_unmarshal_marshal)

lemma AddrPort_AppendBinary_append:
  "AddrPort_AppendBinary b p = b @ AddrPort_AppendBinary [] p"
  by (simp add: AddrPort_AppendBinary_def Addr_AppendBinary_append [of b])

lemma AddrPort_marshal_unmarshal:
  assumes "AddrPort_UnmarshalBinary b = Inr p"
  shows "AddrPort_AppendBinary [] p = b"
proof -
  from assms obtain a where a: "Addr_UnmarshalBinary (take (length b - 2) b) = Inr a"
      and p: "p = AddrPort a (le_get_u16 (drop (length b - 2) b))" and l: "2 \<le> length b"
    by (auto simp: AddrPort_UnmarshalBinary_def split: if_splits sum.splits)
  have "length (drop (length b - 2) b) = 2" using l by simp
  then show ?thesis
    using Addr_marshal_unmarshal [OF a] by (simp add: p AddrPort_AppendBinary_def le_put_get_u16)
qed

subsection \<open>Compare\<close>

fun BitLen :: "ip_addr \<Rightarrow> nat" where
  "BitLen Z0 = 0" | "BitLen (V4 _) = 32" | "BitLen (V6 _ _) = 128"

fun ip_value :: "ip_addr \<Rightarrow> nat" where
  "ip_value Z0 = 0" | "ip_value (V4 w) = unat w" | "ip_value (V6 w _) = unat w"

fun ip_zone :: "ip_addr \<Rightarrow> bytes" where
  "ip_zone (V6 _ z) = z" | "ip_zone _ = []"

definition cmp :: "'a::linorder \<Rightarrow> 'a \<Rightarrow> int" where
  "cmp a b = (if a < b then -1 else if b < a then 1 else 0)"

fun strings_Compare :: "bytes \<Rightarrow> bytes \<Rightarrow> int" where
  "strings_Compare [] [] = 0"
| "strings_Compare [] (_ # _) = -1"
| "strings_Compare (_ # _) [] = 1"
| "strings_Compare (x # xs) (y # ys) = (if cmp x y = 0 then strings_Compare xs ys else cmp x y)"

definition Addr_Compare :: "ip_addr \<Rightarrow> ip_addr \<Rightarrow> int" where
  "Addr_Compare a b =
     (if BitLen a \<noteq> BitLen b then cmp (BitLen a) (BitLen b)
      else if ip_value a \<noteq> ip_value b then cmp (ip_value a) (ip_value b)
      else strings_Compare (ip_zone a) (ip_zone b))"

definition AddrPort_Compare :: "addr_port \<Rightarrow> addr_port \<Rightarrow> int" where
  "AddrPort_Compare p q =
     (let c = Addr_Compare (ip_of p) (ip_of q) in if c \<noteq> 0 then c else cmp (port_of p) (port_of q))"

lemma cmp_0 [simp]: "cmp a b = 0 \<longleftrightarrow> a = b"
  by (auto simp: cmp_def)

lemma strings_Compare_0 [simp]: "strings_Compare xs ys = 0 \<longleftrightarrow> xs = ys"
  by (induction xs ys rule: strings_Compare.induct) auto

lemma Addr_Compare_0: "Addr_Compare a b = 0 \<longleftrightarrow> a = b"
  by (cases a; cases b) (auto simp: Addr_Compare_def intro: unsigned_word_eqI)

lemma AddrPort_Compare_0 [simp]: "AddrPort_Compare p q = 0 \<longleftrightarrow> p = q"
  by (cases p; cases q) (auto simp: AddrPort_Compare_def Let_def Addr_Compare_0)


text \<open>\<open>Compare\<close> is a linear order: it is the lexicographic order of the parts it looks at.\<close>

lemma cmp_le_0: "cmp a b \<le> 0 \<longleftrightarrow> a \<le> b"
  by (auto simp: cmp_def)

lemma strings_Compare_le_trans:
  "strings_Compare xs ys \<le> 0 \<Longrightarrow> strings_Compare ys zs \<le> 0 \<Longrightarrow> strings_Compare xs zs \<le> 0"
proof (induction xs ys arbitrary: zs rule: strings_Compare.induct)
  case (4 x xs y ys)
  then show ?case by (cases zs) (auto simp: cmp_le_0 split: if_splits)
qed (case_tac zs; auto)+

lemma strings_Compare_total: "strings_Compare xs ys \<le> 0 \<or> strings_Compare ys xs \<le> 0"
  by (induction xs ys rule: strings_Compare.induct) (auto simp: cmp_le_0)

lemma strings_Compare_antisym:
  "strings_Compare xs ys \<le> 0 \<Longrightarrow> strings_Compare ys xs \<le> 0 \<Longrightarrow> xs = ys"
  by (induction xs ys rule: strings_Compare.induct) (auto simp: cmp_le_0 split: if_splits)

lemma AddrPort_Compare_le:
  "AddrPort_Compare p q \<le> 0 \<longleftrightarrow>
     (BitLen (ip_of p) < BitLen (ip_of q) \<or> BitLen (ip_of p) = BitLen (ip_of q) \<and>
      (ip_value (ip_of p) < ip_value (ip_of q) \<or> ip_value (ip_of p) = ip_value (ip_of q) \<and>
       (if ip_zone (ip_of p) = ip_zone (ip_of q) then port_of p \<le> port_of q
        else strings_Compare (ip_zone (ip_of p)) (ip_zone (ip_of q)) \<le> 0)))"
  by (auto simp: AddrPort_Compare_def Addr_Compare_def Let_def cmp_le_0)

instantiation addr_port :: linorder
begin

definition less_eq_addr_port :: "addr_port \<Rightarrow> addr_port \<Rightarrow> bool" where
  "less_eq_addr_port p q \<longleftrightarrow> AddrPort_Compare p q \<le> 0"

definition less_addr_port :: "addr_port \<Rightarrow> addr_port \<Rightarrow> bool" where
  "less_addr_port p q \<longleftrightarrow> AddrPort_Compare p q \<le> 0 \<and> \<not> AddrPort_Compare q p \<le> 0"

instance
proof
  fix p q r :: addr_port
  show "p < q \<longleftrightarrow> p \<le> q \<and> \<not> q \<le> p"
    by (simp add: less_addr_port_def less_eq_addr_port_def)
  show "p \<le> p" by (simp add: less_eq_addr_port_def AddrPort_Compare_le)
  show "p \<le> q \<Longrightarrow> q \<le> r \<Longrightarrow> p \<le> r"
    unfolding less_eq_addr_port_def AddrPort_Compare_le
    using strings_Compare_le_trans strings_Compare_antisym
    by (smt (verit) order_trans less_trans)
  show "p \<le> q \<or> q \<le> p"
    unfolding less_eq_addr_port_def AddrPort_Compare_le
    using strings_Compare_total [of "ip_zone (ip_of p)" "ip_zone (ip_of q)"] by auto
  assume "p \<le> q" and "q \<le> p"
  then have eqs: "BitLen (ip_of p) = BitLen (ip_of q)" "ip_value (ip_of p) = ip_value (ip_of q)"
      "ip_zone (ip_of p) = ip_zone (ip_of q)" "port_of p = port_of q"
    using strings_Compare_antisym [of "ip_zone (ip_of p)" "ip_zone (ip_of q)"]
    unfolding less_eq_addr_port_def AddrPort_Compare_le by (auto split: if_splits)
  then have "AddrPort_Compare p q = 0"
    by (simp add: AddrPort_Compare_def Addr_Compare_def)
  then show "p = q" by simp
qed

end

section \<open>net.Addr\<close>

text \<open>
  \<open>net.Addr\<close> values: a \<open>*net.UDPAddr\<close>, which holds the address as a byte slice of any
  length, or another implementation of the interface.
\<close>

datatype net_addr = UDPAddr bytes int bytes | OtherAddr string

fun UDPAddr_AddrPort :: "net_addr \<Rightarrow> addr_port option" where
  "UDPAddr_AddrPort (UDPAddr ip port zone) =
     Some (AddrPort (WithZone (AddrFromSlice ip) zone) (of_int port))"
| "UDPAddr_AddrPort (OtherAddr _) = None"

end
