(* ===== verification/Discovery.thy ===== *)
theory Discovery
  imports Netip
begin

text \<open>
  The address-discovery protocol of \<^verbatim>\<open>internal/discovery/discovery.go\<close>: the wire format of
  requests and responses, the client's \<open>Bind\<close> loop and the server's \<open>Serve\<close> loop. The socket
  is the environment: a run is given by what each call on it returns, and a loop whose
  environment has no further answer is still running (\<open>None\<close>). What the loops send is part of
  the result.
\<close>

section \<open>Wire format\<close>

definition magic :: u32 where "magic = 0x53544152"
definition version :: u8 where "version = 1"
definition tRequest :: u8 where "tRequest = 1"
definition tResponse :: u8 where "tResponse = 2"

definition errInvalidResponse :: err where
  "errInvalidResponse = Leaf (Sentinel ''discovery: invalid response'')"

record Request =
  TxID :: bytes

record Response = Request +
  Addr :: addr_port

text \<open>\<open>[16]byte\<close>: the transaction id always has its length.\<close>

definition tx_ok :: "bytes \<Rightarrow> bool" where "tx_ok t \<longleftrightarrow> length t = 16"

definition NewRequest :: "err + bytes \<Rightarrow> err + Request" where
  "NewRequest rand = (case rand of Inl e \<Rightarrow> Inl e | Inr t \<Rightarrow> Inr \<lparr>TxID = t\<rparr>)"

definition Request_MarshalBinary :: "Request \<Rightarrow> bytes" where
  "Request_MarshalBinary r = put_u32 magic @ [version, tRequest] @ TxID r"

definition Request_UnmarshalBinary :: "bytes \<Rightarrow> err + Request" where
  "Request_UnmarshalBinary p =
     (if length p < 22 then Inl errInvalidResponse
      else if get_u32 (take 4 p) \<noteq> magic then Inl errInvalidResponse
      else if p ! 4 \<noteq> version \<or> p ! 5 \<noteq> tRequest then Inl errInvalidResponse
      else Inr \<lparr>TxID = take 16 (drop 6 p)\<rparr>)"

definition Response_MarshalBinary :: "Response \<Rightarrow> bytes" where
  "Response_MarshalBinary r =
     AddrPort_AppendBinary (put_u32 magic @ [version, tResponse] @ TxID r) (Addr r)"

definition Response_UnmarshalBinary :: "bytes \<Rightarrow> err + Response" where
  "Response_UnmarshalBinary p =
     (if length p < 22 then Inl errInvalidResponse
      else if get_u32 (take 4 p) \<noteq> magic \<or> p ! 4 \<noteq> version \<or> p ! 5 \<noteq> tResponse
      then Inl errInvalidResponse
      else case AddrPort_UnmarshalBinary (drop 22 p) of
          Inl e \<Rightarrow> Inl e
        | Inr a \<Rightarrow> Inr \<lparr>TxID = take 16 (drop 6 p), Addr = a\<rparr>)"

section \<open>Bind\<close>

text \<open>What \<open>conn.ReadFrom\<close> returns: a datagram with its source, or an error.\<close>

datatype read_result = ReadOk bytes net_addr | ReadErr err

datatype bind_read = Resend | Return "err + addr_port" | Reading

definition buf_size :: nat where "buf_size = 1024"

text \<open>The inner loop: one deadline's worth of reads.\<close>

fun bind_reads :: "Request \<Rightarrow> addr_port \<Rightarrow> read_result list \<Rightarrow> bind_read" where
  "bind_reads req server [] = Reading"
| "bind_reads req server (ReadErr e # rs) =
     (if errorsIs (Some e) ErrDeadlineExceeded then Resend else Return (Inl e))"
| "bind_reads req server (ReadOk d raddr # rs) =
     (case UDPAddr_AddrPort raddr of
        None \<Rightarrow> bind_reads req server rs
      | Some a \<Rightarrow>
          if AddrPort_Compare server a \<noteq> 0 then bind_reads req server rs
          else case Response_UnmarshalBinary (take buf_size d) of
              Inl _ \<Rightarrow> bind_reads req server rs
            | Inr resp \<Rightarrow>
                if TxID resp \<noteq> TxID req then bind_reads req server rs
                else Return (Inr (Addr resp)))"

text \<open>One turn of the outer loop as the environment answers it.\<close>

record attempt =
  ctx_err :: error
  write_err :: error
  incoming :: "read_result list"

fun bind_loop :: "Request \<Rightarrow> addr_port \<Rightarrow> attempt list \<Rightarrow> bytes list \<times> (err + addr_port) option" where
  "bind_loop req server [] = ([], None)"
| "bind_loop req server (a # as) =
     (case ctx_err a of Some e \<Rightarrow> ([], Some (Inl e))
      | None \<Rightarrow>
          (let pkt = Request_MarshalBinary req in
           case write_err a of Some e \<Rightarrow> ([pkt], Some (Inl e))
           | None \<Rightarrow>
               (case bind_reads req server (incoming a) of
                  Reading \<Rightarrow> ([pkt], None)
                | Return r \<Rightarrow> ([pkt], Some r)
                | Resend \<Rightarrow>
                    (let (sent, r) = bind_loop req server as in (pkt # sent, r)))))"

definition Bind :: "err + bytes \<Rightarrow> addr_port \<Rightarrow> attempt list \<Rightarrow> bytes list \<times> (err + addr_port) option" where
  "Bind rand server as =
     (case NewRequest rand of
        Inl e \<Rightarrow> ([], Some (Inl e))
      | Inr req \<Rightarrow> bind_loop req server as)"

section \<open>Server\<close>

text \<open>One turn of \<open>Serve\<close>: whether \<open>done\<close> is closed, what the read and the write return.\<close>

record serve_event =
  done_closed :: bool
  read_res :: read_result
  write_res :: error

text \<open>The part of the turn that decides on an answer.\<close>

definition serve_reply :: "bytes \<Rightarrow> net_addr \<Rightarrow> bytes option" where
  "serve_reply d raddr =
     (case Request_UnmarshalBinary (take buf_size d) of
        Inl _ \<Rightarrow> None
      | Inr req \<Rightarrow>
          (case UDPAddr_AddrPort raddr of
             None \<Rightarrow> None
           | Some a \<Rightarrow> Some (Response_MarshalBinary \<lparr>TxID = TxID req, Addr = a\<rparr>)))"

fun Serve :: "serve_event list \<Rightarrow> (bytes \<times> net_addr) list \<times> error option" where
  "Serve [] = ([], None)"
| "Serve (ev # evs) =
     (if done_closed ev then ([], Some None)
      else case read_res ev of
          ReadErr e \<Rightarrow>
            if errorsIs (Some e) ErrDeadlineExceeded then Serve evs else ([], Some (Some e))
        | ReadOk d raddr \<Rightarrow>
            (case serve_reply d raddr of
               None \<Rightarrow> Serve evs
             | Some data \<Rightarrow>
                 (case write_res ev of
                    Some e \<Rightarrow> ([(data, raddr)], Some (Some e))
                  | None \<Rightarrow> (let (sent, r) = Serve evs in ((data, raddr) # sent, r)))))"

text \<open>The server is its channel \<open>done\<close>; closing it twice panics. \<open>Listen\<close> closes the socket it opened.\<close>

record disc_server =
  ds_done :: bool

definition disc_NewServer :: disc_server where "disc_NewServer = \<lparr>ds_done = False\<rparr>"

definition disc_Close :: "disc_server \<Rightarrow> disc_server option" where
  "disc_Close s = (if ds_done s then None else Some (s\<lparr>ds_done := True\<rparr>))"

definition disc_Listen :: "error \<Rightarrow> error \<Rightarrow> serve_event list \<Rightarrow> (bytes \<times> net_addr) list \<times> error option" where
  "disc_Listen resolveErr listenErr evs =
     (case resolveErr of Some e \<Rightarrow> ([], Some (Some e)) | None \<Rightarrow>
      case listenErr of Some e \<Rightarrow> ([], Some (Some e)) | None \<Rightarrow> Serve evs)"

section \<open>Round trips\<close>

lemma request_header: "length (put_u32 magic @ [version, t]) = 6"
  by simp

lemma Request_unmarshal_marshal:
  "tx_ok (TxID r) \<Longrightarrow> Request_UnmarshalBinary (Request_MarshalBinary r) = Inr r"
  by (simp add: Request_UnmarshalBinary_def Request_MarshalBinary_def tx_ok_def nth_append)

lemma Response_unmarshal_marshal:
  "tx_ok (TxID r) \<Longrightarrow> Response_UnmarshalBinary (Response_MarshalBinary r) = Inr r"
  unfolding Response_MarshalBinary_def AddrPort_AppendBinary_append [of "_ @ _"]
  by (simp add: Response_UnmarshalBinary_def tx_ok_def nth_append)

lemma header_split:
  assumes "22 \<le> length p" and "get_u32 (take 4 p) = magic" and "p ! 4 = version" and "p ! 5 = t"
  shows "p = put_u32 magic @ [version, t] @ take 16 (drop 6 p) @ drop 22 p"
proof -
  have "take 4 p = put_u32 magic"
    using put_get_u32 [of "take 4 p"] assms(1,2) by simp
  moreover have "take 2 (drop 4 p) = [p ! 4, p ! 5]"
    using assms(1) by (simp add: numeral_2_eq_2 take_Suc_conv_app_nth)
  moreover have "p = take 4 p @ take 2 (drop 4 p) @ take 16 (drop 6 p) @ drop 22 p"
  proof -
    have "drop 22 p = drop 16 (drop 6 p)" "drop 6 p = drop 2 (drop 4 p)" by simp_all
    then show ?thesis by (simp only: append_take_drop_id)
  qed
  ultimately show ?thesis using assms(3,4) by simp
qed

lemma Request_marshal_unmarshal:
  "Request_UnmarshalBinary p = Inr r \<Longrightarrow> Request_MarshalBinary r = take 22 p \<and> tx_ok (TxID r)"
proof -
  assume "Request_UnmarshalBinary p = Inr r"
  then have l: "22 \<le> length p" and h: "get_u32 (take 4 p) = magic" "p ! 4 = version" "p ! 5 = tRequest"
      and r: "TxID r = take 16 (drop 6 p)"
    by (auto simp: Request_UnmarshalBinary_def split: if_splits)
  have "take 22 p = take 22 (put_u32 magic @ [version, tRequest] @ take 16 (drop 6 p) @ drop 22 p)"
    using header_split [OF l h] by simp
  also have "\<dots> = put_u32 magic @ [version, tRequest] @ take 16 (drop 6 p)"
    using l by simp
  finally show ?thesis using l by (simp add: Request_MarshalBinary_def r tx_ok_def)
qed

lemma Response_marshal_unmarshal:
  "Response_UnmarshalBinary p = Inr r \<Longrightarrow> Response_MarshalBinary r = p \<and> tx_ok (TxID r)"
proof -
  assume "Response_UnmarshalBinary p = Inr r"
  then have l: "22 \<le> length p" and h: "get_u32 (take 4 p) = magic" "p ! 4 = version" "p ! 5 = tResponse"
      and r: "TxID r = take 16 (drop 6 p)" and a: "AddrPort_UnmarshalBinary (drop 22 p) = Inr (Addr r)"
    by (auto simp: Response_UnmarshalBinary_def split: if_splits sum.splits)
  show ?thesis
    using header_split [OF l h] AddrPort_marshal_unmarshal [OF a] l
    unfolding Response_MarshalBinary_def AddrPort_AppendBinary_append [of "_ @ _"]
    by (simp add: r tx_ok_def)
qed

text \<open>
  C30. The wire format is exact: a datagram decodes to a response precisely when it is the
  encoding of that response, so encoding and decoding are inverse to each other and no two
  datagrams stand for the same response.
\<close>
theorem response_wire_exact:
  "Response_UnmarshalBinary p = Inr r \<longleftrightarrow> tx_ok (TxID r) \<and> p = Response_MarshalBinary r"
  using Response_marshal_unmarshal Response_unmarshal_marshal by metis

section \<open>The exchange\<close>

text \<open>Reads that \<open>Bind\<close> skips: not UDP, not from the server, not a response, not to this request.\<close>

fun ignored :: "Request \<Rightarrow> addr_port \<Rightarrow> read_result \<Rightarrow> bool" where
  "ignored req server (ReadErr e) = False"
| "ignored req server (ReadOk d raddr) =
     (UDPAddr_AddrPort raddr \<noteq> Some server \<or>
      (case Response_UnmarshalBinary (take buf_size d) of
         Inl _ \<Rightarrow> True | Inr resp \<Rightarrow> TxID resp \<noteq> TxID req))"

lemma bind_reads_ignored:
  "list_all (ignored req server) noise \<Longrightarrow>
     bind_reads req server (noise @ rs) = bind_reads req server rs"
proof (induction noise)
  case (Cons x noise)
  then show ?case
    by (cases x) (auto split: option.splits sum.splits)
qed simp

lemma bind_reads_Inr:
  "bind_reads req server rs = Return (Inr a) \<Longrightarrow>
     \<exists>d raddr resp. ReadOk d raddr \<in> set rs \<and> UDPAddr_AddrPort raddr = Some server \<and>
       Response_UnmarshalBinary (take buf_size d) = Inr resp \<and> TxID resp = TxID req \<and> Addr resp = a"
  by (induction req server rs rule: bind_reads.induct)
    (auto split: option.splits sum.splits if_splits; metis)+

lemma bind_loop_Inr:
  "bind_loop req server as = (sent, Some (Inr a)) \<Longrightarrow>
     \<exists>att \<in> set as. bind_reads req server (incoming att) = Return (Inr a)"
proof (induction as arbitrary: sent)
  case (Cons x as)
  then show ?case
    by (cases "bind_loop req server as")
      (auto simp: Let_def split: option.splits bind_read.splits)
qed simp

text \<open>
  C29. No spoofing: \<open>Bind\<close> returns an address only when some datagram it read came from the
  server it asked, echoed this call's transaction id, and carried exactly that address.
\<close>
theorem bind_sound:
  assumes "Bind (Inr t) server as = (sent, Some (Inr a))"
  shows "\<exists>att d raddr. att \<in> set as \<and> ReadOk d raddr \<in> set (incoming att) \<and>
     UDPAddr_AddrPort raddr = Some server \<and>
     take buf_size d = Response_MarshalBinary \<lparr>TxID = t, Addr = a\<rparr>"
proof -
  from assms obtain att where "att \<in> set as"
      and "bind_reads \<lparr>TxID = t\<rparr> server (incoming att) = Return (Inr a)"
    using bind_loop_Inr by (fastforce simp: Bind_def NewRequest_def)
  moreover from bind_reads_Inr [OF this(2)] obtain d raddr resp
    where "ReadOk d raddr \<in> set (incoming att)" "UDPAddr_AddrPort raddr = Some server"
      and u: "Response_UnmarshalBinary (take buf_size d) = Inr resp" "TxID resp = t" "Addr resp = a"
    by auto
  moreover have "take buf_size d = Response_MarshalBinary \<lparr>TxID = t, Addr = a\<rparr>"
    using Response_marshal_unmarshal [OF u(1)] u(2,3) by (cases resp) auto
  ultimately show ?thesis by blast
qed

lemma length_marshal:
  "length (Response_MarshalBinary r) =
     8 + length (TxID r) + length (Addr_AppendBinary [] (ip_of (Addr r)))"
  unfolding Response_MarshalBinary_def AddrPort_AppendBinary_append [of "_ @ _"]
  by (simp add: AddrPort_AppendBinary_def)

lemma serve_reply_request:
  assumes "tx_ok t" and "UDPAddr_AddrPort client = Some a"
  shows "serve_reply (Request_MarshalBinary \<lparr>TxID = t\<rparr>) client =
    Some (Response_MarshalBinary \<lparr>TxID = t, Addr = a\<rparr>)"
proof -
  have "take buf_size (Request_MarshalBinary \<lparr>TxID = t\<rparr>) = Request_MarshalBinary \<lparr>TxID = t\<rparr>"
    using assms(1) by (simp add: buf_size_def Request_MarshalBinary_def tx_ok_def)
  then show ?thesis
    using assms by (simp add: serve_reply_def Request_unmarshal_marshal)
qed

text \<open>
  C23. The exchange works end to end: the server's turn on the datagram \<open>Bind\<close> sends answers it
  to the sender, and when that answer reaches the client within one of its deadlines, after
  any number of timed-out attempts and any unrelated datagrams, \<open>Bind\<close> returns the
  address from which the server saw the request.
\<close>
theorem discovery_exchange:
  assumes "tx_ok t" and "UDPAddr_AddrPort client = Some a" and "length (ip_zone (ip_of a)) \<le> 984"
    and "UDPAddr_AddrPort from = Some server"
    and "list_all (ignored \<lparr>TxID = t\<rparr> server) noise"
    and "Serve (\<lparr>done_closed = False, read_res = ReadOk (Request_MarshalBinary \<lparr>TxID = t\<rparr>) client,
                 write_res = None\<rparr> # evs) = ((data, dst) # sent, r)"
  shows "dst = client \<and>
    Bind (Inr t) server
      (replicate k \<lparr>ctx_err = None, write_err = None, incoming = [ReadErr (Leaf ErrDeadlineExceeded)]\<rparr>
       @ [\<lparr>ctx_err = None, write_err = None, incoming = noise @ ReadOk data from # rest\<rparr>])
    = (replicate (Suc k) (Request_MarshalBinary \<lparr>TxID = t\<rparr>), Some (Inr a))"
proof -
  have data: "data = Response_MarshalBinary \<lparr>TxID = t, Addr = a\<rparr>" and dst: "dst = client"
    using assms(6) serve_reply_request [OF assms(1,2)] by (auto simp: Let_def split: prod.splits)
  have "length data \<le> buf_size"
    using assms(1,3) by (cases a; cases "ip_of a") (auto simp: data length_marshal buf_size_def tx_ok_def)
  then have "bind_reads \<lparr>TxID = t\<rparr> server (noise @ ReadOk data from # rest) = Return (Inr a)"
    using assms(1,4,5) by (simp add: bind_reads_ignored data Response_unmarshal_marshal)
  then show ?thesis
    by (induction k) (simp_all add: dst Bind_def NewRequest_def Let_def errorsIs_def)
qed

section \<open>A concrete exchange\<close>

definition tx0 :: bytes where "tx0 = replicate 16 7"
definition client0 :: net_addr where "client0 = UDPAddr [10, 0, 0, 1] 5000 []"
definition server0 :: net_addr where "server0 = UDPAddr [10, 0, 0, 2] 8001 []"
definition client_ap :: addr_port where "client_ap = AddrPort (V4 (get_u32 [10, 0, 0, 1])) 5000"
definition server_ap :: addr_port where "server_ap = AddrPort (V4 (get_u32 [10, 0, 0, 2])) 8001"

lemma exchange0:
  "tx_ok tx0" "UDPAddr_AddrPort client0 = Some client_ap" "UDPAddr_AddrPort server0 = Some server_ap"
  "length (ip_zone (ip_of client_ap)) \<le> 984"
  by (simp_all add: tx_ok_def tx0_def client0_def server0_def client_ap_def server_ap_def
      AddrFromSlice_def)

definition reply0 :: bytes where
  "reply0 = Response_MarshalBinary \<lparr>TxID = tx0, Addr = client_ap\<rparr>"

definition request_event0 :: serve_event where
  "request_event0 = \<lparr>done_closed = False,
     read_res = ReadOk (Request_MarshalBinary \<lparr>TxID = tx0\<rparr>) client0, write_res = None\<rparr>"

lemma serve0: "Serve [request_event0] = ([(reply0, client0)], None)"
  by (simp add: request_event0_def reply0_def serve_reply_request [OF exchange0(1,2)])

text \<open>One timed-out attempt, then a datagram of another sender, then the answer.\<close>

theorem discovery_exchange_witness:
  "client0 = client0 \<and>
   Bind (Inr tx0) server_ap
     (replicate 1 \<lparr>ctx_err = None, write_err = None, incoming = [ReadErr (Leaf ErrDeadlineExceeded)]\<rparr>
      @ [\<lparr>ctx_err = None, write_err = None,
          incoming = [ReadOk [1, 2] (OtherAddr ''pipe'')] @ ReadOk reply0 server0 # []\<rparr>])
   = (replicate (Suc 1) (Request_MarshalBinary \<lparr>TxID = tx0\<rparr>), Some (Inr client_ap))"
  by (rule discovery_exchange [OF exchange0(1,2,4,3) _ serve0 [unfolded request_event0_def]]) simp

lemma bind0:
  "Bind (Inr tx0) server_ap [\<lparr>ctx_err = None, write_err = None, incoming = [ReadOk reply0 server0]\<rparr>]
   = ([Request_MarshalBinary \<lparr>TxID = tx0\<rparr>], Some (Inr client_ap))"
proof -
  have "length reply0 \<le> buf_size"
    by (simp add: reply0_def length_marshal buf_size_def tx0_def client_ap_def)
  then show ?thesis
    by (simp add: Bind_def NewRequest_def exchange0 reply0_def Response_unmarshal_marshal)
qed

theorem bind_sound_witness:
  "\<exists>att d raddr.
     att \<in> set [\<lparr>ctx_err = None, write_err = None, incoming = [ReadOk reply0 server0]\<rparr>] \<and>
     ReadOk d raddr \<in> set (incoming att) \<and> UDPAddr_AddrPort raddr = Some server_ap \<and>
     take buf_size d = Response_MarshalBinary \<lparr>TxID = tx0, Addr = client_ap\<rparr>"
  by (rule bind_sound [OF bind0])

section \<open>Stopping the server\<close>

text \<open>
  After \<open>Close\<close> the loop ends with the next turn, within a read deadline, and without an error:
  as long as reads and writes only time out before that, \<open>Serve\<close> returns nil.
\<close>

lemma serve_stops:
  assumes "done_closed ev" and "\<forall>e \<in> set evs. \<not> done_closed e \<and> read_res e = ReadErr (Leaf ErrDeadlineExceeded)"
  shows "Serve (evs @ ev # rest) = ([], Some None)"
  using assms(2)
proof (induction evs)
  case (Cons e evs)
  then have "\<not> done_closed e" and "read_res e = ReadErr (Leaf ErrDeadlineExceeded)"
    by (meson list.set_intros(1))+
  moreover have "Serve (evs @ ev # rest) = ([], Some None)"
    using Cons by (meson list.set_intros(2))
  ultimately show ?case by (simp add: errorsIs_def)
qed (simp add: assms(1))

end
