(* ===== verification/Udp_Relay.thy ===== *)
theory Udp_Relay
  imports Netip "HOL-Library.Multiset"
begin

text \<open>
  The UDP relay of \<^verbatim>\<open>internal/relay/relay.go\<close> and \<^verbatim>\<open>option.go\<close>: the route table with its
  operations, and \<open>Serve\<close> with its reader and its workers as a step relation, one step per
  channel, lock or socket operation. A packet is its bytes and its source (the pooled buffer
  is not shared: it goes resume to the pool only when the packet is done with, so contents
  stand for it). The lists after \<open>droppedPackets\<close> are history, kept to state what happens to
  packets; no step looks at them.
\<close>

section \<open>State\<close>

record pkt =
  data :: bytes
  from_addr :: addr_port

record stats =
  BytesIn :: u64
  BytesOut :: u64
  DroppedPackets :: u64

datatype relay_reader =
    RdCheck            \<comment> \<open>at the \<open>select\<close> on \<open>done\<close> in \<open>readPacketWithTimeout\<close>\<close>
  | RdRead             \<comment> \<open>in \<open>ReadFromUDPAddrPort\<close>\<close>
  | RdSend pkt         \<comment> \<open>at the \<open>select\<close> that sends to the inbox\<close>
  | RdExit error       \<comment> \<open>returned, inbox closed\<close>

datatype worker =
    WSelect                      \<comment> \<open>at the \<open>select\<close> of the worker loop\<close>
  | WDrain                       \<comment> \<open>in \<open>range inbox\<close> after \<open>done\<close>\<close>
  | WLookup bool pkt             \<comment> \<open>in \<open>writePacket\<close>, before the lock (draining or not)\<close>
  | WWrite bool pkt addr_port    \<comment> \<open>route found, before the write\<close>
  | WExit error

record relay =
  workers :: "worker list"
  routes :: "addr_port \<rightharpoonup> addr_port"
  r_done :: bool
  inbox :: "pkt list"
  reader :: relay_reader
  bytesIn :: u64
  bytesOut :: u64
  droppedPackets :: u64
  h_read :: "pkt list"
  h_forwarded :: "(pkt \<times> addr_port) list"
  h_dropped :: "pkt list"
  h_failed :: "pkt list"
  h_discarded :: "pkt list"
  h_routed :: "(addr_port \<times> addr_port) set"

text \<open>\<open>NewUDPRelay\<close> with \<open>WithWorkers n\<close> (or the number of processors), and \<open>Serve\<close> started.\<close>

definition NewUDPRelay :: "nat \<Rightarrow> relay" where
  "NewUDPRelay n =
     \<lparr>workers = replicate n WSelect, routes = Map.empty, r_done = False, inbox = [],
      reader = RdCheck, bytesIn = 0, bytesOut = 0, droppedPackets = 0,
      h_read = [], h_forwarded = [], h_dropped = [], h_failed = [], h_discarded = [],
      h_routed = {}\<rparr>"

section \<open>Routes\<close>

definition AddRoute :: "addr_port \<Rightarrow> addr_port \<Rightarrow> relay \<Rightarrow> relay" where
  "AddRoute a b r = r\<lparr>routes := (routes r)(a \<mapsto> b, b \<mapsto> a),
     h_routed := h_routed r \<union> {(a, b), (b, a)}\<rparr>"

definition RemoveRoute :: "addr_port \<Rightarrow> addr_port \<Rightarrow> relay \<Rightarrow> relay" where
  "RemoveRoute a b r = r\<lparr>routes := (routes r)(a := None, b := None)\<rparr>"

text \<open>
  The loop of \<open>RemoveAllRoutes\<close> ranges over the table in an order Go does not fix, and an
  entry deleted before it is reached is not visited: \<open>ks\<close> is the order.
\<close>

fun remove_loop :: "addr_port \<Rightarrow> addr_port list \<Rightarrow> (addr_port \<rightharpoonup> addr_port) \<Rightarrow> addr_port \<rightharpoonup> addr_port" where
  "remove_loop a [] m = m"
| "remove_loop a (k # ks) m =
     remove_loop a ks
       (case m k of None \<Rightarrow> m | Some dst \<Rightarrow> if dst = a then m(dst := None) else m)"

definition RemoveAllRoutes :: "addr_port \<Rightarrow> addr_port list \<Rightarrow> relay \<Rightarrow> relay" where
  "RemoveAllRoutes a ks r = r\<lparr>routes := remove_loop a ks ((routes r)(a := None))\<rparr>"

definition Stats :: "relay \<Rightarrow> stats" where
  "Stats r = \<lparr>BytesIn = bytesIn r, BytesOut = bytesOut r, DroppedPackets = droppedPackets r\<rparr>"

text \<open>\<open>close(r.done)\<close>: closing twice panics.\<close>

definition Relay_Close :: "relay \<Rightarrow> relay option" where
  "Relay_Close r = (if r_done r then None else Some (r\<lparr>r_done := True\<rparr>))"

section \<open>Reader and workers\<close>

definition pkt_n :: "pkt \<Rightarrow> nat" where "pkt_n p = length (data p)"

definition read_packet :: "pkt \<Rightarrow> relay \<Rightarrow> relay" where
  "read_packet p r =
     r\<lparr>reader := RdSend p, bytesIn := bytesIn r + of_nat (pkt_n p), h_read := p # h_read r\<rparr>"

definition read_error :: "err \<Rightarrow> relay \<Rightarrow> relay" where
  "read_error e r =
     r\<lparr>reader := (if errorsIs (Some e) ErrDeadlineExceeded then RdCheck
        else RdExit (errorf ''read packet with timeout'' (Wrap ''read from udp'' e)))\<rparr>"

definition send_inbox :: "pkt \<Rightarrow> relay \<Rightarrow> relay" where
  "send_inbox p r = r\<lparr>reader := RdCheck, inbox := inbox r @ [p]\<rparr>"

definition send_cancelled :: "pkt \<Rightarrow> relay \<Rightarrow> relay" where
  "send_cancelled p r = r\<lparr>reader := RdExit None, h_discarded := p # h_discarded r\<rparr>"

definition set_worker :: "nat \<Rightarrow> worker \<Rightarrow> relay \<Rightarrow> relay" where
  "set_worker i w r = r\<lparr>workers := (workers r)[i := w]\<rparr>"

definition resume :: "bool \<Rightarrow> worker" where
  "resume draining = (if draining then WDrain else WSelect)"

text \<open>\<open>writePacket\<close> up to the route, then the write with what the socket answers.\<close>

definition write_lookup :: "nat \<Rightarrow> bool \<Rightarrow> pkt \<Rightarrow> relay \<Rightarrow> relay" where
  "write_lookup i d p r =
     (case routes r (from_addr p) of
        None \<Rightarrow> set_worker i (resume d) r
          \<lparr>droppedPackets := droppedPackets r + 1, h_dropped := p # h_dropped r\<rparr>
      | Some dst \<Rightarrow> set_worker i (WWrite d p dst) r)"

definition write_result :: "nat \<Rightarrow> bool \<Rightarrow> pkt \<Rightarrow> addr_port \<Rightarrow> err + nat \<Rightarrow> relay \<Rightarrow> relay" where
  "write_result i d p dst res r =
     (case res of
        Inl e \<Rightarrow> set_worker i (WExit (errorf ''write packet'' (Wrap ''write to udp'' e))) r
          \<lparr>h_failed := p # h_failed r\<rparr>
      | Inr n \<Rightarrow>
          if n \<noteq> pkt_n p
          then set_worker i (WExit (errorf ''write packet'' (Leaf (Opaque ''short write to udp'')))) r
            \<lparr>h_failed := p # h_failed r\<rparr>
          else set_worker i (resume d) r
            \<lparr>bytesOut := bytesOut r + of_nat n, h_forwarded := (p, dst) # h_forwarded r\<rparr>)"

fun inbox_closed :: "relay_reader \<Rightarrow> bool" where
  "inbox_closed (RdExit _) = True" | "inbox_closed _ = False"

inductive relay_step :: "relay \<Rightarrow> relay \<Rightarrow> bool" where
  add_route: "relay_step r (AddRoute a b r)"
| remove_route: "relay_step r (RemoveRoute a b r)"
| remove_all: "relay_step r (RemoveAllRoutes a ks r)"
| close: "Relay_Close r = Some r' \<Longrightarrow> relay_step r r'"
| check: "reader r = RdCheck \<Longrightarrow>
     relay_step r (r\<lparr>reader := (if r_done r then RdExit None else RdRead)\<rparr>)"
| read_ok: "reader r = RdRead \<Longrightarrow> relay_step r (read_packet p r)"
| read_err: "reader r = RdRead \<Longrightarrow> relay_step r (read_error e r)"
| send: "reader r = RdSend p \<Longrightarrow> length (inbox r) < length (workers r) \<Longrightarrow>
     relay_step r (send_inbox p r)"
| cancel: "reader r = RdSend p \<Longrightarrow> r_done r \<Longrightarrow> relay_step r (send_cancelled p r)"
| w_done: "i < length (workers r) \<Longrightarrow> workers r ! i = WSelect \<Longrightarrow> r_done r \<Longrightarrow>
     relay_step r (set_worker i WDrain r)"
| w_take: "i < length (workers r) \<Longrightarrow> workers r ! i = resume d \<Longrightarrow> inbox r = p # ps \<Longrightarrow>
     relay_step r (set_worker i (WLookup d p) (r\<lparr>inbox := ps\<rparr>))"
| w_end: "i < length (workers r) \<Longrightarrow> workers r ! i = resume d \<Longrightarrow> inbox r = [] \<Longrightarrow>
     inbox_closed (reader r) \<Longrightarrow> relay_step r (set_worker i (WExit None) r)"
| w_lookup: "i < length (workers r) \<Longrightarrow> workers r ! i = WLookup d p \<Longrightarrow>
     relay_step r (write_lookup i d p r)"
| w_write: "i < length (workers r) \<Longrightarrow> workers r ! i = WWrite d p dst \<Longrightarrow>
     relay_step r (write_result i d p dst res r)"

inductive_cases relay_stepE: "relay_step r r'"

definition relay_init :: "relay \<Rightarrow> bool" where "relay_init r \<longleftrightarrow> (\<exists>n. r = NewUDPRelay n)"

abbreviation relay_reach :: "relay \<Rightarrow> bool" where "relay_reach \<equiv> reach relay_init relay_step"

lemmas relay_defs = AddRoute_def RemoveRoute_def RemoveAllRoutes_def Relay_Close_def
  read_packet_def read_error_def send_inbox_def send_cancelled_def set_worker_def
  write_lookup_def write_result_def

section \<open>Invariants\<close>

fun reader_holds :: "relay_reader \<Rightarrow> pkt list" where
  "reader_holds (RdSend p) = [p]" | "reader_holds _ = []"

fun worker_holds :: "worker \<Rightarrow> pkt list" where
  "worker_holds (WLookup _ p) = [p]" | "worker_holds (WWrite _ p _) = [p]"
| "worker_holds _ = []"

definition in_flight :: "relay \<Rightarrow> pkt multiset" where
  "in_flight r = mset (reader_holds (reader r)) + mset (inbox r)
     + mset (concat (map worker_holds (workers r)))"

definition accounted :: "relay \<Rightarrow> pkt multiset" where
  "accounted r = mset (map fst (h_forwarded r)) + mset (h_dropped r)
     + mset (h_failed r) + mset (h_discarded r)"

definition conserve_inv :: "relay \<Rightarrow> bool" where
  "conserve_inv r \<longleftrightarrow> mset (h_read r) = in_flight r + accounted r"

definition stats_inv :: "relay \<Rightarrow> bool" where
  "stats_inv r \<longleftrightarrow>
     bytesIn r = of_nat (sum_list (map pkt_n (h_read r))) \<and>
     bytesOut r = of_nat (sum_list (map (pkt_n \<circ> fst) (h_forwarded r))) \<and>
     droppedPackets r = of_nat (length (h_dropped r))"

definition routed_inv :: "relay \<Rightarrow> bool" where
  "routed_inv r \<longleftrightarrow>
     (\<forall>a b. routes r a = Some b \<longrightarrow> (a, b) \<in> h_routed r) \<and>
     (\<forall>d p dst. WWrite d p dst \<in> set (workers r) \<longrightarrow> (from_addr p, dst) \<in> h_routed r) \<and>
     (\<forall>(p, dst) \<in> set (h_forwarded r). (from_addr p, dst) \<in> h_routed r)"

text \<open>What the end of the reader and of the workers tells about the rest.\<close>

definition exit_inv :: "relay \<Rightarrow> bool" where
  "exit_inv r \<longleftrightarrow>
     length (h_discarded r) \<le> (if inbox_closed (reader r) then 1 else 0) \<and>
     (WExit None \<in> set (workers r) \<longrightarrow> inbox r = [] \<and> inbox_closed (reader r)) \<and>
     (h_failed r \<noteq> [] \<longrightarrow> (\<exists>e. WExit (Some e) \<in> set (workers r)))"

definition relay_inv :: "relay \<Rightarrow> bool" where
  "relay_inv r \<longleftrightarrow> conserve_inv r \<and> stats_inv r \<and> routed_inv r \<and> exit_inv r"

lemma worker_holds_resume [simp]: "worker_holds (resume d) = []"
  by (simp add: resume_def)

lemma mset_holds_update:
  "i < length ws \<Longrightarrow>
   mset (concat (map worker_holds (ws[i := w]))) + mset (worker_holds (ws ! i)) =
   mset (concat (map worker_holds ws)) + mset (worker_holds w)"
proof (induction ws arbitrary: i)
  case (Cons v ws)
  then show ?case
  proof (cases i)
    case (Suc j)
    then have "mset (concat (map worker_holds (ws[j := w]))) + mset (worker_holds (ws ! j)) =
        mset (concat (map worker_holds ws)) + mset (worker_holds w)"
      using Cons by simp
    then show ?thesis using Suc by (simp add: add.assoc)
  qed (simp add: ac_simps)
qed simp

lemma remove_loop_key: "m a = None \<Longrightarrow> remove_loop a ks m = m"
proof (induction ks arbitrary: m)
  case (Cons k ks)
  then show ?case by (cases "m k") (auto simp: fun_upd_idem)
qed simp

lemma conserve_inv_step: "relay_step r r' \<Longrightarrow> conserve_inv r \<Longrightarrow> conserve_inv r'"
proof (induction rule: relay_step.induct)
  case (w_done i r)
  then show ?case using mset_holds_update [of i "workers r" WDrain]
    by (simp add: conserve_inv_def in_flight_def accounted_def set_worker_def)
next
  case (w_take i r d p ps)
  then show ?case using mset_holds_update [of i "workers r" "WLookup d p"]
    by (simp add: conserve_inv_def in_flight_def accounted_def set_worker_def)
next
  case (w_end i r d)
  then show ?case using mset_holds_update [of i "workers r" "WExit None"]
    by (simp add: conserve_inv_def in_flight_def accounted_def set_worker_def)
next
  case (w_lookup i r d p)
  then show ?case
    using mset_holds_update [of i "workers r" "resume d"]
      mset_holds_update [of i "workers r" "WWrite d p dst" for dst]
    by (auto simp: conserve_inv_def in_flight_def accounted_def write_lookup_def set_worker_def
        split: option.split)
next
  case (w_write i r d p dst res)
  then show ?case
    using mset_holds_update [of i "workers r" "resume d"]
      mset_holds_update [of i "workers r" "WExit e" for e]
    by (auto simp: conserve_inv_def in_flight_def accounted_def write_result_def set_worker_def
        split: sum.split)
qed (auto simp: conserve_inv_def in_flight_def accounted_def relay_defs split: if_splits)

lemma stats_inv_step: "relay_step r r' \<Longrightarrow> stats_inv r \<Longrightarrow> stats_inv r'"
  by (induction rule: relay_step.induct)
    (auto simp: stats_inv_def relay_defs algebra_simps split: option.split sum.split if_splits)

lemma routed_inv_step: "relay_step r r' \<Longrightarrow> routed_inv r \<Longrightarrow> routed_inv r'"
proof (induction rule: relay_step.induct)
  case (remove_all r a ks)
  then show ?case
    by (auto simp: routed_inv_def RemoveAllRoutes_def remove_loop_key split: if_splits)
next
  case (w_write i r d p dst res)
  then have "WWrite d p dst \<in> set (workers r)" by (metis nth_mem)
  then show ?case using w_write
    by (auto simp: routed_inv_def relay_defs resume_def
        split: sum.split dest!: subsetD [OF set_update_subset_insert])
qed (auto simp: routed_inv_def relay_defs resume_def
      split: option.split sum.split if_splits dest!: subsetD [OF set_update_subset_insert])

lemma keep_exit:
  assumes "WExit (Some e) \<in> set ws" and "i < length ws" and "ws ! i \<noteq> WExit (Some e)"
  shows "\<exists>e. WExit (Some e) \<in> set (ws[i := w])"
  using assms by (metis in_set_conv_nth length_list_update nth_list_update_neq)

lemma new_exit: "i < length ws \<Longrightarrow> \<exists>e. WExit (Some e) \<in> set (ws[i := WExit (Some e')])"
  by (rule exI [of _ e']) (simp add: set_update_memI)

lemma exit_inv_move:
  assumes "exit_inv r" and i: "i < length (workers r)" and w: "\<forall>e. workers r ! i \<noteq> WExit e"
    and "workers r' = (workers r)[i := v]" and "reader r' = reader r"
    and "h_discarded r' = h_discarded r" and "inbox r' = inbox r \<or> inbox r \<noteq> []"
    and "v = WExit None \<Longrightarrow> inbox r' = [] \<and> inbox_closed (reader r)"
    and f: "h_failed r' = h_failed r \<or> (\<exists>e. v = WExit (Some e))"
  shows "exit_inv r'"
proof -
  have "\<exists>e. WExit (Some e) \<in> set (workers r')" if "h_failed r' \<noteq> []"
    using f that keep_exit [OF _ i] new_exit [OF i] w assms(1,4) unfolding exit_inv_def by metis
  moreover have "WExit None \<in> set (workers r') \<Longrightarrow> v = WExit None \<or> WExit None \<in> set (workers r)"
    using set_update_subset_insert assms(4) by fastforce
  ultimately show ?thesis using assms unfolding exit_inv_def by auto
qed

lemma exit_inv_step: "relay_step r r' \<Longrightarrow> exit_inv r \<Longrightarrow> exit_inv r'"
proof (induction rule: relay_step.induct)
  case (w_done i r)
  show ?case by (rule exit_inv_move [of r i]) (use w_done in \<open>auto simp: set_worker_def\<close>)
next
  case (w_take i r d p ps)
  show ?case
    by (rule exit_inv_move [of r i]) (use w_take in \<open>auto simp: set_worker_def resume_def\<close>)
next
  case (w_end i r d)
  show ?case
    by (rule exit_inv_move [of r i]) (use w_end in \<open>auto simp: set_worker_def resume_def\<close>)
next
  case (w_lookup i r d p)
  show ?case
    by (cases "routes r (from_addr p)"; rule exit_inv_move [of r i])
      (use w_lookup in \<open>auto simp: write_lookup_def set_worker_def resume_def split: if_splits\<close>)
next
  case (w_write i r d p dst res)
  let ?v = "workers (write_result i d p dst res r) ! i"
  show ?case
    by (rule exit_inv_move [of r i _ ?v])
      (use w_write in \<open>auto simp: write_result_def set_worker_def resume_def errorf_def
        split: sum.splits if_splits\<close>)
qed (auto simp: exit_inv_def relay_defs split: if_splits)

interpretation relay: inductive_invariant relay_init relay_step relay_inv
proof
  show "relay_init r \<Longrightarrow> relay_inv r" for r
    by (auto simp: relay_init_def NewUDPRelay_def relay_inv_def conserve_inv_def in_flight_def
        accounted_def stats_inv_def routed_inv_def exit_inv_def)
  show "relay_inv r \<Longrightarrow> relay_step r r' \<Longrightarrow> relay_inv r'" for r r'
    unfolding relay_inv_def
    using conserve_inv_step stats_inv_step routed_inv_step exit_inv_step by blast
qed

section \<open>Runs used as witnesses\<close>

definition addrA :: addr_port where "addrA = AddrPort (V4 1) 1"
definition addrB :: addr_port where "addrB = AddrPort (V4 2) 2"
definition pA :: pkt where "pA = \<lparr>data = [1, 2, 3], from_addr = addrA\<rparr>"

lemma addr_neq [simp]: "addrA \<noteq> addrB" "addrB \<noteq> addrA"
  by (simp_all add: addrA_def addrB_def)

text \<open>One worker and one route; the reader has read a packet.\<close>

definition r_routed :: relay where "r_routed = AddRoute addrA addrB (NewUDPRelay 1)"
definition r_got :: relay where "r_got = read_packet pA (r_routed\<lparr>reader := RdRead\<rparr>)"
definition r_taken :: relay where
  "r_taken = r_got\<lparr>reader := RdCheck, workers := [WLookup False pA]\<rparr>"
definition r_writing :: relay where
  "r_writing = r_taken\<lparr>workers := [WWrite False pA addrB]\<rparr>"

lemmas run_defs = r_writing_def r_taken_def r_got_def r_routed_def NewUDPRelay_def AddRoute_def
  read_packet_def

lemma reach_routed: "relay_reach r_routed"
  unfolding r_routed_def
  by (rule reach_step [OF reach_init]) (auto simp: relay_init_def intro: add_route)

lemma reach_got: "relay_reach r_got"
proof -
  have "relay_reach (r_routed\<lparr>reader := (if r_done r_routed then RdExit None else RdRead)\<rparr>)"
    by (rule reach_step [OF reach_routed check]) (simp add: run_defs)
  then have "relay_reach (r_routed\<lparr>reader := RdRead\<rparr>)" by (simp add: run_defs)
  then show ?thesis unfolding r_got_def by (rule reach_step) (rule read_ok, simp)
qed

lemma reach_taken: "relay_reach r_taken"
proof -
  have "relay_reach (send_inbox pA r_got)"
    by (rule reach_step [OF reach_got send]) (simp_all add: run_defs)
  then have "relay_reach (set_worker 0 (WLookup False pA) ((send_inbox pA r_got)\<lparr>inbox := []\<rparr>))"
    by (rule reach_step) (rule w_take, simp_all add: run_defs send_inbox_def resume_def)
  then show ?thesis by (simp add: run_defs send_inbox_def set_worker_def)
qed

lemma reach_writing: "relay_reach r_writing"
proof -
  have "relay_reach (write_lookup 0 False pA r_taken)"
    by (rule reach_step [OF reach_taken w_lookup]) (simp_all add: run_defs)
  then show ?thesis by (simp add: run_defs write_lookup_def set_worker_def pA_def)
qed

text \<open>After \<open>Close\<close> the reader gives up the packet it holds, and the worker ends.\<close>

definition r_closed :: relay where
  "r_closed = (send_cancelled pA (r_got\<lparr>r_done := True\<rparr>))\<lparr>workers := [WExit None]\<rparr>"

lemma reach_closed: "relay_reach r_closed"
proof -
  have "relay_reach (r_got\<lparr>r_done := True\<rparr>)"
    by (rule reach_step [OF reach_got close]) (simp add: Relay_Close_def run_defs)
  then have "relay_reach (send_cancelled pA (r_got\<lparr>r_done := True\<rparr>))"
    by (rule reach_step) (rule cancel, simp_all add: run_defs)
  then have "relay_reach (set_worker 0 (WExit None) (send_cancelled pA (r_got\<lparr>r_done := True\<rparr>)))"
    by (rule reach_step)
      (rule w_end [where d = False], simp_all add: run_defs send_cancelled_def resume_def)
  then show ?thesis by (simp add: r_closed_def set_worker_def send_cancelled_def run_defs)
qed

section \<open>Properties\<close>

text \<open>
  C24. Conservation: every packet read is either still held by the reader, in the inbox or
  held by a worker, or it was forwarded, dropped for want of a route, lost to a write error
  or given up at shutdown, each exactly once; and the counters that \<open>Stats\<close> reports are these
  amounts modulo \<open>2 ^ 64\<close>.
\<close>
theorem relay_conservation:
  assumes "relay_reach r"
  shows "mset (h_read r) = in_flight r + accounted r \<and>
    Stats r = \<lparr>BytesIn = of_nat (sum_list (map pkt_n (h_read r))),
               BytesOut = of_nat (sum_list (map (pkt_n \<circ> fst) (h_forwarded r))),
               DroppedPackets = of_nat (length (h_dropped r))\<rparr>"
  using relay.inv_reach [OF assms]
  by (simp add: relay_inv_def conserve_inv_def stats_inv_def Stats_def)

theorem relay_conservation_witness:
  "mset (h_read r_writing) = in_flight r_writing + accounted r_writing \<and>
   Stats r_writing = \<lparr>BytesIn = of_nat (sum_list (map pkt_n (h_read r_writing))),
      BytesOut = of_nat (sum_list (map (pkt_n \<circ> fst) (h_forwarded r_writing))),
      DroppedPackets = of_nat (length (h_dropped r_writing))\<rparr>"
  by (rule relay_conservation [OF reach_writing])

definition r_forwarded :: relay where
  "r_forwarded = write_result 0 False pA addrB (Inr 3) r_writing"

lemma reach_forwarded: "relay_reach r_forwarded" "(pA, addrB) \<in> set (h_forwarded r_forwarded)"
proof -
  show "relay_reach r_forwarded" unfolding r_forwarded_def
    by (rule reach_step [OF reach_writing w_write]) (simp_all add: run_defs)
  show "(pA, addrB) \<in> set (h_forwarded r_forwarded)"
    by (simp add: r_forwarded_def write_result_def pkt_n_def pA_def)
qed

text \<open>
  C25. Isolation: a packet is only ever sent to an address that some \<open>AddRoute\<close> call paired with
  the packet's source, whatever routes are added and removed meanwhile.
\<close>
theorem relay_isolation:
  assumes "relay_reach r" and "(p, dst) \<in> set (h_forwarded r)"
  shows "(from_addr p, dst) \<in> h_routed r"
  using relay.inv_reach [OF assms(1)] assms(2) by (auto simp: relay_inv_def routed_inv_def)

theorem relay_isolation_witness: "(from_addr pA, addrB) \<in> h_routed r_forwarded"
  by (rule relay_isolation [OF reach_forwarded])

text \<open>
  Draining: when all workers have ended without a write error, nothing is left in flight;
  every packet read was forwarded or dropped for want of a route, except at most one that the
  reader held when \<open>Close\<close> came.
\<close>
theorem relay_drains:
  assumes "relay_reach r" and "workers r = replicate (Suc n) (WExit None)"
  shows "mset (h_read r) = mset (map fst (h_forwarded r)) + mset (h_dropped r) + mset (h_discarded r) \<and>
    length (h_discarded r) \<le> 1"
proof -
  have inv: "conserve_inv r" "exit_inv r"
    using relay.inv_reach [OF assms(1)] by (simp_all add: relay_inv_def)
  then have x: "inbox r = []" "inbox_closed (reader r)" "h_failed r = []" "length (h_discarded r) \<le> 1"
    using assms(2) by (auto simp: exit_inv_def split: if_splits)
  then have "reader_holds (reader r) = []" by (cases "reader r") auto
  moreover have "concat (map worker_holds (workers r)) = []"
    by (simp add: assms(2) concat_eq_Nil_conv)
  ultimately show ?thesis using inv(1) x
    by (simp add: conserve_inv_def in_flight_def accounted_def)
qed

theorem relay_drains_witness:
  "mset (h_read r_closed) =
     mset (map fst (h_forwarded r_closed)) + mset (h_dropped r_closed) + mset (h_discarded r_closed) \<and>
   length (h_discarded r_closed) \<le> 1"
  by (rule relay_drains [OF reach_closed, of 0]) (simp add: r_closed_def)

section \<open>Defects\<close>


text \<open>
  \<open>Close\<close> is documented to process all packets already read; the select of \<open>readPackets\<close> may
  give up one that has a route.
\<close>
lemma relay_close_discards:
  "relay_reach r_closed \<and> h_discarded r_closed = [pA] \<and> routes r_closed (from_addr pA) = Some addrB"
  using reach_closed by (simp add: r_closed_def send_cancelled_def run_defs pA_def)

text \<open>The state in which every worker has died and the reader is blocked on a full inbox.\<close>

definition wedged :: "relay \<Rightarrow> bool" where
  "wedged r \<longleftrightarrow> \<not> r_done r \<and> (\<exists>p. reader r = RdSend p) \<and> length (inbox r) = length (workers r) \<and>
     workers r = [WExit (errorf ''write packet'' (Wrap ''write to udp'' (Leaf (Opaque ''EMSGSIZE''))))]"

definition open_step :: "relay \<Rightarrow> relay \<Rightarrow> bool" where
  "open_step r r' \<longleftrightarrow> relay_step r r' \<and> r_done r' = r_done r"

interpretation wedge: inductive_invariant "\<lambda>_. False" open_step wedged
proof
  fix r r'
  assume w: "wedged r" and "open_step r r'"
  then have "relay_step r r'" and d: "r_done r' = r_done r" by (auto simp: open_step_def)
  then show "wedged r'" using w
    by (cases rule: relay_step.cases) (auto simp: wedged_def relay_defs resume_def split: if_splits)
qed simp

definition r_failed :: relay where
  "r_failed = write_result 0 False pA addrB (Inl (Leaf (Opaque ''EMSGSIZE''))) r_writing"

definition r_wedged :: relay where
  "r_wedged = read_packet pA (r_failed\<lparr>inbox := [pA], reader := RdRead, bytesIn := 6,
     h_read := [pA, pA]\<rparr>)"

lemma reach_wedged: "relay_reach r_wedged"
proof -
  let ?go = "\<lambda>r. r\<lparr>reader := (if r_done r then RdExit None else RdRead)\<rparr>"
  have "relay_reach r_failed" unfolding r_failed_def
    by (rule reach_step [OF reach_writing w_write]) (simp_all add: run_defs)
  then have "relay_reach (?go r_failed)"
    by (rule reach_step) (rule check, simp add: r_failed_def write_result_def set_worker_def run_defs)
  then have "relay_reach (read_packet pA (?go r_failed))"
    by (rule reach_step) (rule read_ok, simp add: r_failed_def write_result_def set_worker_def run_defs)
  then have "relay_reach (send_inbox pA (read_packet pA (?go r_failed)))"
    by (rule reach_step)
      (rule send, simp_all add: r_failed_def write_result_def set_worker_def run_defs)
  then have "relay_reach (?go (send_inbox pA (read_packet pA (?go r_failed))))"
    by (rule reach_step) (rule check, simp add: send_inbox_def)
  then have "relay_reach (read_packet pA (?go (send_inbox pA (read_packet pA (?go r_failed)))))"
    by (rule reach_step)
      (rule read_ok, simp add: r_failed_def write_result_def set_worker_def run_defs send_inbox_def)
  then show ?thesis
    by (simp add: r_wedged_def r_failed_def write_result_def set_worker_def run_defs send_inbox_def
        pkt_n_def pA_def)
qed

text \<open>
  A write error can stop the relay silently: once the only worker has returned its error,
  the reader fills the inbox and blocks. From the state below, until somebody calls \<open>Close\<close>,
  no packet is read, forwarded or dropped, and \<open>Serve\<close> does not return the error either.
\<close>
theorem relay_worker_death:
  "\<exists>r. relay_reach r \<and>
     open_step\<^sup>*\<^sup>* r \<le> (\<lambda>t. \<not> inbox_closed (reader t) \<and> h_read t = h_read r \<and>
       h_forwarded t = h_forwarded r \<and> h_dropped t = h_dropped r)"
proof -
  have w: "wedged r_wedged"
    by (simp add: wedged_def r_wedged_def r_failed_def write_result_def set_worker_def run_defs)
  have "\<not> inbox_closed (reader t) \<and> h_read t = h_read r_wedged \<and>
      h_forwarded t = h_forwarded r_wedged \<and> h_dropped t = h_dropped r_wedged"
    if "open_step\<^sup>*\<^sup>* r_wedged t" for t
    using that
  proof (induction rule: rtranclp_induct)
    case (step y z)
    then have "wedged y" "wedged z" using wedge.inv_steps [OF _ w] wedge.inv_step by blast+
    moreover have "relay_step y z" using step by (simp add: open_step_def)
    then have "h_read z = h_read y \<and> h_forwarded z = h_forwarded y \<and> h_dropped z = h_dropped y"
      using \<open>wedged y\<close>
      by (cases rule: relay_step.cases) (auto simp: wedged_def relay_defs resume_def split: if_splits)
    ultimately show ?case using step by (auto simp: wedged_def)
  qed (use w in \<open>auto simp: wedged_def\<close>)
  then show ?thesis using reach_wedged by blast
qed

end
