(* ===== verification/Sha256.thy ===== *)
theory Sha256
  imports Go_Codec
begin

text \<open>
  HMAC-SHA256 as \<open>crypto/hmac\<close> over \<open>crypto/sha256\<close> computes it (FIPS 180-4, RFC 2104),
  on 32-bit words. It is the signature of the tokens in \<^verbatim>\<open>internal/registar/auth/token.go\<close>.
\<close>

section \<open>Constants\<close>

text \<open>
  The round constants are the first 32 bits of the fractional parts of the cube roots of the
  first 64 primes, the initial state those of the square roots of the first eight. They are
  computed: \<open>root_bits k n b 0\<close> is the integer \<open>k\<close>-th root of \<open>n\<close> when it fits \<open>b\<close> bits.
\<close>

fun root_bits :: "nat \<Rightarrow> nat \<Rightarrow> nat \<Rightarrow> nat \<Rightarrow> nat" where
  "root_bits k n 0 r = r"
| "root_bits k n (Suc b) r = root_bits k n b (if (r + 2 ^ b) ^ k \<le> n then r + 2 ^ b else r)"

definition small_primes :: "nat list" where
  "small_primes = filter (\<lambda>n. list_all (\<lambda>d. n mod d \<noteq> 0) [2..<n]) [2..<312]"

definition K256 :: "u32 list" where
  "K256 = map (\<lambda>p. of_nat (root_bits 3 (p * 2 ^ 96) 40 0)) small_primes"

definition H256 :: "u32 list" where
  "H256 = map (\<lambda>p. of_nat (root_bits 2 (p * 2 ^ 64) 40 0)) [2, 3, 5, 7, 11, 13, 17, 19]"

section \<open>The hash\<close>

definition rotr :: "nat \<Rightarrow> u32 \<Rightarrow> u32" where
  "rotr n w = drop_bit n w OR push_bit (32 - n) w"

definition big_sigma0 :: "u32 \<Rightarrow> u32" where
  "big_sigma0 x = rotr 2 x XOR rotr 13 x XOR rotr 22 x"

definition big_sigma1 :: "u32 \<Rightarrow> u32" where
  "big_sigma1 x = rotr 6 x XOR rotr 11 x XOR rotr 25 x"

definition small_sigma0 :: "u32 \<Rightarrow> u32" where
  "small_sigma0 x = rotr 7 x XOR rotr 18 x XOR drop_bit 3 x"

definition small_sigma1 :: "u32 \<Rightarrow> u32" where
  "small_sigma1 x = rotr 17 x XOR rotr 19 x XOR drop_bit 10 x"

definition ch :: "u32 \<Rightarrow> u32 \<Rightarrow> u32 \<Rightarrow> u32" where
  "ch x y z = (x AND y) XOR (NOT x AND z)"

definition maj :: "u32 \<Rightarrow> u32 \<Rightarrow> u32 \<Rightarrow> u32" where
  "maj x y z = (x AND y) XOR (x AND z) XOR (y AND z)"

text \<open>The message schedule, kept newest first: \<open>n\<close> further words from the last sixteen.\<close>

fun schedule :: "nat \<Rightarrow> u32 list \<Rightarrow> u32 list" where
  "schedule 0 ws = ws"
| "schedule (Suc n) ws =
     schedule n ((small_sigma1 (ws ! 1) + ws ! 6 + small_sigma0 (ws ! 14) + ws ! 15) # ws)"

fun compress :: "u32 list \<Rightarrow> (u32 \<times> u32) list \<Rightarrow> u32 list" where
  "compress [a, b, c, d, e, f, g, h] ((k, w) # kws) =
     (let t1 = h + big_sigma1 e + ch e f g + k + w;
          t2 = big_sigma0 a + maj a b c
      in compress [t1 + t2, a, b, c, d + t1, e, f, g] kws)"
| "compress s _ = s"

fun words_of :: "bytes \<Rightarrow> u32 list" where
  "words_of (a # b # c # d # bs) = get_u32 [a, b, c, d] # words_of bs"
| "words_of _ = []"

definition block_step :: "u32 list \<Rightarrow> bytes \<Rightarrow> u32 list" where
  "block_step s block =
     map2 (+) s (compress s (zip K256 (rev (schedule 48 (rev (words_of block))))))"

text \<open>Padding: a one bit, zeros, the bit length as a 64-bit big-endian number.\<close>

definition sha_pad :: "bytes \<Rightarrow> bytes" where
  "sha_pad m =
     m @ [128] @ replicate ((119 - length m mod 64) mod 64) 0
       @ to_bytes 8 (length m * 8 mod 2 ^ 64)"

fun blocks :: "nat \<Rightarrow> bytes \<Rightarrow> bytes list" where
  "blocks 0 bs = []"
| "blocks (Suc n) bs = take 64 bs # blocks n (drop 64 bs)"

definition sha256 :: "bytes \<Rightarrow> bytes" where
  "sha256 m =
     (let p = sha_pad m
      in concat (map put_u32 (foldl block_step H256 (blocks (length p div 64) p))))"

definition hmac_sha256 :: "bytes \<Rightarrow> bytes \<Rightarrow> bytes" where
  "hmac_sha256 key msg =
     (let k0 = (if 64 < length key then sha256 key else key);
          k = k0 @ replicate (64 - length k0) 0;
          ipad = map (\<lambda>b. b XOR 0x36) k;
          opad = map (\<lambda>b. b XOR 0x5c) k
      in sha256 (opad @ sha256 (ipad @ msg)))"

section \<open>Output length\<close>

lemma length_compress: "length s = 8 \<Longrightarrow> length (compress s kws) = 8"
  by (induction s kws rule: compress.induct) (auto simp: Let_def)

lemma length_block_step: "length s = 8 \<Longrightarrow> length (block_step s b) = 8"
  by (simp add: block_step_def length_compress)

lemma length_foldl_block_step: "length s = 8 \<Longrightarrow> length (foldl block_step s bs) = 8"
  by (induction bs arbitrary: s) (auto simp: length_block_step)

lemma length_sha256 [simp]: "length (sha256 m) = 32"
proof -
  have "length (concat (map put_u32 ws)) = 4 * length ws" for ws
    by (induction ws) auto
  moreover have "length H256 = 8" by (simp add: H256_def)
  ultimately show ?thesis by (simp add: sha256_def Let_def length_foldl_block_step)
qed

lemma length_hmac_sha256 [simp]: "length (hmac_sha256 key msg) = 32"
  by (simp add: hmac_sha256_def Let_def)

end
