(* ===== verification/Auth.thy ===== *)
theory Auth
  imports Sha256
begin

text \<open>
  Game keys and tokens: \<^verbatim>\<open>internal/registar/auth/key.go\<close> and \<^verbatim>\<open>token.go\<close>. A \<open>Key\<close> is
  the Go array \<open>[5]byte\<close>, a \<open>Token\<close> the array \<open>[37]byte\<close> as a list of that length. Text
  forms go through the codecs of \<^verbatim>\<open>Go_Codec\<close>. The Unicode case table of \<open>unicode.ToUpper\<close>
  beyond ASCII is the argument \<open>upper\<close>; nothing below depends on what it holds. A panic is
  the outer \<open>None\<close>.
\<close>

section \<open>Keys\<close>

datatype key = Key u8 u8 u8 u8 u8

definition KeySize :: nat where "KeySize = 5"

fun key_bytes :: "key \<Rightarrow> bytes" where
  "key_bytes (Key a b c d e) = [a, b, c, d, e]"

definition zero_key :: key where "zero_key = Key 0 0 0 0 0"

text \<open>\<open>copy(k[:], data)\<close> into a zero array.\<close>

definition key_copy :: "bytes \<Rightarrow> key" where
  "key_copy data =
     (let p = take KeySize data @ replicate (KeySize - length data) 0
      in Key (p ! 0) (p ! 1) (p ! 2) (p ! 3) (p ! 4))"

definition ErrInvalidKeyFormat :: err where
  "ErrInvalidKeyFormat = Leaf (Sentinel ''invalid key format'')"

definition crockford :: bytes where
  "crockford = ascii ''0123456789ABCDEFGHJKMNPQRSTVWXYZ''"

definition toUpper :: "(nat \<Rightarrow> nat) \<Rightarrow> nat \<Rightarrow> nat" where
  "toUpper upper r = (if r < 128 then (if 97 \<le> r \<and> r \<le> 122 then r - 32 else r) else upper r)"

definition crocfordMap :: "(nat \<Rightarrow> nat) \<Rightarrow> nat \<Rightarrow> nat option" where
  "crocfordMap upper r =
     (if r \<in> {45, 95} then None
      else if r \<in> {48, 111, 79} then Some 48
      else if r \<in> {49, 108, 76} then Some 49
      else Some (toUpper upper r))"

definition Key_UnmarshalBinary :: "bytes \<Rightarrow> err + key" where
  "Key_UnmarshalBinary data =
     (if length data \<noteq> KeySize then Inl (Leaf (InvalidLengthError (length data)))
      else Inr (key_copy data))"

definition Key_UnmarshalText :: "(nat \<Rightarrow> nat) \<Rightarrow> bytes \<Rightarrow> (err + key) option" where
  "Key_UnmarshalText upper text =
     (if length text \<noteq> 8 \<and> length text \<noteq> 9 then
        Some (Inl (Leaf (InvalidLengthError (length text))))
      else if length text = 9 \<and> text ! 4 \<noteq> 45 then Some (Inl ErrInvalidKeyFormat)
      else
        (case b32_decode crockford KeySize (bytes_map (crocfordMap upper) text) of
           None \<Rightarrow> None
         | Some (Inl CorruptInput) \<Rightarrow> Some (Inl (Leaf (Opaque ''illegal base32 data'')))
         | Some (Inr decoded) \<Rightarrow> Some (Key_UnmarshalBinary decoded)))"

definition Key_MarshalText :: "key \<Rightarrow> bytes" where
  "Key_MarshalText k =
     (let encoded = b32_encode crockford (key_bytes k)
      in take 4 encoded @ [45] @ drop 4 encoded)"

definition Key_String :: "key \<Rightarrow> bytes" where
  "Key_String k = Key_MarshalText k"

text \<open>A nil slice is the empty list.\<close>

definition Key_MarshalBinary :: "key \<Rightarrow> bytes" where
  "Key_MarshalBinary k = (if k = zero_key then [] else key_bytes k)"

datatype sql_value = SqlNil | SqlString bytes | SqlBytes bytes | SqlOther

fun Key_Scan :: "(nat \<Rightarrow> nat) \<Rightarrow> key \<Rightarrow> sql_value \<Rightarrow> (err + key) option" where
  "Key_Scan upper k SqlNil = Some (Inr k)"
| "Key_Scan upper k (SqlString v) = Key_UnmarshalText upper v"
| "Key_Scan upper k (SqlBytes v) = Some (Key_UnmarshalBinary v)"
| "Key_Scan upper k SqlOther = Some (Inl (Leaf (Opaque ''unable to scan type into Key'')))"

definition Key_Value :: "key \<Rightarrow> sql_value" where
  "Key_Value k = SqlString (Key_String k)"

text \<open>\<open>NewKey\<close> on the bytes \<open>crypto/rand\<close> delivered (\<open>None\<close>: it failed and the code panics).\<close>

definition NewKey :: "bytes option \<Rightarrow> key option" where
  "NewKey random = map_option key_copy random"

definition ParseKey :: "(nat \<Rightarrow> nat) \<Rightarrow> bytes \<Rightarrow> (err + key) option" where
  "ParseKey upper text = Key_UnmarshalText upper text"

text \<open>The value a request context carries under \<open>keyCtxKey\<close>.\<close>

record go_context =
  ctx_key :: "key option"

definition ContextWithKey :: "'a go_context_scheme \<Rightarrow> key \<Rightarrow> 'a go_context_scheme" where
  "ContextWithKey ctx k = ctx\<lparr>ctx_key := Some k\<rparr>"

definition KeyFromContext :: "'a go_context_scheme \<Rightarrow> key \<times> bool" where
  "KeyFromContext ctx = (case ctx_key ctx of None \<Rightarrow> (zero_key, False) | Some k \<Rightarrow> (k, True))"

section \<open>Tokens\<close>

definition TokenSize :: nat where "TokenSize = KeySize + 32"

definition url_alphabet :: bytes where
  "url_alphabet = ascii ''ABCDEFGHIJKLMNOPQRSTUVWXYZabcdefghijklmnopqrstuvwxyz0123456789-_''"

definition Token_Key :: "bytes \<Rightarrow> key" where
  "Token_Key t = key_copy (take KeySize t)"

definition Token_String :: "bytes \<Rightarrow> bytes" where
  "Token_String t = b64_encode url_alphabet t"

definition Token_MarshalText :: "bytes \<Rightarrow> bytes" where
  "Token_MarshalText t = b64_encode url_alphabet t"

definition Token_UnmarshalText :: "bytes \<Rightarrow> err + bytes" where
  "Token_UnmarshalText text =
     (case b64_decode url_alphabet text of
        Inl CorruptInput \<Rightarrow> Inl (Leaf (Opaque ''illegal base64 data''))
      | Inr decoded \<Rightarrow>
          (if length decoded \<noteq> TokenSize then Inl (Leaf (Opaque ''invalid token size''))
           else Inr decoded))"

definition ParseToken :: "bytes \<Rightarrow> err + bytes" where
  "ParseToken text = Token_UnmarshalText text"

definition NewToken :: "key \<Rightarrow> bytes \<Rightarrow> bytes" where
  "NewToken k secret = key_bytes k @ hmac_sha256 secret (key_bytes k)"

definition VerifyToken :: "bytes \<Rightarrow> bytes \<Rightarrow> bool" where
  "VerifyToken secret token \<longleftrightarrow> drop KeySize token = hmac_sha256 secret (take KeySize token)"

section \<open>The alphabets\<close>

interpretation c32: base32_alphabet crockford
  by unfold_locales
    (auto simp: crockford_def ascii_def pad_char_def is_newline_def)

interpretation u64a: base64_alphabet url_alphabet
  by unfold_locales
    (auto simp: url_alphabet_def ascii_def pad_char_def is_newline_def)

section \<open>Byte forms of a key\<close>

lemma length_key_bytes [simp]: "length (key_bytes k) = 5"
  by (cases k) simp

lemma list5: "length xs = 5 \<Longrightarrow> \<exists>a b c d e. xs = [a, b, c, d, e]"
  by (auto simp: length_Suc_conv eval_nat_numeral)

lemma key_copy_key_bytes [simp]: "key_copy (key_bytes k) = k"
  by (cases k) (simp add: key_copy_def KeySize_def Let_def)

lemma key_bytes_key_copy: "length bs = 5 \<Longrightarrow> key_bytes (key_copy bs) = bs"
  by (auto dest!: list5 simp: key_copy_def KeySize_def Let_def)

lemma key_bytes_inject: "key_bytes j = key_bytes k \<longleftrightarrow> j = k"
  by (metis key_copy_key_bytes)

lemma UnmarshalBinary_ok: "length bs = 5 \<Longrightarrow> Key_UnmarshalBinary bs = Inr (key_copy bs)"
  by (simp add: Key_UnmarshalBinary_def KeySize_def)

lemma UnmarshalBinary_Inr:
  "Key_UnmarshalBinary bs = Inr k \<Longrightarrow> length bs = 5 \<and> k = key_copy bs"
  by (simp add: Key_UnmarshalBinary_def KeySize_def split: if_splits)

section \<open>The Crockford map\<close>

definition canonical_char :: "u8 \<Rightarrow> bool" where
  "canonical_char b \<longleftrightarrow> b \<in> set crockford"

lemma crocfordMap_alphabet:
  assumes "b \<in> set crockford"
  shows "crocfordMap upper (unat b) = Some (unat b)"
proof -
  have "\<forall>b \<in> set crockford. crocfordMap upper (unat b) = Some (unat b)"
    by (simp add: crockford_def ascii_def crocfordMap_def toUpper_def)
  then show ?thesis using assms by blast
qed

lemma crocfordMap_dash: "crocfordMap upper 45 = None"
  by (simp add: crocfordMap_def)

lemma encode_rune_byte: "b < 128 \<Longrightarrow> encode_rune (unat b) = [b]"
  by (simp add: encode_rune_def encode_valid_def mk_byte_def word_less_nat_alt)

lemma bytes_map_alphabet:
  assumes "set cs \<subseteq> set crockford"
  shows "bytes_map (crocfordMap upper) cs = cs"
proof -
  have "\<forall>b \<in> set cs. b < 128" using assms c32.alphabet_ascii by auto
  then have "bytes_map (crocfordMap upper) cs =
      concat (map (\<lambda>b. case crocfordMap upper (unat b) of None \<Rightarrow> [] | Some r \<Rightarrow> encode_rune r) cs)"
    by (rule bytes_map_ascii)
  also have "\<dots> = concat (map (\<lambda>b. [b]) cs)"
    using assms c32.alphabet_ascii
    by (intro arg_cong [where f = concat] map_cong refl)
      (auto simp: crocfordMap_alphabet encode_rune_byte subset_iff)
  also have "\<dots> = cs" by (induction cs) auto
  finally show ?thesis .
qed

lemma bytes_map_dashed:
  assumes "set cs \<subseteq> set crockford" and "set ds \<subseteq> set crockford"
  shows "bytes_map (crocfordMap upper) (cs @ [45] @ ds) = cs @ ds"
proof -
  let ?f = "\<lambda>b :: u8. case crocfordMap upper (unat b) of None \<Rightarrow> [] | Some r \<Rightarrow> encode_rune r"
  have a: "\<forall>b \<in> set cs. b < 128" "\<forall>b \<in> set ds. b < 128"
    using assms c32.alphabet_ascii by auto
  then have "bytes_map (crocfordMap upper) (cs @ [45] @ ds)
      = concat (map ?f cs) @ ?f 45 @ concat (map ?f ds)"
    by (subst bytes_map_ascii) auto
  also have "?f 45 = []" by (simp add: crocfordMap_dash)
  finally show ?thesis
    using bytes_map_ascii [OF a(1), of "crocfordMap upper"]
      bytes_map_ascii [OF a(2), of "crocfordMap upper"] bytes_map_alphabet assms by simp
qed

section \<open>Parsing and printing keys\<close>

lemma UnmarshalText_decode:
  assumes "length text = 8 \<or> length text = 9 \<and> text ! 4 = 45"
  shows "Key_UnmarshalText upper text =
    (case b32_decode crockford 5 (bytes_map (crocfordMap upper) text) of
       None \<Rightarrow> None
     | Some (Inl CorruptInput) \<Rightarrow> Some (Inl (Leaf (Opaque ''illegal base32 data'')))
     | Some (Inr decoded) \<Rightarrow> Some (Key_UnmarshalBinary decoded))"
  using assms by (auto simp: Key_UnmarshalText_def KeySize_def)

lemma UnmarshalText_guard:
  "\<not> (length text = 8 \<or> length text = 9 \<and> text ! 4 = 45) \<Longrightarrow>
   \<exists>e. Key_UnmarshalText upper text = Some (Inl e)"
  by (auto simp: Key_UnmarshalText_def)

lemma mapped_ascii_count:
  assumes "length text = 8 \<or> length text = 9 \<and> text ! 4 = 45"
  shows "length (filter (\<lambda>b. b < 128) (bytes_map (crocfordMap upper) text)) \<le> 8"
proof -
  have "length (filter (\<lambda>b. b \<noteq> 45) text) \<le> 8"
  proof (cases "length text = 8")
    case True
    then show ?thesis by (metis length_filter_le)
  next
    case False
    with assms have l: "length text = 9" and "text ! 4 = 45" by simp_all
    then have "45 \<in> set text" using nth_mem [of 4 "text"] by simp
    then have "length (filter (\<lambda>b. b \<noteq> 45) text) < 9"
      using length_filter_less [of 45 "text" "\<lambda>b. b \<noteq> 45"] l by auto
    then show ?thesis by simp
  qed
  then show ?thesis
    using bytes_map_ascii_count [of "crocfordMap upper" "text", OF crocfordMap_dash] by linarith
qed

text \<open>The text form with the dash that \<open>MarshalText\<close> inserts.\<close>

definition dashed :: "bytes \<Rightarrow> bytes" where
  "dashed cs = take 4 cs @ [45] @ drop 4 cs"

lemma Key_String_dashed: "Key_String k = dashed (b32_encode crockford (key_bytes k))"
  by (simp add: Key_String_def Key_MarshalText_def dashed_def Let_def)

lemma parse_canonical:
  assumes "length cs = 8" and "set cs \<subseteq> set crockford"
  shows "bytes_map (crocfordMap upper) (dashed cs) = cs"
    and "bytes_map (crocfordMap upper) cs = cs"
proof -
  have "set (take 4 cs) \<subseteq> set crockford" "set (drop 4 cs) \<subseteq> set crockford"
    using assms(2) set_take_subset set_drop_subset by fastforce+
  from bytes_map_dashed [OF this] show "bytes_map (crocfordMap upper) (dashed cs) = cs"
    by (simp add: dashed_def)
  show "bytes_map (crocfordMap upper) cs = cs"
    by (rule bytes_map_alphabet [OF assms(2)])
qed

lemma parse_print: "ParseKey upper (Key_String k) = Some (Inr k)"
proof -
  let ?e = "b32_encode crockford (key_bytes k)"
  have "length (dashed ?e) = 9 \<and> dashed ?e ! 4 = 45" by (simp add: dashed_def nth_append)
  then have "Key_UnmarshalText upper (dashed ?e) =
    (case b32_decode crockford 5 ?e of None \<Rightarrow> None
     | Some (Inl CorruptInput) \<Rightarrow> Some (Inl (Leaf (Opaque ''illegal base32 data'')))
     | Some (Inr decoded) \<Rightarrow> Some (Key_UnmarshalBinary decoded))"
    using parse_canonical(1) [OF c32.length_encode c32.encode_subset]
    by (subst UnmarshalText_decode) auto
  also have "\<dots> = Some (Inr k)" by (simp add: c32.decode_encode UnmarshalBinary_ok)
  finally show ?thesis by (simp add: ParseKey_def Key_String_dashed)
qed

section \<open>Properties\<close>

text \<open>
  The text form of a key parses back to the key: \<open>ParseKey (k.String())\<close> returns \<open>k\<close> for
  every key, with the dash the printer inserts.
\<close>
theorem key_parse_print: "ParseKey upper (Key_String k) = Some (Inr k)"
  by (rule parse_print)

text \<open>
  Parsing a key is total on untrusted input: for any byte string, of any length and
  encoding (invalid UTF-8 included), \<open>ParseKey\<close> returns a key or an error and never writes
  past the five-byte buffer it decodes into.
\<close>
theorem key_parse_never_panics: "ParseKey upper text \<noteq> None"
proof (cases "length text = 8 \<or> length text = 9 \<and> text ! 4 = 45")
  case True
  have "b32_decode crockford 5 (bytes_map (crocfordMap upper) text) \<noteq> None"
    by (rule c32.decode_no_panic [OF mapped_ascii_count [OF True]])
  then show ?thesis
    by (auto simp: ParseKey_def UnmarshalText_decode [OF True] split: sum.split codec_error.split)
next
  case False
  then show ?thesis using UnmarshalText_guard [OF False] by (auto simp: ParseKey_def)
qed

text \<open>
  A text that parses prints back as its canonical form: if \<open>ParseKey\<close> accepts a text,
  then printing the key gives that text with separators dropped, letters in upper case, the
  look-alikes \<open>o\<close> and \<open>l\<close> replaced by \<open>0\<close> and \<open>1\<close>, and a dash in the middle. So two texts
  parse to the same key exactly when their canonical forms agree.
\<close>
theorem key_print_parse:
  assumes "ParseKey upper text = Some (Inr k)"
  shows "Key_String k = dashed (bytes_map (crocfordMap upper) text)"
proof -
  let ?m = "bytes_map (crocfordMap upper) text"
  have g: "length text = 8 \<or> length text = 9 \<and> text ! 4 = 45"
    using assms UnmarshalText_guard [of "text" upper] by (auto simp: ParseKey_def)
  with assms obtain bs where d: "b32_decode crockford 5 ?m = Some (Inr bs)"
    and "Key_UnmarshalBinary bs = Inr k"
    by (auto simp: ParseKey_def UnmarshalText_decode split: option.splits sum.splits codec_error.splits)
  then have bs: "length bs = 5" "key_bytes k = bs"
    using UnmarshalBinary_Inr key_bytes_key_copy by blast+
  have s: "strip_newlines ?m = b32_encode crockford bs" by (rule c32.decode_Inr [OF d bs(1)])
  have "length ?m \<le> 8"
  proof -
    have "\<forall>b \<in> set (strip_newlines ?m). b < 128"
      using c32.encode_subset c32.alphabet_ascii unfolding s by blast
    then have "\<forall>b \<in> set ?m. b < 128"
      by (auto simp: strip_newlines_def is_newline_def)
    then have "filter (\<lambda>b. b < 128) ?m = ?m" by simp
    with mapped_ascii_count [OF g, of upper] show ?thesis by simp
  qed
  moreover have "length (strip_newlines ?m) = 8" by (simp add: s)
  ultimately have "strip_newlines ?m = ?m"
    unfolding strip_newlines_def by (metis filter_id_conv length_filter_less not_less)
  with s bs show ?thesis by (simp add: Key_String_dashed)
qed

text \<open>The spelling \<open>ol234567\<close> is the key \<open>0123-4567\<close>.\<close>

lemma parse_ol234567:
  "ParseKey id (ascii ''ol234567'') = Some (Inr (Key 0 68 50 20 199))"
proof -
  have m: "bytes_map (crocfordMap id) (ascii ''ol234567'') = ascii ''01234567''"
    by (subst bytes_map_ascii)
      (simp_all add: ascii_def crocfordMap_def toUpper_def encode_rune_def encode_valid_def mk_byte_def)
  have e: "ascii ''01234567'' = b32_encode crockford (key_bytes (Key 0 68 50 20 199))"
    by (simp add: b32_encode_def of_bytes_def undigits_def digits_numeral crockford_def ascii_def)
  show ?thesis unfolding ParseKey_def
    by (subst UnmarshalText_decode)
      (simp_all only: m e c32.decode_encode length_key_bytes option.case sum.case
        UnmarshalBinary_ok key_copy_key_bytes, simp add: ascii_def)
qed

theorem key_print_parse_witness:
  "Key_String (Key 0 68 50 20 199) = dashed (bytes_map (crocfordMap id) (ascii ''ol234567''))"
  by (rule key_print_parse [OF parse_ol234567])

text \<open>
  The text form of a token parses back to the token, for every array of 37 bytes.
\<close>
theorem token_parse_print:
  assumes "length t = TokenSize"
  shows "ParseToken (Token_String t) = Inr t"
  using assms
  by (simp add: ParseToken_def Token_UnmarshalText_def Token_String_def u64a.decode_encode)

theorem token_parse_print_witness:
  "ParseToken (Token_String (replicate 37 7)) = Inr (replicate 37 7)"
  by (rule token_parse_print) (simp add: TokenSize_def KeySize_def)

text \<open>A token is its key followed by the code for the key.\<close>

lemma VerifyToken_NewToken:
  assumes "length t = TokenSize"
  shows "VerifyToken secret t \<longleftrightarrow> t = NewToken (Token_Key t) secret"
proof -
  have k: "key_bytes (Token_Key t) = take 5 t"
    using assms by (simp add: Token_Key_def KeySize_def TokenSize_def key_bytes_key_copy)
  have "t = take 5 t @ drop 5 t" by simp
  then show ?thesis
    unfolding VerifyToken_def NewToken_def k KeySize_def by (metis append_same_eq same_append_eq)
qed

lemma ParseToken_length: "ParseToken txt = Inr t \<Longrightarrow> length t = TokenSize"
  by (auto simp: ParseToken_def Token_UnmarshalText_def split: sum.splits if_splits codec_error.splits)

text \<open>
  C6. Exactly one signature verifies per key and secret: a 37-byte token is accepted under a
  secret if and only if it is the token \<open>NewToken\<close> issues for the key it carries.
\<close>
theorem verify_iff_issued:
  assumes "length t = TokenSize"
  shows "VerifyToken secret t \<longleftrightarrow> t = NewToken (Token_Key t) secret"
  using assms by (rule VerifyToken_NewToken)

theorem verify_iff_issued_witness:
  "VerifyToken [1, 2] (NewToken (Key 1 2 3 4 5) [1, 2]) \<longleftrightarrow>
   NewToken (Key 1 2 3 4 5) [1, 2] = NewToken (Token_Key (NewToken (Key 1 2 3 4 5) [1, 2])) [1, 2]"
  by (rule verify_iff_issued) (simp add: NewToken_def TokenSize_def KeySize_def)

lemma Token_Key_NewToken: "Token_Key (NewToken j s) = j"
  by (simp add: Token_Key_def NewToken_def KeySize_def)

lemma parse_NewToken: "ParseToken (Token_String (NewToken k secret)) = Inr (NewToken k secret)"
proof -
  have "length (NewToken k secret) = TokenSize"
    by (simp add: NewToken_def TokenSize_def KeySize_def)
  then show ?thesis
    by (simp add: ParseToken_def Token_UnmarshalText_def Token_String_def u64a.decode_encode)
qed

lemma verify_NewToken: "VerifyToken secret (NewToken k secret)"
  by (simp add: VerifyToken_def NewToken_def KeySize_def)

text \<open>
  C7. A client and a server that share the secret agree: the header text of an issued token
  parses, verifies, and yields the key it was issued for, and a token issued for another key
  never yields this one.
\<close>
theorem issued_token_accepted:
  "\<exists>t. ParseToken (Token_String (NewToken k secret)) = Inr t \<and> VerifyToken secret t \<and>
     Token_Key t = k \<and> (Token_Key (NewToken k' secret') = k) = (k' = k)"
  using Token_Key_NewToken parse_NewToken verify_NewToken by auto

text \<open>
  The binary form does not round-trip for the zero key: \<open>MarshalBinary\<close> writes nothing for
  it and \<open>UnmarshalBinary\<close> refuses what was written; every other key is read back.
\<close>
lemma key_binary_round_trip:
  "Key_UnmarshalBinary (Key_MarshalBinary k) =
     (if k = zero_key then Inl (Leaf (InvalidLengthError 0)) else Inr k)"
  by (simp add: Key_MarshalBinary_def Key_UnmarshalBinary_def KeySize_def)

text \<open>
  A database column round-trips every key: \<open>Scan\<close> of what \<open>Value\<close> stores gives the key
  back, whatever key was there before, and a NULL column leaves it as it was.
\<close>
lemma key_sql_round_trip:
  "Key_Scan upper old (Key_Value k) = Some (Inr k) \<and> Key_Scan upper old SqlNil = Some (Inr old)"
  by (simp add: Key_Value_def parse_print flip: ParseKey_def)

text \<open>
  The letter I is not read as the digit one: of the look-alikes of Crockford's base 32 the
  code maps \<open>o\<close>, \<open>O\<close>, \<open>l\<close> and \<open>L\<close>, while a code spelt with \<open>I\<close> is refused.
\<close>
lemma key_letter_i_refused:
  "ParseKey upper (ascii ''0I234567'') = Some (Inl (Leaf (Opaque ''illegal base32 data'')))"
proof -
  have "bytes_map (crocfordMap upper) (ascii ''0I234567'') = ascii ''0I234567''"
    by (subst bytes_map_ascii)
      (simp_all add: ascii_def crocfordMap_def toUpper_def encode_rune_def encode_valid_def mk_byte_def)
  then show ?thesis
    by (simp add: ParseKey_def Key_UnmarshalText_def KeySize_def b32_decode_def strip_newlines_def
        is_newline_def ascii_def crockford_def pad_char_def Let_def)
qed

end
