(* ===== verification/Session_CA.thy ===== *)
theory Session_CA
  imports Auth
begin

text \<open>
  The certificate authority of \<^verbatim>\<open>internal/registar/ca.go\<close>: a root, one intermediate CA per game
  key, and leaf certificates for the peers of a game. Signatures are symbolic: a certificate
  records the key it certifies and the key that signed it, keys are numbers, and a
  certificate verifies under another exactly when the latter certifies the signing key. The
  random source, key generation and encoding may fail; their results are an argument. Times
  are in seconds, and each reading of the clock is separate.
\<close>

section \<open>Certificates\<close>

record cert =
  serial :: nat
  notBefore :: int
  notAfter :: int
  certSign :: bool
  extClientAuth :: bool
  extServerAuth :: bool
  subject :: string
  sans :: "string list"
  pub :: nat
  issuer :: string
  signer :: nat

record csr =
  csr_sig :: error
  csr_subject :: string
  csr_sans :: "string list"
  csr_pub :: nat

definition valid_at :: "cert \<Rightarrow> int \<Rightarrow> bool" where
  "valid_at c t \<longleftrightarrow> notBefore c \<le> t \<and> t \<le> notAfter c"

text \<open>
  What a peer that trusts \<open>ca\<close> checks of \<open>c\<close> in a handshake: every certificate of the chain,
  the trusted one included, is valid at that time, and the leaf may act in both roles.
\<close>

definition verifies :: "cert \<Rightarrow> cert \<Rightarrow> int \<Rightarrow> bool" where
  "verifies ca c t \<longleftrightarrow>
     certSign ca \<and> signer c = pub ca \<and> issuer c = subject ca \<and>
     extClientAuth c \<and> extServerAuth c \<and> valid_at ca t \<and> valid_at c t"

text \<open>What the environment answers while a certificate is made.\<close>

record ca_env =
  rand_serial :: "err + nat"
  gen_key :: "err + nat"
  create_err :: error
  parse_err :: error
  now_before :: int
  now_after :: int

definition hour :: int where "hour = 3600"
definition day :: int where "day = 24 * hour"

section \<open>RootCA\<close>

record RootCA =
  root_cert :: cert
  root_key :: nat

definition ca_cert :: "string \<Rightarrow> nat \<Rightarrow> nat \<Rightarrow> string \<Rightarrow> nat \<Rightarrow> ca_env \<Rightarrow> cert" where
  "ca_cert subj ser k iss sk env =
     \<lparr>serial = ser, notBefore = now_before env, notAfter = now_after env + hour, certSign = True,
      extClientAuth = False, extServerAuth = False, subject = subj, sans = [], pub = k,
      issuer = iss, signer = sk\<rparr>"

text \<open>The common part of \<open>NewRootCA\<close> and \<open>NewSessionCA\<close>, up to who signs.\<close>

definition make_ca :: "string \<Rightarrow> (nat \<Rightarrow> string \<times> nat) \<Rightarrow> ca_env \<Rightarrow> err + (cert \<times> nat)" where
  "make_ca subj sign env =
     (case rand_serial env of
        Inl e \<Rightarrow> Inl (Wrap ''generate serial number'' e)
      | Inr ser \<Rightarrow>
          (case gen_key env of
             Inl e \<Rightarrow> Inl (Wrap ''generate private key'' e)
           | Inr k \<Rightarrow>
               (case create_err env of
                  Some e \<Rightarrow> Inl (Wrap ''create certificate'' e)
                | None \<Rightarrow>
                    (case parse_err env of
                       Some e \<Rightarrow> Inl (Wrap ''parse certificate'' e)
                     | None \<Rightarrow> (let (iss, sk) = sign k in Inr (ca_cert subj ser k iss sk env, k))))))"

definition NewRootCA :: "ca_env \<Rightarrow> err + RootCA" where
  "NewRootCA env =
     (case make_ca ''Registar'' (\<lambda>k. (''Registar'', k)) env of
        Inl e \<Rightarrow> Inl e
      | Inr (c, k) \<Rightarrow> Inr \<lparr>root_cert = c, root_key = k\<rparr>)"

record SessionCA =
  sca_cert :: cert
  sca_key :: nat

definition NewSessionCA :: "RootCA \<Rightarrow> ca_env \<Rightarrow> err + SessionCA" where
  "NewSessionCA r env =
     (case make_ca ''Registar Intermediate CA'' (\<lambda>_. (subject (root_cert r), root_key r)) env of
        Inl e \<Rightarrow> Inl e
      | Inr (c, k) \<Rightarrow> Inr \<lparr>sca_cert = c, sca_key = k\<rparr>)"

section \<open>SessionCA\<close>

definition NewCert :: "SessionCA \<Rightarrow> csr \<Rightarrow> ca_env \<Rightarrow> err + cert" where
  "NewCert s csr env =
     (case csr_sig csr of
        Some e \<Rightarrow> Inl (Wrap ''check signature'' e)
      | None \<Rightarrow>
          (case rand_serial env of
             Inl e \<Rightarrow> Inl (Wrap ''generate serial number'' e)
           | Inr ser \<Rightarrow>
               (case create_err env of
                  Some e \<Rightarrow> Inl (Wrap ''create certificate'' e)
                | None \<Rightarrow>
                    Inr \<lparr>serial = ser, notBefore = now_before env, notAfter = now_after env + 7 * day,
                         certSign = False, extClientAuth = True, extServerAuth = True,
                         subject = csr_subject csr, sans = csr_sans csr, pub = csr_pub csr,
                         issuer = subject (sca_cert s), signer = sca_key s\<rparr>)))"

section \<open>Authority\<close>

record authority =
  root :: RootCA
  sessionsCA :: "key \<rightharpoonup> SessionCA"

definition NewAuthority :: "RootCA \<Rightarrow> authority" where
  "NewAuthority r = \<lparr>root = r, sessionsCA = Map.empty\<rparr>"

text \<open>The second environment is that of the leaf certificate.\<close>

definition issue_with :: "SessionCA \<Rightarrow> csr \<Rightarrow> ca_env \<Rightarrow> err + (cert \<times> cert)" where
  "issue_with ca csr env =
     (case NewCert ca csr env of
        Inl e \<Rightarrow> Inl (Wrap ''create certificate'' e)
      | Inr c \<Rightarrow>
          (case parse_err env of
             Some e \<Rightarrow> Inl (Wrap ''parse certificate'' e)
           | None \<Rightarrow> Inr (sca_cert ca, c)))"

definition NewSessionCert ::
  "key \<Rightarrow> csr \<Rightarrow> ca_env \<Rightarrow> ca_env \<Rightarrow> authority \<Rightarrow> (err + (cert \<times> cert)) \<times> authority" where
  "NewSessionCert key csr caenv env a =
     (case sessionsCA a key of
        Some ca \<Rightarrow> (issue_with ca csr env, a)
      | None \<Rightarrow>
          (case NewSessionCA (root a) caenv of
             Inl e \<Rightarrow> (Inl (Wrap ''create session CA'' e), a)
           | Inr sca \<Rightarrow> (issue_with sca csr env, a\<lparr>sessionsCA := (sessionsCA a)(key \<mapsto> sca)\<rparr>)))"

definition RemoveSessionCA :: "key \<Rightarrow> authority \<Rightarrow> authority" where
  "RemoveSessionCA key a = a\<lparr>sessionsCA := (sessionsCA a)(key := None)\<rparr>"

section \<open>Invariant\<close>

text \<open>Every session CA holds the private key of its own certificate and is signed by the root.\<close>

definition sca_ok :: "RootCA \<Rightarrow> SessionCA \<Rightarrow> bool" where
  "sca_ok r s \<longleftrightarrow> pub (sca_cert s) = sca_key s \<and> signer (sca_cert s) = root_key r \<and>
     issuer (sca_cert s) = subject (root_cert r) \<and> certSign (sca_cert s)"

definition authority_inv :: "authority \<Rightarrow> bool" where
  "authority_inv a \<longleftrightarrow> (\<forall>key s. sessionsCA a key = Some s \<longrightarrow> sca_ok (root a) s)"

lemma NewSessionCA_ok: "NewSessionCA r env = Inr s \<Longrightarrow> sca_ok r s"
  by (auto simp: NewSessionCA_def make_ca_def ca_cert_def sca_ok_def
      split: sum.splits option.splits)

lemma NewSessionCA_validity:
  "NewSessionCA r env = Inr s \<Longrightarrow>
   notBefore (sca_cert s) = now_before env \<and> notAfter (sca_cert s) = now_after env + hour"
  by (auto simp: NewSessionCA_def make_ca_def ca_cert_def split: sum.splits option.splits)

lemma authority_inv_new: "authority_inv (NewAuthority r)"
  by (simp add: authority_inv_def NewAuthority_def)

lemma NewSessionCert_root [simp]:
  "root (snd (NewSessionCert key csr caenv env a)) = root a"
  by (auto simp: NewSessionCert_def split: option.splits sum.splits)

lemma authority_inv_cert: "authority_inv a \<Longrightarrow> authority_inv (snd (NewSessionCert key csr caenv env a))"
  by (auto simp: authority_inv_def NewSessionCert_def dest: NewSessionCA_ok
      split: option.splits sum.splits)

lemma authority_inv_remove: "authority_inv a \<Longrightarrow> authority_inv (RemoveSessionCA key a)"
  by (auto simp: authority_inv_def RemoveSessionCA_def)

text \<open>What a successful call returns: the session's CA afterwards, and a leaf it signed.\<close>

lemma issue_with_Inr:
  "issue_with s csr env = Inr (ca, c) \<Longrightarrow>
   ca = sca_cert s \<and> signer c = sca_key s \<and> issuer c = subject ca \<and> pub c = csr_pub csr \<and>
   subject c = csr_subject csr \<and> sans c = csr_sans csr \<and> \<not> certSign c \<and>
   extClientAuth c \<and> extServerAuth c \<and>
   notBefore c = now_before env \<and> notAfter c = now_after env + 7 * day \<and> csr_sig csr = None"
  by (auto simp: issue_with_def NewCert_def split: sum.splits option.splits)

lemma NewSessionCert_Inr:
  assumes "NewSessionCert key csr caenv env a = (Inr (ca, c), a')"
  shows "\<exists>s. sessionsCA a' key = Some s \<and> issue_with s csr env = Inr (ca, c) \<and>
    (sessionsCA a key = Some s \<or> sessionsCA a key = None \<and> NewSessionCA (root a) caenv = Inr s)"
  using assms by (auto simp: NewSessionCert_def split: option.splits sum.splits)

section \<open>Properties\<close>

text \<open>
  Trust inside a session: whenever \<open>NewSessionCert\<close> succeeds, the leaf was signed by the
  returned CA and carries the subject, names and key of a request whose signature checked;
  the CA is signed by the root; the leaf cannot sign further certificates; and every other
  certificate issued for the same key, as long as the session CA is not removed, verifies
  under that same CA at any time at which both are valid.
\<close>
theorem session_certs_chain:
  assumes "authority_inv a"
    and "NewSessionCert key csr caenv env a = (Inr (ca, c), a')"
    and "NewSessionCert key csr2 caenv2 env2 a' = (Inr (ca2, c2), a'')"
    and "valid_at ca t" and "valid_at c t" and "valid_at c2 t"
  shows "verifies ca c t \<and> verifies ca c2 t \<and> ca2 = ca \<and> signer ca = root_key (root a) \<and>
    csr_sig csr = None \<and> pub c = csr_pub csr \<and> subject c = csr_subject csr \<and> \<not> certSign c"
proof -
  obtain s where s: "sessionsCA a' key = Some s" "issue_with s csr env = Inr (ca, c)"
    using NewSessionCert_Inr [OF assms(2)] by blast
  have "authority_inv a'" using authority_inv_cert [OF assms(1)] assms(2) by (metis snd_conv)
  moreover have "root a' = root a" using NewSessionCert_root assms(2) by (metis snd_conv)
  ultimately have ok: "sca_ok (root a) s" using s by (metis authority_inv_def)
  have "issue_with s csr2 env2 = Inr (ca2, c2)"
    using NewSessionCert_Inr [OF assms(3)] s(1) by auto
  with issue_with_Inr [OF s(2)] ok assms(4,5,6) show ?thesis
    by (auto simp: verifies_def sca_ok_def dest: issue_with_Inr)
qed


text \<open>
  A long session cannot admit peers: the session CA is valid for one hour, leaves for
  seven days. Once the hour is over \<open>NewSessionCert\<close> still succeeds for the key, with the
  expired CA, and no certificate of that session verifies any more, then or later.
\<close>
theorem session_ca_expires:
  assumes "NewSessionCA (root a) caenv = Inr s" and "sessionsCA a key = Some s"
    and "now_after caenv + hour < t" and "issue_with s csr env = Inr (ca, c)"
  shows "fst (NewSessionCert key csr caenv2 env a) = Inr (ca, c) \<and> \<not> verifies ca c t"
  using assms NewSessionCA_validity [OF assms(1)]
  by (auto simp: NewSessionCert_def verifies_def valid_at_def dest!: issue_with_Inr)

section \<open>A concrete session\<close>

text \<open>The environment that hands out key \<open>k\<close> at time \<open>t\<close>, a root, a request, two games.\<close>

definition env_at :: "nat \<Rightarrow> int \<Rightarrow> ca_env" where
  "env_at k t = \<lparr>rand_serial = Inr 5, gen_key = Inr k, create_err = None, parse_err = None,
     now_before = t, now_after = t\<rparr>"

definition root0 :: RootCA where
  "root0 = \<lparr>root_cert = ca_cert ''Registar'' 5 1 ''Registar'' 1 (env_at 1 0), root_key = 1\<rparr>"

definition sca_of :: "nat \<Rightarrow> int \<Rightarrow> SessionCA" where
  "sca_of k t = \<lparr>sca_cert = ca_cert ''Registar Intermediate CA'' 5 k ''Registar'' 1 (env_at k t), sca_key = k\<rparr>"

definition csr0 :: csr where
  "csr0 = \<lparr>csr_sig = None, csr_subject = ''peer'', csr_sans = [], csr_pub = 77\<rparr>"

definition leaf_of :: "nat \<Rightarrow> int \<Rightarrow> cert" where
  "leaf_of k t = \<lparr>serial = 5, notBefore = t, notAfter = t + 7 * day, certSign = False,
     extClientAuth = True, extServerAuth = True, subject = ''peer'', sans = [], pub = 77,
     issuer = ''Registar Intermediate CA'', signer = k\<rparr>"

definition gameA :: key where "gameA = Key 1 0 0 0 0"
definition gameB :: key where "gameB = Key 2 0 0 0 0"

lemma env_at_simps [simp]:
  "gen_key (env_at k t) = Inr k" "now_before (env_at k t) = t" "now_after (env_at k t) = t"
  by (simp_all add: env_at_def)

lemma games_differ [simp]: "gameA \<noteq> gameB" "gameB \<noteq> gameA"
  by (simp_all add: gameA_def gameB_def)

lemma root0_made: "NewRootCA (env_at 1 0) = Inr root0"
  by (simp add: NewRootCA_def make_ca_def env_at_def root0_def)

lemma session0: "NewSessionCA root0 (env_at k t) = Inr (sca_of k t)"
  by (simp add: NewSessionCA_def make_ca_def env_at_def root0_def sca_of_def ca_cert_def)

lemma issue0: "issue_with (sca_of k t) csr0 (env_at j u) = Inr (sca_cert (sca_of k t), leaf_of k u)"
  by (simp add: issue_with_def NewCert_def env_at_def csr0_def sca_of_def ca_cert_def leaf_of_def)

definition auth1 :: authority where
  "auth1 = \<lparr>root = root0, sessionsCA = [gameA \<mapsto> sca_of 2 0]\<rparr>"

lemma cert_first:
  "NewSessionCert gameA csr0 (env_at 2 0) (env_at 0 0) (NewAuthority root0) =
     (Inr (sca_cert (sca_of 2 0), leaf_of 2 0), auth1)"
  by (simp add: NewSessionCert_def NewAuthority_def session0 issue0 auth1_def)

lemma cert_second:
  "NewSessionCert gameA csr0 (env_at 9 60) (env_at 0 60) auth1 =
     (Inr (sca_cert (sca_of 2 0), leaf_of 2 60), auth1)"
  by (simp add: NewSessionCert_def auth1_def issue0)

lemma cert_other:
  "NewSessionCert gameB csr0 (env_at 3 0) (env_at 0 0) auth1 =
     (Inr (sca_cert (sca_of 3 0), leaf_of 3 0), auth1\<lparr>sessionsCA := (sessionsCA auth1)(gameB \<mapsto> sca_of 3 0)\<rparr>)"
  by (simp add: NewSessionCert_def auth1_def session0 issue0 gameA_def gameB_def)

theorem session_certs_chain_witness:
  "verifies (sca_cert (sca_of 2 0)) (leaf_of 2 0) 60 \<and> verifies (sca_cert (sca_of 2 0)) (leaf_of 2 60) 60 \<and>
   sca_cert (sca_of 2 0) = sca_cert (sca_of 2 0) \<and>
   signer (sca_cert (sca_of 2 0)) = root_key (root (NewAuthority root0)) \<and>
   csr_sig csr0 = None \<and> pub (leaf_of 2 0) = csr_pub csr0 \<and> subject (leaf_of 2 0) = csr_subject csr0 \<and>
   \<not> certSign (leaf_of 2 0)"
  by (rule session_certs_chain [OF authority_inv_new cert_first cert_second])
    (simp_all add: valid_at_def sca_of_def ca_cert_def env_at_def leaf_of_def day_def hour_def)


theorem session_ca_expires_witness:
  "fst (NewSessionCert gameA csr0 (env_at 9 4000) (env_at 0 4000) auth1) =
     Inr (sca_cert (sca_of 2 0), leaf_of 2 4000) \<and>
   \<not> verifies (sca_cert (sca_of 2 0)) (leaf_of 2 4000) 4001"
  by (rule session_ca_expires [of auth1 "env_at 2 0", OF _ _ _ issue0])
    (simp_all add: auth1_def session0 hour_def)

end
