(* ===== verification/Http_Model.thy ===== *)
theory Http_Model
  imports Go_Errors Go_Codec
begin

text \<open>
  HTTP as the sources see it through \<open>net/http\<close>: requests as parsed values, a handler as the
  sequence of calls it makes on its \<open>ResponseWriter\<close>, and the writer of the standard library,
  which turns such a sequence into a response. The text of HTTP/1.1 on the wire is the
  standard library's business and is not part of the model. The second part is
  \<^verbatim>\<open>internal/platform/httpplatform/error.go\<close>.
\<close>

section \<open>Requests and responses\<close>

record http_request =
  http_method :: string
  url_path :: string
  http_header :: "string \<Rightarrow> string"    \<comment> \<open>\<open>Header.Get\<close>: empty when missing\<close>

record http_response =
  resp_status :: int
  resp_header :: "string \<rightharpoonup> string"
  resp_body :: bytes

datatype rw_call = SetHeader string string | DelHeader string | WriteHeader int | Write bytes

definition StatusOK :: int where "StatusOK = 200"
definition StatusBadRequest :: int where "StatusBadRequest = 400"
definition StatusUnauthorized :: int where "StatusUnauthorized = 401"
definition StatusForbidden :: int where "StatusForbidden = 403"
definition StatusNotFound :: int where "StatusNotFound = 404"
definition StatusMethodNotAllowed :: int where "StatusMethodNotAllowed = 405"
definition StatusPreconditionFailed :: int where "StatusPreconditionFailed = 412"
definition StatusTooManyRequests :: int where "StatusTooManyRequests = 429"
definition StatusInternalServerError :: int where "StatusInternalServerError = 500"

lemmas status_defs = StatusOK_def StatusBadRequest_def StatusUnauthorized_def StatusForbidden_def
  StatusNotFound_def StatusMethodNotAllowed_def StatusPreconditionFailed_def
  StatusTooManyRequests_def StatusInternalServerError_def

text \<open>\<open>http.Error\<close>.\<close>

definition http_Error :: "bytes \<Rightarrow> int \<Rightarrow> rw_call list" where
  "http_Error msg code =
     [DelHeader ''Content-Length'', SetHeader ''Content-Type'' ''text/plain; charset=utf-8'',
      SetHeader ''X-Content-Type-Options'' ''nosniff'', WriteHeader code, Write (msg @ [10])]"

section \<open>The standard library's writer\<close>

text \<open>The first status counts, headers set after it are not sent, a body starts with 200.\<close>

record std_writer =
  w_status :: int     \<comment> \<open>0 until the header is written\<close>
  w_header :: "string \<rightharpoonup> string"
  w_sent :: "string \<rightharpoonup> string"
  w_body :: bytes

definition std_writer0 :: std_writer where
  "std_writer0 = \<lparr>w_status = 0, w_header = Map.empty, w_sent = Map.empty, w_body = []\<rparr>"

fun std_call :: "std_writer \<Rightarrow> rw_call \<Rightarrow> std_writer" where
  "std_call w (SetHeader k v) = w\<lparr>w_header := (w_header w)(k \<mapsto> v)\<rparr>"
| "std_call w (DelHeader k) = w\<lparr>w_header := (w_header w)(k := None)\<rparr>"
| "std_call w (WriteHeader s) =
     (if w_status w = 0 then w\<lparr>w_status := s, w_sent := w_header w\<rparr> else w)"
| "std_call w (Write b) =
     (let w' = (if w_status w = 0 then w\<lparr>w_status := StatusOK, w_sent := w_header w\<rparr> else w)
      in w'\<lparr>w_body := w_body w' @ b\<rparr>)"

definition std_run :: "rw_call list \<Rightarrow> std_writer" where
  "std_run cs = foldl std_call std_writer0 cs"

definition std_respond :: "rw_call list \<Rightarrow> http_response" where
  "std_respond cs =
     (let w = std_run cs in
      if w_status w = 0 then \<lparr>resp_status = StatusOK, resp_header = w_header w, resp_body = []\<rparr>
      else \<lparr>resp_status = w_status w, resp_header = w_sent w, resp_body = w_body w\<rparr>)"

lemma std_run_append: "std_run (xs @ ys) = foldl std_call (std_run xs) ys"
  by (simp add: std_run_def)

lemma std_respond_Error:
  "code \<noteq> 0 \<Longrightarrow> resp_status (std_respond (http_Error m code)) = code"
  by (simp add: std_respond_def std_run_def std_writer0_def http_Error_def Let_def)

text \<open>Once a status is out it stays.\<close>

lemma std_status_stable: "w_status w \<noteq> 0 \<Longrightarrow> w_status (foldl std_call w cs) = w_status w"
proof (induction cs arbitrary: w)
  case (Cons c cs)
  then show ?case by (cases c) (auto simp: Let_def)
qed simp

section \<open>error.go\<close>

definition tryReadBody :: "bytes \<Rightarrow> bytes" where
  "tryReadBody body = take 256 body"

definition NewBadStatusCodeError :: "int \<Rightarrow> bytes \<Rightarrow> err" where
  "NewBadStatusCodeError code body = Leaf (BadStatusCodeError code (tryReadBody body))"

fun is_BadStatusCodeError :: "leaf \<Rightarrow> bool" where
  "is_BadStatusCodeError (BadStatusCodeError _ _) = True" | "is_BadStatusCodeError _ = False"

definition has_status :: "error \<Rightarrow> int \<Rightarrow> bool" where
  "has_status e code =
     (case errorsAs e is_BadStatusCodeError of Some (BadStatusCodeError c _) \<Rightarrow> c = code | _ \<Rightarrow> False)"

definition IsUnauthorized :: "error \<Rightarrow> bool" where
  "IsUnauthorized e = has_status e StatusUnauthorized"

definition IsNotFound :: "error \<Rightarrow> bool" where
  "IsNotFound e = has_status e StatusNotFound"

end
