(* ===== verification/Control_Channel.thy ===== *)
theory Control_Channel
  imports Http_Model Netip
begin

text \<open>
  The control channel between the registar and the agents: \<^verbatim>\<open>internal/registar/control/\<close>.
  \<open>controller.go\<close> sends the commands \<open>ConnectTo\<close> and \<open>ConnectViaRelay\<close> as HTTP requests on a
  stream and reads one response; \<open>agent.go\<close> routes each request on the stream to a callback
  and writes the response. A request is its parsed form; its body is what decoding the JSON
  gives. The stream is a function from the request to what writing it and reading the
  response yield.
\<close>

section \<open>controller.go\<close>

definition ErrConnectFailed :: leaf where "ErrConnectFailed = Sentinel ''connect failed''"

record ConnectCommand =
  PublicAddress :: addr_port
  PrivateAddress :: addr_port

datatype body = NoBody | JSON ConnectCommand | Malformed string

record request =
  r_method :: string
  r_path :: string
  r_body :: body

datatype exchange = WriteFails err | ReadFails err | Answer http_response

definition StatusCodeConnectFailed :: int where
  "StatusCodeConnectFailed = StatusPreconditionFailed"

definition connect_request :: "ConnectCommand \<Rightarrow> request" where
  "connect_request cmd = \<lparr>r_method = ''POST'', r_path = ''/connect-to'', r_body = JSON cmd\<rparr>"

definition relay_request :: "string \<Rightarrow> request" where
  "relay_request sid = \<lparr>r_method = ''POST'', r_path = ''/relay/'' @ sid, r_body = NoBody\<rparr>"

definition ConnectTo :: "(request \<Rightarrow> exchange) \<Rightarrow> addr_port \<Rightarrow> addr_port \<Rightarrow> error" where
  "ConnectTo str public private =
     (case str (connect_request \<lparr>PublicAddress = public, PrivateAddress = private\<rparr>) of
        WriteFails e \<Rightarrow> errorf ''write request'' e
      | ReadFails e \<Rightarrow> errorf ''read response'' e
      | Answer resp \<Rightarrow>
          if resp_status resp \<noteq> StatusOK then
            (if resp_status resp = StatusCodeConnectFailed then Some (Leaf ErrConnectFailed)
             else Some (NewBadStatusCodeError (resp_status resp) (resp_body resp)))
          else None)"

definition ConnectViaRelay :: "(request \<Rightarrow> exchange) \<Rightarrow> string \<Rightarrow> error" where
  "ConnectViaRelay str sessionID =
     (case str (relay_request sessionID) of
        WriteFails e \<Rightarrow> errorf ''write request'' e
      | ReadFails e \<Rightarrow> errorf ''read response'' e
      | Answer resp \<Rightarrow>
          if resp_status resp \<noteq> StatusOK
          then Some (NewBadStatusCodeError (resp_status resp) (resp_body resp)) else None)"

section \<open>agent.go\<close>

text \<open>The writer of the agent: unlike the standard one, the last status counts.\<close>

record responseWriter =
  status :: int
  header :: "string \<rightharpoonup> string"
  rbody :: bytes

definition responseWriter0 :: responseWriter where
  "responseWriter0 = \<lparr>status = 0, header = Map.empty, rbody = []\<rparr>"

fun rw_apply :: "responseWriter \<Rightarrow> rw_call \<Rightarrow> responseWriter" where
  "rw_apply rw (SetHeader k v) = rw\<lparr>header := (header rw)(k \<mapsto> v)\<rparr>"
| "rw_apply rw (DelHeader k) = rw\<lparr>header := (header rw)(k := None)\<rparr>"
| "rw_apply rw (WriteHeader s) = rw\<lparr>status := s\<rparr>"
| "rw_apply rw (Write b) = rw\<lparr>rbody := rbody rw @ b\<rparr>"

definition rw_write :: "responseWriter \<Rightarrow> http_response" where
  "rw_write rw =
     \<lparr>resp_status = (if status rw = 0 then StatusOK else status rw),
      resp_header = header rw, resp_body = rbody rw\<rparr>"

text \<open>The callbacks an agent has registered; an error carries its message.\<close>

record agent =
  on_connect :: "(ConnectCommand \<Rightarrow> (bytes + bool)) option"
  on_relay :: "(string \<Rightarrow> bytes option) option"

definition NewAgent :: agent where "NewAgent = \<lparr>on_connect = None, on_relay = None\<rparr>"

definition OnConnectTo :: "(ConnectCommand \<Rightarrow> bytes + bool) \<Rightarrow> agent \<Rightarrow> agent" where
  "OnConnectTo f a = a\<lparr>on_connect := Some f\<rparr>"

definition OnConnectViaRelay :: "(string \<Rightarrow> bytes option) \<Rightarrow> agent \<Rightarrow> agent" where
  "OnConnectViaRelay f a = a\<lparr>on_relay := Some f\<rparr>"

definition handle_connect :: "(ConnectCommand \<Rightarrow> bytes + bool) \<Rightarrow> request \<Rightarrow> rw_call list" where
  "handle_connect f r =
     (case r_body r of
        JSON cmd \<Rightarrow>
          (case f cmd of
             Inl e \<Rightarrow> http_Error e StatusInternalServerError
           | Inr ok \<Rightarrow> if \<not> ok then [WriteHeader StatusCodeConnectFailed] else [WriteHeader StatusOK])
      | Malformed m \<Rightarrow> http_Error (ascii m) StatusBadRequest
      | NoBody \<Rightarrow> http_Error (ascii ''EOF'') StatusBadRequest)"

definition handle_relay :: "(string \<Rightarrow> bytes option) \<Rightarrow> string \<Rightarrow> rw_call list" where
  "handle_relay f sid =
     (case f sid of Some e \<Rightarrow> http_Error e StatusInternalServerError | None \<Rightarrow> [WriteHeader StatusOK])"

text \<open>
  The two patterns of the \<open>ServeMux\<close>: \<open>/connect-to\<close>, and \<open>/relay/\<close> followed by one non-empty
  segment. A path that matches with another method gets 405, any other 404.
\<close>

definition relay_segment :: "string \<Rightarrow> string option" where
  "relay_segment p =
     (if take 7 p = ''/relay/'' \<and> drop 7 p \<noteq> [] \<and> CHR ''/'' \<notin> set (drop 7 p)
      then Some (drop 7 p) else None)"

definition mux :: "agent \<Rightarrow> request \<Rightarrow> rw_call list" where
  "mux a r =
     (case (if r_path r = ''/connect-to'' then on_connect a else None) of
        Some f \<Rightarrow>
          if r_method r = ''POST'' then handle_connect f r
          else http_Error (ascii ''Method Not Allowed'') StatusMethodNotAllowed
      | None \<Rightarrow>
          (case (relay_segment (r_path r), on_relay a) of
             (Some sid, Some f) \<Rightarrow>
               if r_method r = ''POST'' then handle_relay f sid
               else http_Error (ascii ''Method Not Allowed'') StatusMethodNotAllowed
           | _ \<Rightarrow> http_Error (ascii ''404 page not found'') StatusNotFound))"

definition serve_one :: "agent \<Rightarrow> request \<Rightarrow> http_response" where
  "serve_one a r = rw_write (foldl rw_apply responseWriter0 (mux a r))"

text \<open>
  \<open>Serve\<close>: what reading requests yields, and for each response whether writing it fails.
  The result is the responses written and the error it ends with; \<open>None\<close> while it waits.
\<close>

fun Agent_Serve :: "agent \<Rightarrow> ((err + request) \<times> error) list \<Rightarrow> http_response list \<times> error" where
  "Agent_Serve a [] = ([], None)"
| "Agent_Serve a ((Inl e, _) # evs) = ([], errorf ''read request'' e)"
| "Agent_Serve a ((Inr r, Some e) # evs) = ([], errorf ''write response'' e)"
| "Agent_Serve a ((Inr r, None) # evs) =
     (let (out, e) = Agent_Serve a evs in (serve_one a r # out, e))"

section \<open>Properties\<close>

lemmas response_simps = rw_write_def responseWriter0_def http_Error_def status_defs
  StatusCodeConnectFailed_def NewBadStatusCodeError_def tryReadBody_def

lemma mux_connect: "mux (OnConnectTo f a) (connect_request cmd) = handle_connect f (connect_request cmd)"
  by (simp add: mux_def OnConnectTo_def connect_request_def)

lemma handle_connect_request:
  "handle_connect f (connect_request cmd) =
     (case f cmd of Inl e \<Rightarrow> http_Error e StatusInternalServerError
      | Inr ok \<Rightarrow> if \<not> ok then [WriteHeader StatusCodeConnectFailed] else [WriteHeader StatusOK])"
  by (simp add: handle_connect_def connect_request_def)

lemma mux_relay:
  "sid \<noteq> [] \<Longrightarrow> CHR ''/'' \<notin> set sid \<Longrightarrow>
   mux (OnConnectViaRelay f a) (relay_request sid) = handle_relay f sid"
  by (simp add: mux_def OnConnectViaRelay_def relay_request_def relay_segment_def)


definition relay_outcome :: "bytes option \<Rightarrow> error" where
  "relay_outcome r = (case r of None \<Rightarrow> None
     | Some m \<Rightarrow> Some (Leaf (BadStatusCodeError 500 (take 256 (m @ [10])))))"

text \<open>
  \<open>ConnectViaRelay\<close> delivers exactly the session id it was given, as long as that is a
  non-empty path segment, and reports the callback's outcome.
\<close>
theorem connect_via_relay_end_to_end:
  assumes "sid \<noteq> []" and "CHR ''/'' \<notin> set sid"
  shows "ConnectViaRelay (\<lambda>r. Answer (serve_one (OnConnectViaRelay f a) r)) sid = relay_outcome (f sid)"
  by (auto simp: ConnectViaRelay_def serve_one_def mux_relay [OF assms] handle_relay_def
      response_simps relay_outcome_def
      split: option.split)

theorem connect_via_relay_end_to_end_witness:
  "ConnectViaRelay (\<lambda>r. Answer (serve_one (OnConnectViaRelay (\<lambda>_. None) NewAgent) r)) ''0a1b''
   = relay_outcome ((\<lambda>_. None) ''0a1b'')"
  by (rule connect_via_relay_end_to_end) simp_all

text \<open>
  The agent answers requests one by one, in order: after \<open>n\<close> requests read and answered it
  has written the \<open>n\<close> responses of its handlers, and the first failing read ends the loop.
\<close>
theorem agent_serves_in_order:
  "Agent_Serve a (map (\<lambda>r. (Inr r, None)) rs @ [(Inl e, None)]) =
     (map (serve_one a) rs, errorf ''read request'' e)"
  by (induction rs) simp_all

end
