(* ===== verification/Relay_Sessions.thy ===== *)
theory Relay_Sessions
  imports Go_Errors
begin

text \<open>
  The datagram relay of the registar: \<open>Server.Relay\<close> from the point where the stream is taken
  over, and \<open>Server.relay\<close>, in \<^verbatim>\<open>internal/registar/server.go\<close>. The first stream that arrives
  with a session id waits in a table, the second takes the entry and starts the proxy. Each
  stream is served by a goroutine of its own, so the model is a step relation with one step
  per critical section. The fields from \<open>arrived\<close> on are history.
\<close>

type_synonym stream = nat

section \<open>State\<close>

text \<open>Where the handler of a stream stands.\<close>

datatype handler =
    HWaiting string          \<comment> \<open>at the final \<open>select\<close>\<close>
  | HSecond string stream    \<comment> \<open>took the entry of that stream, \<open>ready\<close> not yet closed\<close>
  | HReturned

record relays =
  relayWaiting :: "string \<rightharpoonup> stream"
  handlers :: "stream \<rightharpoonup> handler"
  ready :: "stream set"                      \<comment> \<open>waiting sessions whose \<open>ready\<close> is closed\<close>
  dead :: "stream set"                       \<comment> \<open>streams whose context is done\<close>
  running :: "(stream \<times> stream) set"         \<comment> \<open>running \<open>relay\<close> goroutines\<close>
  relayBytes :: u64
  arrived :: "stream \<rightharpoonup> string"
  partners :: "(stream \<times> stream) list"
  delivered :: "(stream \<times> stream \<times> bytes) list"

definition relays0 :: relays where
  "relays0 = \<lparr>relayWaiting = Map.empty, handlers = Map.empty, ready = {}, dead = {}, running = {},
     relayBytes = 0, arrived = Map.empty, partners = [], delivered = []\<rparr>"

section \<open>Operations\<close>

text \<open>The critical section under \<open>relayMu\<close>, both branches.\<close>

definition Relay_arrive :: "string \<Rightarrow> stream \<Rightarrow> relays \<Rightarrow> relays" where
  "Relay_arrive sid str r =
     (case relayWaiting r sid of
        Some w \<Rightarrow> r\<lparr>relayWaiting := (relayWaiting r)(sid := None),
                   handlers := (handlers r)(str \<mapsto> HSecond sid w),
                   running := insert (w, str) (running r),
                   arrived := (arrived r)(str \<mapsto> sid),
                   partners := (w, str) # partners r\<rparr>
      | None \<Rightarrow> r\<lparr>relayWaiting := (relayWaiting r)(sid \<mapsto> str),
                 handlers := (handlers r)(str \<mapsto> HWaiting sid),
                 arrived := (arrived r)(str \<mapsto> sid)\<rparr>)"

text \<open>The deferred \<open>close(waiting.ready)\<close> of the second arrival.\<close>

definition Relay_ready :: "stream \<Rightarrow> stream \<Rightarrow> relays \<Rightarrow> relays" where
  "Relay_ready str w r = r\<lparr>handlers := (handlers r)(str \<mapsto> HReturned), ready := insert w (ready r)\<rparr>"

text \<open>The two cases of the final \<open>select\<close>.\<close>

definition Relay_gone :: "string \<Rightarrow> stream \<Rightarrow> relays \<Rightarrow> relays" where
  "Relay_gone sid str r = r\<lparr>relayWaiting := (relayWaiting r)(sid := None),
     handlers := (handlers r)(str \<mapsto> HReturned)\<rparr>"

definition Relay_woken :: "stream \<Rightarrow> relays \<Rightarrow> relays" where
  "Relay_woken str r = r\<lparr>handlers := (handlers r)(str \<mapsto> HReturned)\<rparr>"

text \<open>One turn of a loop of \<open>relay\<close>; a failed receive or send ends both loops.\<close>

definition relay_forward :: "stream \<Rightarrow> stream \<Rightarrow> bytes \<Rightarrow> relays \<Rightarrow> relays" where
  "relay_forward a b dg r = r\<lparr>relayBytes := relayBytes r + of_nat (length dg),
     delivered := (a, b, dg) # delivered r\<rparr>"

definition relay_stop :: "stream \<times> stream \<Rightarrow> relays \<Rightarrow> relays" where
  "relay_stop p r = r\<lparr>running := running r - {p}\<rparr>"

inductive sessions_step :: "relays \<Rightarrow> relays \<Rightarrow> bool" where
  arrive: "arrived r str = None \<Longrightarrow> sessions_step r (Relay_arrive sid str r)"
| close_ready: "handlers r str = Some (HSecond sid w) \<Longrightarrow> sessions_step r (Relay_ready str w r)"
| die: "sessions_step r (r\<lparr>dead := insert str (dead r)\<rparr>)"
| gone: "handlers r str = Some (HWaiting sid) \<Longrightarrow> str \<in> dead r \<Longrightarrow>
     sessions_step r (Relay_gone sid str r)"
| woken: "handlers r str = Some (HWaiting sid) \<Longrightarrow> str \<in> ready r \<Longrightarrow>
     sessions_step r (Relay_woken str r)"
| forward: "(a, b) \<in> running r \<Longrightarrow> sessions_step r (relay_forward a b dg r)"
| forward_back: "(a, b) \<in> running r \<Longrightarrow> sessions_step r (relay_forward b a dg r)"
| stop: "p \<in> running r \<Longrightarrow> sessions_step r (relay_stop p r)"

lemmas sessions_defs = Relay_arrive_def Relay_ready_def Relay_gone_def Relay_woken_def
  relay_forward_def relay_stop_def

definition sessions_init :: "relays \<Rightarrow> bool" where "sessions_init r \<longleftrightarrow> r = relays0"

abbreviation sessions_reach :: "relays \<Rightarrow> bool" where
  "sessions_reach \<equiv> reach sessions_init sessions_step"

section \<open>Invariant\<close>

definition members :: "relays \<Rightarrow> stream list" where
  "members r = concat (map (\<lambda>(a, b). [a, b]) (partners r))"

definition table_inv :: "relays \<Rightarrow> bool" where
  "table_inv r \<longleftrightarrow>
     (\<forall>sid w. relayWaiting r sid = Some w \<longrightarrow>
        handlers r w = Some (HWaiting sid) \<and> arrived r w = Some sid \<and> w \<notin> set (members r)) \<and>
     (\<forall>w sid. handlers r w = Some (HWaiting sid) \<longrightarrow> arrived r w = Some sid) \<and>
     (\<forall>w h. handlers r w = Some h \<longrightarrow> arrived r w \<noteq> None) \<and>
     (\<forall>b sid w. handlers r b = Some (HSecond sid w) \<longrightarrow> w \<in> set (members r)) \<and>
     ready r \<subseteq> set (members r)"

definition pair_inv :: "relays \<Rightarrow> bool" where
  "pair_inv r \<longleftrightarrow>
     distinct (members r) \<and>
     (\<forall>a b. (a, b) \<in> set (partners r) \<longrightarrow>
        (\<exists>sid. arrived r a = Some sid \<and> arrived r b = Some sid)) \<and>
     running r \<subseteq> set (partners r) \<and>
     (\<forall>(a, b, d) \<in> set (delivered r). (a, b) \<in> set (partners r) \<or> (b, a) \<in> set (partners r))"

definition relay_bytes_inv :: "relays \<Rightarrow> bool" where
  "relay_bytes_inv r \<longleftrightarrow> relayBytes r = of_nat (sum_list (map (length \<circ> snd \<circ> snd) (delivered r)))"

definition sessions_inv :: "relays \<Rightarrow> bool" where
  "sessions_inv r \<longleftrightarrow> table_inv r \<and> pair_inv r \<and> relay_bytes_inv r"

lemma members_arrived: "pair_inv r \<Longrightarrow> a \<in> set (members r) \<Longrightarrow> arrived r a \<noteq> None"
  by (fastforce simp: pair_inv_def members_def)

text \<open>The streams that take part in an arrival are new to the partners.\<close>

lemma arrive_fresh:
  assumes "table_inv r" and "pair_inv r" and "arrived r str = None"
  shows "str \<notin> set (members r)"
    and "relayWaiting r s = Some w \<Longrightarrow> arrived r w = Some s \<and> w \<notin> set (members r) \<and> w \<noteq> str"
  using assms members_arrived [of r str] by (auto simp: table_inv_def)

lemma members_arrive:
  "members (Relay_arrive sid str r) =
     (case relayWaiting r sid of None \<Rightarrow> members r | Some w \<Rightarrow> w # str # members r)"
  by (simp add: Relay_arrive_def members_def split: option.split)

lemma table_inv_step:
  assumes "table_inv r" and "pair_inv r" and "sessions_step r r'"
  shows "table_inv r'"
  using assms(3)
proof cases
  case (arrive str sid)
  note fresh = arrive_fresh [OF assms(1,2) arrive(2)]
  have "w \<notin> set (members r')" if "relayWaiting r' s = Some w" for s w
    using that fresh(1) fresh(2) [of s w] fresh(2) [of sid] unfolding arrive members_arrive
    by (auto simp: Relay_arrive_def split: option.splits if_splits)
  moreover have "set (members r) \<subseteq> set (members r')"
    unfolding arrive members_arrive by (auto split: option.split)
  ultimately show ?thesis using assms(1) arrive(2) fresh(2) unfolding arrive(1)
    by (auto simp: table_inv_def Relay_arrive_def members_def split: option.splits if_splits)
qed (use assms(1) in \<open>fastforce simp: table_inv_def sessions_defs members_def\<close>)+

lemma pair_inv_step:
  assumes "table_inv r" and "pair_inv r" and "sessions_step r r'"
  shows "pair_inv r'"
  using assms(3)
proof cases
  case (arrive str sid)
  note fresh = arrive_fresh [OF assms(1,2) arrive(2)]
  have "distinct (members r')"
    using fresh assms(2) unfolding arrive members_arrive pair_inv_def by (auto split: option.splits)
  then show ?thesis using assms(2) arrive(2) fresh(2) [of sid] unfolding arrive(1)
    by (fastforce simp: pair_inv_def Relay_arrive_def split: option.splits)
qed (use assms(2) in \<open>fastforce simp: pair_inv_def sessions_defs members_def\<close>)+

lemma relay_bytes_inv_step: "relay_bytes_inv r \<Longrightarrow> sessions_step r r' \<Longrightarrow> relay_bytes_inv r'"
  by (erule sessions_step.cases)
    (auto simp: relay_bytes_inv_def sessions_defs algebra_simps split: option.split)

interpretation sessions: inductive_invariant sessions_init sessions_step sessions_inv
proof
  show "sessions_init r \<Longrightarrow> sessions_inv r" for r
    by (auto simp: sessions_init_def relays0_def sessions_inv_def table_inv_def pair_inv_def
        members_def relay_bytes_inv_def)
  show "sessions_inv r \<Longrightarrow> sessions_step r r' \<Longrightarrow> sessions_inv r'" for r r'
    unfolding sessions_inv_def using table_inv_step pair_inv_step relay_bytes_inv_step by blast
qed

section \<open>Properties\<close>

text \<open>Two arrivals with one session id on an empty table, then a datagram.\<close>

definition paired :: relays where
  "paired = Relay_arrive ''s'' 2 (Relay_arrive ''s'' 1 relays0)"

definition exchanged :: relays where "exchanged = relay_forward 1 2 [9, 9] paired"

lemma reach_paired: "sessions_reach paired"
proof -
  have "sessions_reach relays0" by (rule reach_init) (simp add: sessions_init_def)
  then have "sessions_reach (Relay_arrive ''s'' 1 relays0)"
    by (rule reach_step) (rule arrive, simp add: relays0_def)
  then show ?thesis unfolding paired_def
    by (rule reach_step) (rule arrive, simp add: relays0_def Relay_arrive_def)
qed

lemma reach_exchanged: "sessions_reach exchanged"
  unfolding exchanged_def
  by (rule reach_step [OF reach_paired], rule forward)
    (simp add: paired_def Relay_arrive_def relays0_def)

text \<open>
  C11. Session isolation: a datagram is only ever delivered between two streams that both
  arrived with the same session id, and a stream has at most one partner; the byte counter
  is the number of delivered bytes modulo \<open>2 ^ 64\<close>.
\<close>
theorem relay_session_isolation:
  assumes "sessions_reach r" and "(a, b, d) \<in> set (delivered r)"
  shows "(\<exists>sid. arrived r a = Some sid \<and> arrived r b = Some sid) \<and> a \<noteq> b \<and>
    distinct (concat (map (\<lambda>(a, b). [a, b]) (partners r))) \<and>
    relayBytes r = of_nat (sum_list (map (length \<circ> snd \<circ> snd) (delivered r)))"
proof -
  have inv: "pair_inv r" "relay_bytes_inv r"
    using sessions.inv_reach [OF assms(1)] by (simp_all add: sessions_inv_def)
  then have p: "(a, b) \<in> set (partners r) \<or> (b, a) \<in> set (partners r)"
    using assms(2) by (auto simp: pair_inv_def)
  moreover have "x \<noteq> y" if "(x, y) \<in> set (partners r)" for x y
  proof -
    have "distinct [x, y]"
      using that inv(1) unfolding pair_inv_def members_def distinct_concat_iff by force
    then show ?thesis by simp
  qed
  ultimately show ?thesis
    using inv unfolding pair_inv_def relay_bytes_inv_def members_def by blast
qed

theorem relay_session_isolation_witness:
  "(\<exists>sid. arrived exchanged 1 = Some sid \<and> arrived exchanged 2 = Some sid) \<and> (1 :: stream) \<noteq> 2 \<and>
   distinct (concat (map (\<lambda>(a, b). [a, b]) (partners exchanged))) \<and>
   relayBytes exchanged = of_nat (sum_list (map (length \<circ> snd \<circ> snd) (delivered exchanged)))"
  by (rule relay_session_isolation [OF reach_exchanged, of 1 2 "[9, 9]"])
    (simp add: exchanged_def relay_forward_def)

text \<open>
  Pairing: the second arrival with a session id takes the waiting entry and starts the
  relay with it; the entry is gone, and a third arrival waits again.
\<close>
theorem relay_pairs_second:
  assumes "relayWaiting r sid = Some w"
  shows "running (Relay_arrive sid str r) = insert (w, str) (running r) \<and>
    relayWaiting (Relay_arrive sid str r) = (relayWaiting r)(sid := None) \<and>
    relayWaiting (Relay_arrive sid str' (Relay_arrive sid str r)) sid = Some str'"
  using assms by (simp add: Relay_arrive_def)

theorem relay_pairs_second_witness:
  "running (Relay_arrive ''s'' 2 (Relay_arrive ''s'' 1 relays0)) =
     insert (1, 2) (running (Relay_arrive ''s'' 1 relays0)) \<and>
   relayWaiting (Relay_arrive ''s'' 2 (Relay_arrive ''s'' 1 relays0)) =
     (relayWaiting (Relay_arrive ''s'' 1 relays0))(''s'' := None) \<and>
   relayWaiting (Relay_arrive ''s'' 3 (Relay_arrive ''s'' 2 (Relay_arrive ''s'' 1 relays0))) ''s'' = Some 3"
  by (rule relay_pairs_second) (simp add: Relay_arrive_def relays0_def)

text \<open>
  A waiting stream can be forgotten: the handler of a stream that ended deletes the entry
  of its session id without looking whose it is. When its partner had already arrived and a
  third stream was waiting under the same id, the third stream loses its entry: it is alive
  and unpaired, yet the next arrival waits instead of being paired with it.
\<close>
theorem relay_orphaned_stream:
  "\<exists>r. sessions_reach r \<and> handlers r 3 = Some (HWaiting ''s'') \<and> 3 \<notin> dead r \<and> 3 \<notin> set (members r) \<and>
     relayWaiting r ''s'' = None \<and> running (Relay_arrive ''s'' 4 r) = running r"
proof -
  define d where "d = paired\<lparr>dead := {1}\<rparr>"
  define t where "t = Relay_arrive ''s'' 3 d"
  have "sessions_reach (paired\<lparr>dead := insert 1 (dead paired)\<rparr>)"
    by (rule reach_step [OF reach_paired die])
  then have "sessions_reach d" by (simp add: d_def paired_def Relay_arrive_def relays0_def)
  then have "sessions_reach t" unfolding t_def
    by (rule reach_step) (rule arrive, simp add: d_def paired_def Relay_arrive_def relays0_def)
  then have "sessions_reach (Relay_gone ''s'' 1 t)"
    by (rule reach_step)
      (rule gone, simp_all add: t_def d_def paired_def Relay_arrive_def relays0_def)
  then show ?thesis
    by (intro exI [of _ "Relay_gone ''s'' 1 t"])
      (simp add: t_def d_def paired_def Relay_arrive_def relays0_def Relay_gone_def members_def)
qed

end
