(* ===== verification/Http_Middleware.thy ===== *)
theory Http_Middleware
  imports Http_Model Auth
begin

text \<open>
  The middleware of \<^verbatim>\<open>internal/platform/httpplatform/middleware.go\<close> that decides who gets
  through: \<open>Authenticate\<close> with its token sources, \<open>AllowHosts\<close>, and the composition
  \<open>Wrap\<close>. A handler is a function from the request and its context to the calls it makes on
  the response writer. What \<open>Error()\<close> of an error reads is a parameter.
\<close>

type_synonym http_handler = "http_request \<Rightarrow> go_context \<Rightarrow> rw_call list"
type_synonym middleware = "http_handler \<Rightarrow> http_handler"

section \<open>Authenticate\<close>

definition TokenFromHeader :: "string \<Rightarrow> http_request \<Rightarrow> bytes" where
  "TokenFromHeader name r = ascii (http_header r name)"

definition Authenticate :: "(err \<Rightarrow> bytes) \<Rightarrow> bytes \<Rightarrow> (http_request \<Rightarrow> bytes) \<Rightarrow> middleware" where
  "Authenticate errText secret tokener handler r ctx =
     (case ParseToken (tokener r) of
        Inl e \<Rightarrow> http_Error (errText e) StatusUnauthorized
      | Inr token \<Rightarrow>
          if \<not> VerifyToken secret token
          then http_Error (ascii ''invalid token'') StatusUnauthorized
          else handler r (ContextWithKey ctx (Token_Key token)))"

section \<open>AllowHosts\<close>

text \<open>
  \<open>net.SplitHostPort\<close> on what the sources use of it, the host part: empty on every error. A
  bracketed host ends at its bracket, which a colon must follow; otherwise the last colon
  separates, and no other colon or bracket may occur.
\<close>

fun split_last_colon :: "string \<Rightarrow> (string \<times> string) option" where
  "split_last_colon [] = None"
| "split_last_colon (c # cs) =
     (case split_last_colon cs of
        Some (h, p) \<Rightarrow> Some (c # h, p)
      | None \<Rightarrow> if c = CHR '':'' then Some ([], cs) else None)"

fun split_bracket :: "string \<Rightarrow> (string \<times> string) option" where
  "split_bracket [] = None"
| "split_bracket (c # cs) =
     (if c = CHR '']'' then Some ([], cs)
      else map_option (\<lambda>(h, r). (c # h, r)) (split_bracket cs))"

definition no_brackets :: "string \<Rightarrow> bool" where
  "no_brackets s \<longleftrightarrow> CHR ''['' \<notin> set s \<and> CHR '']'' \<notin> set s"

definition split_host :: "string \<Rightarrow> string" where
  "split_host hp =
     (case hp of
        [] \<Rightarrow> []
      | c # rest \<Rightarrow>
          if c = CHR ''['' then
            (case split_bracket rest of
               None \<Rightarrow> []
             | Some (h, q) \<Rightarrow>
                 if q = [] \<or> hd q \<noteq> CHR '':'' \<or> CHR '':'' \<in> set (tl q) \<or> CHR ''['' \<in> set h \<or>
                   \<not> no_brackets q then [] else h)
          else
            (case split_last_colon hp of
               None \<Rightarrow> []
             | Some (h, port) \<Rightarrow>
                 if CHR '':'' \<in> set h \<or> \<not> no_brackets hp then [] else h))"

definition AllowHosts :: "string list \<Rightarrow> (http_request \<Rightarrow> string) \<Rightarrow> middleware" where
  "AllowHosts hs hostOf handler r ctx =
     (let host = split_host (hostOf r);
          host = (if host = [] then hostOf r else host)
      in if host \<in> set hs then handler r ctx
         else http_Error (ascii ''forbidden'') StatusForbidden)"

section \<open>Wrap\<close>

text \<open>Middlewares are applied from the last to the first; \<open>nil\<close> ones are skipped.\<close>

definition Wrap_mw :: "http_handler \<Rightarrow> middleware option list \<Rightarrow> http_handler" where
  "Wrap_mw handler mws =
     foldl (\<lambda>h mw. case mw of None \<Rightarrow> h | Some f \<Rightarrow> f h) handler (rev mws)"

section \<open>Properties\<close>

lemma Wrap_Nil [simp]: "Wrap_mw h [] = h"
  by (simp add: Wrap_mw_def)

lemma Wrap_Cons [simp]:
  "Wrap_mw h (m # ms) = (case m of None \<Rightarrow> Wrap_mw h ms | Some f \<Rightarrow> f (Wrap_mw h ms))"
  by (cases m) (simp_all add: Wrap_mw_def)

lemma split_last_colon_append:
  "CHR '':'' \<notin> set p \<Longrightarrow> split_last_colon (h @ CHR '':'' # p) = Some (h, p)"
proof (induction h)
  case Nil
  have "split_last_colon q = None" if "CHR '':'' \<notin> set q" for q
    using that by (induction q) auto
  with Nil show ?case by simp
qed simp

text \<open>
  \<open>AllowHosts\<close> ignores the port: a host name without colons or brackets is let through or
  refused in the same way with and without a port.
\<close>
theorem allow_hosts_port:
  assumes "CHR '':'' \<notin> set h" and "no_brackets h" and "CHR '':'' \<notin> set p" and "no_brackets p"
    and "h \<noteq> []"
  shows "AllowHosts hs (\<lambda>_. h @ CHR '':'' # p) handler r ctx = AllowHosts hs (\<lambda>_. h) handler r ctx"
proof -
  obtain c h' where h: "h = c # h'" using assms(5) by (cases h) auto
  have "split_last_colon (c # h' @ CHR '':'' # p) = Some (h, p)"
    using split_last_colon_append [OF assms(3), of h] h by simp
  then have "split_host (h @ CHR '':'' # p) = h"
    using assms(1,2,4) by (auto simp: split_host_def h no_brackets_def simp del: split_last_colon.simps)
  moreover have "split_last_colon q = None" if "CHR '':'' \<notin> set q" for q
    using that by (induction q) auto
  then have "split_host h = []"
    using assms by (cases h) (auto simp: split_host_def no_brackets_def)
  ultimately show ?thesis using assms(5) by (simp add: AllowHosts_def)
qed

theorem allow_hosts_port_witness:
  "AllowHosts [''star.example''] (\<lambda>_. ''star.example'' @ CHR '':'' # ''443'') (\<lambda>_ _. []) =
   AllowHosts [''star.example''] (\<lambda>_. ''star.example'') (\<lambda>_ _. [])"
  by (intro ext allow_hosts_port) (simp_all add: no_brackets_def)

end
