(* ===== verification/Registar_Server.thy ===== *)
theory Registar_Server
  imports Session_CA Control_Channel Relay_Sessions Http_Middleware
begin

text \<open>
  The registar: \<^verbatim>\<open>internal/registar/server.go\<close> and \<^verbatim>\<open>peer.go\<close>. The first half holds the pure
  parts: how a peer and a host are brought together (\<open>initP2P\<close>, \<open>initRelay\<close>) and what
  \<open>connectPeer\<close> decides. The second half is the server as a step relation, one step per
  critical section of its handlers and callbacks, over the table of hosts, the session
  authority, the registered connections and the relay sessions. A request is known by the
  number of its stream; \<open>reqs\<close> keeps where its handler stands.
\<close>

section \<open>peer.go\<close>

record AddrPair =
  Public :: addr_port
  Private :: addr_port

type_synonym ctl = "request \<Rightarrow> exchange"

definition joinErrors :: "error \<Rightarrow> error \<Rightarrow> error" where
  "joinErrors hostErr peerErr =
     (let e = (case hostErr of None \<Rightarrow> None | Some h \<Rightarrow> errorf ''host failed to connect'' h)
      in case peerErr of None \<Rightarrow> e
         | Some p \<Rightarrow> errorsJoin [e, errorf ''peer failed to connect'' p])"

text \<open>The two goroutines work on different streams; the result depends on both outcomes only.\<close>

definition p2p_result :: "error \<Rightarrow> error \<Rightarrow> error" where
  "p2p_result hostErr peerErr =
     (if hostErr = None \<and> peerErr = None then None
      else if errorsIs hostErr ErrConnectFailed \<and> errorsIs peerErr ErrConnectFailed
      then Some (Leaf ErrConnectFailed)
      else joinErrors hostErr peerErr)"

definition initP2P :: "ctl \<Rightarrow> AddrPair \<Rightarrow> ctl \<Rightarrow> AddrPair \<Rightarrow> error" where
  "initP2P hostStr hostAddrs peerStr peerAddrs =
     p2p_result (ConnectTo hostStr (Public peerAddrs) (Private peerAddrs))
                (ConnectTo peerStr (Public hostAddrs) (Private hostAddrs))"

definition initRelay :: "ctl \<Rightarrow> ctl \<Rightarrow> string \<Rightarrow> error" where
  "initRelay hostStr peerStr sessionID =
     joinErrors (ConnectViaRelay hostStr sessionID) (ConnectViaRelay peerStr sessionID)"

section \<open>What connectPeer decides\<close>

definition errCodeNoError :: u64 where "errCodeNoError = 0x1000"
definition errCodeHostAlreadyRegistered :: u64 where "errCodeHostAlreadyRegistered = 0x1001"
definition errCodeHostNotFound :: u64 where "errCodeHostNotFound = 0x1002"
definition errCodeP2PFailed :: u64 where "errCodeP2PFailed = 0x1003"

definition newSessionID :: "bytes \<Rightarrow> string" where
  "newSessionID b = hex_EncodeToString b"

datatype peer_outcome = P2PSetup | RelaySetup | FailedSetup err

definition peer_setup :: "ctl \<Rightarrow> AddrPair \<Rightarrow> ctl \<Rightarrow> AddrPair \<Rightarrow> bytes \<Rightarrow> peer_outcome" where
  "peer_setup hostStr hostAddrs peerStr peerAddrs rnd =
     (case initP2P hostStr hostAddrs peerStr peerAddrs of
        None \<Rightarrow> P2PSetup
      | Some e \<Rightarrow>
          if \<not> errorsIs (Some e) ErrConnectFailed then FailedSetup e
          else (case initRelay hostStr peerStr (newSessionID rnd) of
                  Some e' \<Rightarrow> FailedSetup e'
                | None \<Rightarrow> RelaySetup))"

lemma joinErrors_None: "joinErrors h p = None \<longleftrightarrow> h = None \<and> p = None"
  by (auto simp: joinErrors_def Let_def errorsJoin_None errorf_def split: option.split)

lemma joinErrors_Is: "errorsIs (joinErrors h p) t \<longleftrightarrow> errorsIs h t \<or> errorsIs p t"
  by (auto simp: joinErrors_def Let_def errorsIs_join split: option.split)

lemma p2p_result_None: "p2p_result h p = None \<longleftrightarrow> h = None \<and> p = None"
  by (auto simp: p2p_result_def joinErrors_None)

lemma p2p_result_Is:
  "errorsIs (p2p_result h p) ErrConnectFailed \<longleftrightarrow> errorsIs h ErrConnectFailed \<or> errorsIs p ErrConnectFailed"
  by (auto simp: p2p_result_def joinErrors_Is)

lemma ConnectTo_failed:
  "errorsIs (ConnectTo (\<lambda>r. Answer (serve_one (OnConnectTo f a) r)) x y) ErrConnectFailed \<longleftrightarrow>
     f \<lparr>PublicAddress = x, PrivateAddress = y\<rparr> = Inr False"
  by (auto simp: ConnectTo_def serve_one_def mux_connect handle_connect_request response_simps
      ErrConnectFailed_def split: sum.split)

lemma newSessionID_segment:
  "b \<noteq> [] \<Longrightarrow> newSessionID b \<noteq> [] \<and> CHR ''/'' \<notin> set (newSessionID b)"
proof -
  have "CHR ''/'' \<notin> set (hex_byte w)" for w
    using hex_digit_in [OF unat_nibbles(1) [of w]] hex_digit_in [OF unat_nibbles(2) [of w]]
    by (auto simp: hex_byte_def)
  then show "b \<noteq> [] \<Longrightarrow> ?thesis"
    by (cases b) (auto simp: newSessionID_def hex_EncodeToString_def hex_byte_def)
qed

section \<open>The server\<close>

record agent_entry =
  a_str :: stream
  a_addrs :: AddrPair

text \<open>Where the handler of a registration stands.\<close>

datatype phase =
    Issued                 \<comment> \<open>certificate sent, before \<open>registerConn\<close>\<close>
  | Registered             \<comment> \<open>before \<open>registerHost\<close> or \<open>connectPeer\<close>\<close>
  | Hosting                \<comment> \<open>in the table of hosts, until its stream ends\<close>
  | Found agent_entry      \<comment> \<open>before \<open>host.mu.Lock\<close>\<close>
  | Connecting agent_entry \<comment> \<open>holds \<open>host.mu\<close>\<close>
  | Closed u64             \<comment> \<open>stream cancelled with that code\<close>

record reqst =
  q_key :: key
  q_host :: bool
  q_conn :: nat
  q_addrs :: AddrPair
  q_ca :: cert
  q_cert :: cert
  q_phase :: phase

record server =
  srv_secret :: bytes
  srv_closed :: bool
  registeredConns :: "nat set"
  caAuthority :: authority
  hosts :: "key \<rightharpoonup> agent_entry"
  host_mu :: "stream set"            \<comment> \<open>host agents whose \<open>mu\<close> is held\<close>
  sessions :: relays
  p2pConns :: u64
  relayConns :: u64
  reqs :: "stream \<rightharpoonup> reqst"
  h_peers :: "(key \<times> stream \<times> stream \<times> bool) list"  \<comment> \<open>history: key, host, peer, via P2P\<close>

definition NewServer :: "bytes \<Rightarrow> authority \<Rightarrow> server" where
  "NewServer secret ca =
     \<lparr>srv_secret = secret, srv_closed = False, registeredConns = {}, caAuthority = ca,
      hosts = Map.empty, host_mu = {}, sessions = relays0, p2pConns = 0, relayConns = 0,
      reqs = Map.empty, h_peers = []\<rparr>"

definition set_phase :: "stream \<Rightarrow> phase \<Rightarrow> server \<Rightarrow> server" where
  "set_phase str ph s =
     s\<lparr>reqs := (reqs s)(str := map_option (\<lambda>q. q\<lparr>q_phase := ph\<rparr>) (reqs s str))\<rparr>"

subsection \<open>Registration\<close>

text \<open>\<open>Register\<close> up to the response; a failure after the session CA was made leaves the CA.\<close>

definition Register ::
  "stream \<Rightarrow> key \<Rightarrow> bool \<Rightarrow> nat \<Rightarrow> AddrPair \<Rightarrow> csr \<Rightarrow> ca_env \<Rightarrow> ca_env \<Rightarrow> server \<Rightarrow> int \<times> server" where
  "Register str key isHost conn addrs csr caenv env s =
     (case NewSessionCert key csr caenv env (caAuthority s) of
        (Inl e, a) \<Rightarrow> (StatusInternalServerError, s\<lparr>caAuthority := a\<rparr>)
      | (Inr (ca, c), a) \<Rightarrow>
          (StatusOK, s\<lparr>caAuthority := a,
             reqs := (reqs s)(str \<mapsto> \<lparr>q_key = key, q_host = isHost, q_conn = conn, q_addrs = addrs,
                                     q_ca = ca, q_cert = c, q_phase = Issued\<rparr>)\<rparr>))"

definition registerConn :: "stream \<Rightarrow> reqst \<Rightarrow> server \<Rightarrow> server" where
  "registerConn str q s =
     set_phase str Registered (s\<lparr>registeredConns := insert (q_conn q) (registeredConns s)\<rparr>)"

definition registerHost :: "stream \<Rightarrow> reqst \<Rightarrow> server \<Rightarrow> server" where
  "registerHost str q s =
     (case hosts s (q_key q) of
        Some _ \<Rightarrow> set_phase str (Closed errCodeHostAlreadyRegistered) s
      | None \<Rightarrow> set_phase str Hosting
          (s\<lparr>hosts := (hosts s)(q_key q \<mapsto> \<lparr>a_str = str, a_addrs = q_addrs q\<rparr>)\<rparr>))"

text \<open>The callback on the end of the host's stream.\<close>

definition hostGone :: "stream \<Rightarrow> reqst \<Rightarrow> server \<Rightarrow> server" where
  "hostGone str q s =
     set_phase str (Closed 0)
       (s\<lparr>hosts := (hosts s)(q_key q := None),
          caAuthority := RemoveSessionCA (q_key q) (caAuthority s)\<rparr>)"

definition connGone :: "nat \<Rightarrow> server \<Rightarrow> server" where
  "connGone c s = s\<lparr>registeredConns := registeredConns s - {c}\<rparr>"

subsection \<open>Joining\<close>

definition connectPeer_lookup :: "stream \<Rightarrow> reqst \<Rightarrow> server \<Rightarrow> server" where
  "connectPeer_lookup str q s =
     (case hosts s (q_key q) of
        None \<Rightarrow> set_phase str (Closed errCodeHostNotFound) s
      | Some h \<Rightarrow> set_phase str (Found h) s)"

definition connectPeer_lock :: "stream \<Rightarrow> agent_entry \<Rightarrow> server \<Rightarrow> server" where
  "connectPeer_lock str h s =
     set_phase str (Connecting h) (s\<lparr>host_mu := insert (a_str h) (host_mu s)\<rparr>)"

definition connectPeer_finish :: "stream \<Rightarrow> reqst \<Rightarrow> agent_entry \<Rightarrow> peer_outcome \<Rightarrow> server \<Rightarrow> server" where
  "connectPeer_finish str q h out s =
     (let s = s\<lparr>host_mu := host_mu s - {a_str h}\<rparr> in
      case out of
        P2PSetup \<Rightarrow> set_phase str (Closed errCodeNoError)
          (s\<lparr>p2pConns := p2pConns s + 1, h_peers := (q_key q, a_str h, str, True) # h_peers s\<rparr>)
      | RelaySetup \<Rightarrow> set_phase str (Closed errCodeNoError)
          (s\<lparr>relayConns := relayConns s + 1, h_peers := (q_key q, a_str h, str, False) # h_peers s\<rparr>)
      | FailedSetup e \<Rightarrow> set_phase str (Closed errCodeP2PFailed) s)"

subsection \<open>Relay, Stats and Close\<close>

text \<open>\<open>Relay\<close> up to the wait: only registered connections get a stream.\<close>

definition Relay :: "nat \<Rightarrow> string \<Rightarrow> stream \<Rightarrow> server \<Rightarrow> int \<times> server" where
  "Relay conn sid str s =
     (if conn \<notin> registeredConns s then (StatusUnauthorized, s)
      else (StatusOK, s\<lparr>sessions := Relay_arrive sid str (sessions s)\<rparr>))"

record server_stats =
  RegisteredConns :: nat
  WaitingRelays :: nat
  BytesRelayed :: u64
  P2PConns :: u64
  RelayConns :: u64

definition Server_Stats :: "server \<Rightarrow> server_stats" where
  "Server_Stats s =
     \<lparr>RegisteredConns = card (registeredConns s), WaitingRelays = card (dom (relayWaiting (sessions s))),
      BytesRelayed = relayBytes (sessions s), P2PConns = p2pConns s, RelayConns = relayConns s\<rparr>"

definition Server_Close :: "server \<Rightarrow> server" where
  "Server_Close s =
     s\<lparr>srv_closed := True, hosts := Map.empty,
       caAuthority := (caAuthority s)\<lparr>sessionsCA :=
         (\<lambda>k. if k \<in> dom (hosts s) then None else sessionsCA (caAuthority s) k)\<rparr>\<rparr>"

subsection \<open>Steps\<close>

text \<open>
  A registration request reaches \<open>Register\<close> only through the authentication of \<open>NewRouter\<close>, so
  its key is that of a token whose signature checked.
\<close>

inductive server_step :: "server \<Rightarrow> server \<Rightarrow> bool" where
  request: "reqs s str = None \<Longrightarrow> ParseToken text = Inr tok \<Longrightarrow> VerifyToken (srv_secret s) tok \<Longrightarrow>
     Register str (Token_Key tok) isHost conn addrs csr caenv env s = (st, s') \<Longrightarrow> server_step s s'"
| register_conn: "reqs s str = Some q \<Longrightarrow> q_phase q = Issued \<Longrightarrow> server_step s (registerConn str q s)"
| register_host: "reqs s str = Some q \<Longrightarrow> q_phase q = Registered \<Longrightarrow> q_host q \<Longrightarrow>
     server_step s (registerHost str q s)"
| host_gone: "reqs s str = Some q \<Longrightarrow> q_phase q = Hosting \<Longrightarrow> server_step s (hostGone str q s)"
| conn_gone: "server_step s (connGone c s)"
| lookup: "reqs s str = Some q \<Longrightarrow> q_phase q = Registered \<Longrightarrow> \<not> q_host q \<Longrightarrow>
     server_step s (connectPeer_lookup str q s)"
| lock: "reqs s str = Some q \<Longrightarrow> q_phase q = Found h \<Longrightarrow> a_str h \<notin> host_mu s \<Longrightarrow>
     server_step s (connectPeer_lock str h s)"
| finish: "reqs s str = Some q \<Longrightarrow> q_phase q = Connecting h \<Longrightarrow>
     server_step s (connectPeer_finish str q h (peer_setup hs (a_addrs h) ps (q_addrs q) rnd) s)"
| relay_request: "arrived (sessions s) str = None \<Longrightarrow> server_step s (snd (Relay conn sid str s))"
| relay_run: "sessions_step (sessions s) r \<Longrightarrow> arrived r = arrived (sessions s) \<Longrightarrow>
     server_step s (s\<lparr>sessions := r\<rparr>)"
| close: "server_step s (Server_Close s)"

definition server_init :: "server \<Rightarrow> bool" where
  "server_init s \<longleftrightarrow> (\<exists>secret ca. authority_inv ca \<and> s = NewServer secret ca)"

abbreviation server_reach :: "server \<Rightarrow> bool" where
  "server_reach \<equiv> reach server_init server_step"

lemmas server_defs = registerConn_def registerHost_def hostGone_def connGone_def
  connectPeer_lookup_def connectPeer_lock_def connectPeer_finish_def Server_Close_def

section \<open>Invariants\<close>

lemma set_phase_simps [simp]:
  "reqs (set_phase str ph s) = (reqs s)(str := map_option (\<lambda>q. q\<lparr>q_phase := ph\<rparr>) (reqs s str))"
  "srv_closed (set_phase str ph s) = srv_closed s" "hosts (set_phase str ph s) = hosts s"
  "host_mu (set_phase str ph s) = host_mu s" "caAuthority (set_phase str ph s) = caAuthority s"
  "sessions (set_phase str ph s) = sessions s" "h_peers (set_phase str ph s) = h_peers s"
  "p2pConns (set_phase str ph s) = p2pConns s" "relayConns (set_phase str ph s) = relayConns s"
  "registeredConns (set_phase str ph s) = registeredConns s" "srv_secret (set_phase str ph s) = srv_secret s"
  by (simp_all add: set_phase_def)

text \<open>Who a request is never changes.\<close>

definition same_id :: "reqst \<Rightarrow> reqst \<Rightarrow> bool" where
  "same_id q q' \<longleftrightarrow> q_key q' = q_key q \<and> q_host q' = q_host q \<and> q_addrs q' = q_addrs q \<and>
     q_ca q' = q_ca q \<and> q_cert q' = q_cert q"

lemma same_id_refl [simp]: "same_id q q" "same_id q (q\<lparr>q_phase := ph\<rparr>)"
  by (simp_all add: same_id_def)

lemma Register_cases:
  assumes "Register str key isHost conn addrs csr caenv env s = (st, s')"
  obtains (refused) a where "s' = s\<lparr>caAuthority := a\<rparr>"
      "a = snd (NewSessionCert key csr caenv env (caAuthority s))"
  | (issued) a ca c where "s' = s\<lparr>caAuthority := a, reqs := (reqs s)(str \<mapsto> \<lparr>q_key = key, q_host = isHost,
        q_conn = conn, q_addrs = addrs, q_ca = ca, q_cert = c, q_phase = Issued\<rparr>)\<rparr>"
      "NewSessionCert key csr caenv env (caAuthority s) = (Inr (ca, c), a)"
proof (cases "NewSessionCert key csr caenv env (caAuthority s)")
  case (Pair r a)
  show ?thesis
  proof (cases r)
    case (Inl e)
    then have "s' = s\<lparr>caAuthority := a\<rparr>" using assms Pair by (simp add: Register_def)
    then show ?thesis using refused Pair by simp
  next
    case (Inr p)
    then obtain ca c where r: "r = Inr (ca, c)" by (cases p) simp
    then have "s' = s\<lparr>caAuthority := a, reqs := (reqs s)(str \<mapsto> \<lparr>q_key = key, q_host = isHost,
        q_conn = conn, q_addrs = addrs, q_ca = ca, q_cert = c, q_phase = Issued\<rparr>)\<rparr>"
      using assms Pair by (simp add: Register_def)
    then show ?thesis using issued Pair r by blast
  qed
qed

lemma finish_fields:
  "hosts (connectPeer_finish str q h out s) = hosts s"
  "srv_closed (connectPeer_finish str q h out s) = srv_closed s"
  "caAuthority (connectPeer_finish str q h out s) = caAuthority s"
  "sessions (connectPeer_finish str q h out s) = sessions s"
  "host_mu (connectPeer_finish str q h out s) = host_mu s - {a_str h}"
  "reqs s str = Some q \<Longrightarrow>
     \<exists>code. reqs (connectPeer_finish str q h out s) = (reqs s)(str \<mapsto> q\<lparr>q_phase := Closed code\<rparr>)"
  by (cases out; auto simp: connectPeer_finish_def Let_def)+

lemma step_keeps_id:
  "server_step s s' \<Longrightarrow> reqs s str = Some q \<Longrightarrow> \<exists>q'. reqs s' str = Some q' \<and> same_id q q'"
proof (induction rule: server_step.induct)
  case (request s str' tx tok isHost conn addrs csr caenv env st s')
  from request(4) show ?case by (rule Register_cases) (use request in auto)
next
  case (finish s str' q' h hs ps rnd)
  then show ?case by (auto simp: connectPeer_finish_def Let_def split: peer_outcome.split)
next
  case (relay_request s str' conn sid)
  then show ?case by (auto simp: Relay_def)
qed (auto simp: server_defs split: option.split)

definition host_inv :: "server \<Rightarrow> bool" where
  "host_inv s \<longleftrightarrow>
     (\<forall>k h. hosts s k = Some h \<longrightarrow>
        (\<exists>q. reqs s (a_str h) = Some q \<and> q_key q = k \<and> q_host q \<and> q_phase q = Hosting \<and>
             a_addrs h = q_addrs q)) \<and>
     (\<not> srv_closed s \<longrightarrow>
        (\<forall>str q. reqs s str = Some q \<and> q_phase q = Hosting \<longrightarrow>
           hosts s (q_key q) = Some \<lparr>a_str = str, a_addrs = q_addrs q\<rparr>))"

lemma host_inv_step: "server_step s s' \<Longrightarrow> host_inv s \<Longrightarrow> host_inv s'"
proof (induction rule: server_step.induct)
  case (request s str' tx tok isHost conn addrs csr caenv env st s')
  from request(4) show ?case
  proof (rule Register_cases)
    fix a ca c
    assume s': "s' = s\<lparr>caAuthority := a, reqs := (reqs s)(str' \<mapsto> \<lparr>q_key = Token_Key tok, q_host = isHost,
        q_conn = conn, q_addrs = addrs, q_ca = ca, q_cert = c, q_phase = Issued\<rparr>)\<rparr>"
    have "a_str h \<noteq> str'" if "hosts s k = Some h" for k h
      using request(1,5) that unfolding host_inv_def by (metis option.distinct(1))
    then show "host_inv s'" using request(5) by (simp add: host_inv_def s')
  qed (use request(5) in \<open>simp add: host_inv_def\<close>)
next
  case (finish s str' q' h hs ps rnd)
  from finish_fields(6) [OF finish(1)] obtain code where
    "reqs (connectPeer_finish str' q' h (peer_setup hs (a_addrs h) ps (q_addrs q') rnd) s) =
      (reqs s)(str' \<mapsto> q'\<lparr>q_phase := Closed code\<rparr>)" by blast
  with finish show ?case by (fastforce simp: host_inv_def finish_fields)
next
  case (relay_request s str' conn sid)
  then show ?case by (auto simp: Relay_def host_inv_def)
next
  case (host_gone s str q)
  have "a_str h \<noteq> str" if "hosts s k = Some h" "k \<noteq> q_key q" for k h
    using host_gone that unfolding host_inv_def by (metis option.inject)
  moreover have "q_key q' \<noteq> q_key q"
    if "reqs s str' = Some q'" "q_phase q' = Hosting" "str' \<noteq> str" "\<not> srv_closed s" for str' q'
    using host_gone that unfolding host_inv_def by (metis agent_entry.ext_inject option.inject)
  ultimately show ?case using host_gone unfolding host_inv_def hostGone_def
    by (simp split: if_splits, metis)
next
  case (register_host s str q)
  then show ?case by (fastforce simp: host_inv_def registerHost_def split: option.split)
qed (fastforce simp: host_inv_def server_defs split: option.split)+

text \<open>A joining request only ever sees the host of its own key.\<close>

definition join_inv :: "server \<Rightarrow> bool" where
  "join_inv s \<longleftrightarrow>
     (\<forall>str q h. reqs s str = Some q \<and> (q_phase q = Found h \<or> q_phase q = Connecting h) \<longrightarrow>
        \<not> q_host q \<and> (\<exists>q'. reqs s (a_str h) = Some q' \<and> q_key q' = q_key q \<and> q_host q' \<and>
          q_addrs q' = a_addrs h))"

text \<open>A request that has found a host had found it before, or has just looked it up.\<close>

lemma found_origin:
  assumes "server_step s s'" and "reqs s' str = Some q" and "q_phase q = Found h \<or> q_phase q = Connecting h"
  shows "\<exists>q0. reqs s str = Some q0 \<and> same_id q0 q \<and>
    (q_phase q0 = Found h \<or> q_phase q0 = Connecting h \<or> \<not> q_host q0 \<and> hosts s (q_key q0) = Some h)"
  using assms
proof (induction rule: server_step.induct)
  case (request s str' tx tok isHost conn addrs csr caenv env st s')
  from request(4) show ?case by (rule Register_cases) (use request in \<open>auto split: if_splits\<close>)
next
  case (finish s str' q' h' hs ps rnd)
  from finish_fields(6) [OF finish(1)] obtain code where
    "reqs (connectPeer_finish str' q' h' (peer_setup hs (a_addrs h') ps (q_addrs q') rnd) s) =
      (reqs s)(str' \<mapsto> q'\<lparr>q_phase := Closed code\<rparr>)" by blast
  with finish show ?case by (cases "str = str'") (auto simp: same_id_def)
next
  case (relay_request s str' conn sid)
  then show ?case by (auto simp: Relay_def split: if_splits)
qed (auto simp: server_defs split: option.splits if_splits)

lemma join_inv_step:
  assumes "server_step s s'" and "join_inv s" and "host_inv s"
  shows "join_inv s'"
proof -
  have old: "\<not> q_host q \<and> (\<exists>q'. reqs s' (a_str h) = Some q' \<and> q_key q' = q_key q \<and> q_host q' \<and>
      q_addrs q' = a_addrs h)"
    if "reqs s str = Some q" "q_phase q = Found h \<or> q_phase q = Connecting h" for str q h
    using assms(2) that step_keeps_id [OF assms(1)] unfolding join_inv_def same_id_def by metis
  show ?thesis
    unfolding join_inv_def
  proof (intro allI impI, elim conjE)
    fix str q h
    assume q: "reqs s' str = Some q" "q_phase q = Found h \<or> q_phase q = Connecting h"
    from found_origin [OF assms(1) q] obtain q0 where
      q0: "reqs s str = Some q0" "same_id q0 q"
        "q_phase q0 = Found h \<or> q_phase q0 = Connecting h \<or> \<not> q_host q0 \<and> hosts s (q_key q0) = Some h" by blast
    show "\<not> q_host q \<and> (\<exists>q'. reqs s' (a_str h) = Some q' \<and> q_key q' = q_key q \<and> q_host q' \<and>
        q_addrs q' = a_addrs h)"
    proof (cases "q_phase q0 = Found h \<or> q_phase q0 = Connecting h")
      case True
      show ?thesis using old [OF q0(1) True] q0(2) by (simp add: same_id_def)
    next
      case False
      then have "\<not> q_host q0" "hosts s (q_key q0) = Some h" using q0(3) by blast+
      moreover from this obtain qh where "reqs s (a_str h) = Some qh" "q_key qh = q_key q0" "q_host qh"
          "a_addrs h = q_addrs qh"
        using assms(3) unfolding host_inv_def by metis
      ultimately show ?thesis using step_keeps_id [OF assms(1)] q0(2) unfolding same_id_def by metis
    qed
  qed
qed

text \<open>The lock of a host is held by at most one request, which is connecting to it.\<close>

definition mutex_inv :: "server \<Rightarrow> bool" where
  "mutex_inv s \<longleftrightarrow>
     (\<forall>str q h. reqs s str = Some q \<and> q_phase q = Connecting h \<longrightarrow> a_str h \<in> host_mu s) \<and>
     (\<forall>str q h str' q' h'. reqs s str = Some q \<and> q_phase q = Connecting h \<and>
        reqs s str' = Some q' \<and> q_phase q' = Connecting h' \<and> a_str h = a_str h' \<longrightarrow> str = str')"

lemma mutex_inv_step: "server_step s s' \<Longrightarrow> mutex_inv s \<Longrightarrow> mutex_inv s'"
proof (induction rule: server_step.induct)
  case (request s str' tx tok isHost conn addrs csr caenv env st s')
  from request(4) show ?case
    by (rule Register_cases) (use request in \<open>auto simp: mutex_inv_def split: if_splits\<close>)
next
  case (finish s str' q' h' hs ps rnd)
  then have "a_str h \<noteq> a_str h'" if "reqs s str = Some q" "q_phase q = Connecting h" "str \<noteq> str'" for str q h
    using that unfolding mutex_inv_def by metis
  moreover from finish_fields(6) [OF finish(1)] obtain code where
    "reqs (connectPeer_finish str' q' h' (peer_setup hs (a_addrs h') ps (q_addrs q') rnd) s) =
      (reqs s)(str' \<mapsto> q'\<lparr>q_phase := Closed code\<rparr>)" by blast
  ultimately show ?case using finish(3)
    by (fastforce simp: mutex_inv_def finish_fields split: if_splits)
next
  case (relay_request s str' conn sid)
  then show ?case by (auto simp: Relay_def mutex_inv_def)
next
  case (lock s str q h)
  then show ?case by (fastforce simp: mutex_inv_def server_defs split: option.splits if_splits)
qed (auto simp: mutex_inv_def server_defs split: option.splits if_splits)

text \<open>The counters and the history of connected peers.\<close>

definition peers_inv :: "server \<Rightarrow> bool" where
  "peers_inv s \<longleftrightarrow>
     p2pConns s = of_nat (length (filter (\<lambda>(_, _, _, p2p). p2p) (h_peers s))) \<and>
     relayConns s = of_nat (length (filter (\<lambda>(_, _, _, p2p). \<not> p2p) (h_peers s))) \<and>
     (\<forall>k hstr pstr p2p. (k, hstr, pstr, p2p) \<in> set (h_peers s) \<longrightarrow>
        (\<exists>q q'. reqs s hstr = Some q \<and> q_host q \<and> q_key q = k \<and>
                reqs s pstr = Some q' \<and> \<not> q_host q' \<and> q_key q' = k))"

lemma peers_inv_keep:
  assumes "peers_inv s" and "server_step s s'" and "h_peers s' = h_peers s"
    and "p2pConns s' = p2pConns s" and "relayConns s' = relayConns s"
  shows "peers_inv s'"
  using assms(1,3,4,5) step_keeps_id [OF assms(2)] unfolding peers_inv_def same_id_def by metis

lemma peers_inv_finish:
  assumes "server_step s s'" and "peers_inv s" and "join_inv s" and s': "s' = connectPeer_finish str q h out s"
    and "reqs s str = Some q" and "q_phase q = Connecting h"
  shows "peers_inv s'"
proof -
  obtain qh where qh: "reqs s (a_str h) = Some qh" "q_key qh = q_key q" "q_host qh" "\<not> q_host q"
    using assms(3,5,6) unfolding join_inv_def by metis
  have ids: "\<exists>q q'. reqs s' hstr = Some q \<and> q_host q \<and> q_key q = k \<and>
        reqs s' pstr = Some q' \<and> \<not> q_host q' \<and> q_key q' = k"
    if "(k, hstr, pstr, p2p) \<in> insert (q_key q, a_str h, str, b) (set (h_peers s))" for k hstr pstr p2p b
  proof -
    have "\<exists>q q'. reqs s hstr = Some q \<and> q_host q \<and> q_key q = k \<and>
        reqs s pstr = Some q' \<and> \<not> q_host q' \<and> q_key q' = k"
      using that
    proof
      assume "(k, hstr, pstr, p2p) = (q_key q, a_str h, str, b)"
      then show ?thesis using qh assms(5) by auto
    next
      assume "(k, hstr, pstr, p2p) \<in> set (h_peers s)"
      then show ?thesis using assms(2) unfolding peers_inv_def by blast
    qed
    then show ?thesis using step_keeps_id [OF assms(1)] unfolding same_id_def by metis
  qed
  have "\<exists>b. set (h_peers s') \<subseteq> insert (q_key q, a_str h, str, b) (set (h_peers s))"
    unfolding s' connectPeer_finish_def Let_def by (auto split: peer_outcome.split)
  then have "\<forall>k hstr pstr p2p. (k, hstr, pstr, p2p) \<in> set (h_peers s') \<longrightarrow>
      (\<exists>q q'. reqs s' hstr = Some q \<and> q_host q \<and> q_key q = k \<and>
        reqs s' pstr = Some q' \<and> \<not> q_host q' \<and> q_key q' = k)"
    using ids by blast
  moreover have "p2pConns s' = of_nat (length (filter (\<lambda>(_, _, _, p2p). p2p) (h_peers s')))"
      "relayConns s' = of_nat (length (filter (\<lambda>(_, _, _, p2p). \<not> p2p) (h_peers s')))"
    using assms(2) unfolding s' connectPeer_finish_def Let_def peers_inv_def
    by (auto split: peer_outcome.split)
  ultimately show ?thesis unfolding peers_inv_def by blast
qed

lemma peers_inv_step:
  assumes "server_step s s'" and "peers_inv s" and "join_inv s"
  shows "peers_inv s'"
  using assms(1)
proof cases
  case (finish str q h hs ps rnd)
  then show ?thesis using peers_inv_finish [OF assms] by simp
next
  case (request str tx tok isHost conn addrs csr caenv env st)
  from request(4) show ?thesis
    by (rule Register_cases; intro peers_inv_keep [OF assms(2,1)]) simp_all
next
  case (relay_request str conn sid)
  then show ?thesis by (intro peers_inv_keep [OF assms(2,1)]) (simp_all add: Relay_def)
qed (intro peers_inv_keep [OF assms(2,1)]; simp add: server_defs split: option.split)+

definition server_inv :: "server \<Rightarrow> bool" where
  "server_inv s \<longleftrightarrow> host_inv s \<and> join_inv s \<and> mutex_inv s \<and> peers_inv s \<and>
     authority_inv (caAuthority s) \<and> sessions_inv (sessions s)"

lemma authority_step:
  "server_step s s' \<Longrightarrow> authority_inv (caAuthority s) \<Longrightarrow> authority_inv (caAuthority s')"
proof (induction rule: server_step.induct)
  case (request s str' tx tok isHost conn addrs csr caenv env st s')
  from request(4) show ?case
  proof (rule Register_cases)
    fix a ca c
    assume "NewSessionCert (Token_Key tok) csr caenv env (caAuthority s) = (Inr (ca, c), a)"
    then have "a = snd (NewSessionCert (Token_Key tok) csr caenv env (caAuthority s))" by simp
    then have "authority_inv a" using authority_inv_cert [OF request(5)] by simp
    moreover assume "s' = s\<lparr>caAuthority := a, reqs := (reqs s)(str' \<mapsto> \<lparr>q_key = Token_Key tok,
      q_host = isHost, q_conn = conn, q_addrs = addrs, q_ca = ca, q_cert = c, q_phase = Issued\<rparr>)\<rparr>"
    ultimately show ?thesis by simp
  qed (use authority_inv_cert [OF request(5)] in simp)
next
  case (host_gone s str q)
  then show ?case by (simp add: hostGone_def authority_inv_remove)
next
  case (close s)
  then show ?case by (auto simp: Server_Close_def authority_inv_def split: if_splits)
next
  case (relay_request s str' conn sid)
  then show ?case by (simp add: Relay_def)
qed (simp_all add: finish_fields registerConn_def registerHost_def connGone_def
      connectPeer_lookup_def connectPeer_lock_def split: option.split)

lemma sessions_inv_lift:
  "server_step s s' \<Longrightarrow> sessions_inv (sessions s) \<Longrightarrow> sessions_inv (sessions s')"
proof (induction rule: server_step.induct)
  case (request s str' tx tok isHost conn addrs csr caenv env st s')
  from request(4) show ?case by (rule Register_cases) (use request(5) in simp_all)
next
  case (relay_request s str conn sid)
  then show ?case
    using sessions.inv_step [OF relay_request(2) sessions_step.arrive [OF relay_request(1)]]
    by (simp add: Relay_def)
next
  case (relay_run s r)
  then show ?case using sessions.inv_step by simp
qed (simp_all add: finish_fields registerConn_def registerHost_def hostGone_def connGone_def
      connectPeer_lookup_def connectPeer_lock_def Server_Close_def split: option.split)

interpretation server: inductive_invariant server_init server_step server_inv
proof
  show "server_init s \<Longrightarrow> server_inv s" for s
  proof -
    have "sessions_inv relays0"
      by (rule sessions.inv_init) (simp add: sessions_init_def)
    then show "server_init s \<Longrightarrow> server_inv s"
      by (auto simp: server_init_def NewServer_def server_inv_def host_inv_def join_inv_def
          mutex_inv_def peers_inv_def)
  qed
  show "server_inv s \<Longrightarrow> server_step s s' \<Longrightarrow> server_inv s'" for s s'
    unfolding server_inv_def
    using host_inv_step join_inv_step mutex_inv_step peers_inv_step authority_step sessions_inv_lift
    by blast
qed

section \<open>How a host and a peer are brought together\<close>

text \<open>An agent with both callbacks, reached over a working stream.\<close>

definition agent_stream :: "(ConnectCommand \<Rightarrow> bytes + bool) \<Rightarrow> (string \<Rightarrow> bytes option) \<Rightarrow> ctl" where
  "agent_stream f g = (\<lambda>r. Answer (serve_one (OnConnectTo f (OnConnectViaRelay g NewAgent)) r))"

lemma agent_stream_swap:
  "agent_stream f g = (\<lambda>r. Answer (serve_one (OnConnectViaRelay g (OnConnectTo f NewAgent)) r))"
  by (simp add: agent_stream_def OnConnectTo_def OnConnectViaRelay_def NewAgent_def)

definition connect_outcome :: "bytes + bool \<Rightarrow> error" where
  "connect_outcome o' = (case o' of Inr True \<Rightarrow> None | Inr False \<Rightarrow> Some (Leaf ErrConnectFailed)
     | Inl m \<Rightarrow> Some (NewBadStatusCodeError StatusInternalServerError (m @ [10])))"

lemma ConnectTo_agent:
  "ConnectTo (agent_stream f g) x y = connect_outcome (f \<lparr>PublicAddress = x, PrivateAddress = y\<rparr>)"
  by (auto simp: agent_stream_def ConnectTo_def serve_one_def mux_connect handle_connect_request
      response_simps connect_outcome_def split: sum.split bool.split)

lemma ConnectViaRelay_agent:
  "sid \<noteq> [] \<Longrightarrow> CHR ''/'' \<notin> set sid \<Longrightarrow> ConnectViaRelay (agent_stream f g) sid = relay_outcome (g sid)"
  by (auto simp: agent_stream_swap ConnectViaRelay_def serve_one_def mux_relay handle_relay_def
      response_simps relay_outcome_def split: option.split)

lemma connect_outcome_simps:
  "connect_outcome o' = None \<longleftrightarrow> o' = Inr True"
  "errorsIs (connect_outcome o') ErrConnectFailed \<longleftrightarrow> o' = Inr False"
  by (auto simp: connect_outcome_def NewBadStatusCodeError_def ErrConnectFailed_def
      split: sum.splits bool.splits)

lemma relay_outcome_None: "relay_outcome r = None \<longleftrightarrow> r = None"
  by (auto simp: relay_outcome_def split: option.split)


definition addrs0 :: AddrPair where
  "addrs0 = \<lparr>Public = AddrPort (V4 1) 1, Private = AddrPort (V4 2) 2\<rparr>"


end
