(* ===== verification/Registar_Properties.thy ===== *)
theory Registar_Properties
  imports Registar_Server
begin

text \<open>
  What the step relation of \<open>Registar_Server\<close> guarantees and where it falls short, with the
  concrete runs that witness it: a host and a peer of one game that get connected, a host
  that reconnects while its old stream is being cleaned up, and joins without a host.
\<close>

section \<open>A host and a peer\<close>

definition secret0 :: bytes where "secret0 = [1]"

definition base :: server where
  "base = (NewServer secret0 (NewAuthority root0))\<lparr>caAuthority := auth1\<rparr>"

definition qH :: "int \<Rightarrow> phase \<Rightarrow> reqst" where
  "qH t ph = \<lparr>q_key = gameA, q_host = True, q_conn = 10, q_addrs = addrs0,
     q_ca = sca_cert (sca_of 2 0), q_cert = leaf_of 2 t, q_phase = ph\<rparr>"

definition qP :: "phase \<Rightarrow> reqst" where
  "qP ph = \<lparr>q_key = gameA, q_host = False, q_conn = 11, q_addrs = addrs0,
     q_ca = sca_cert (sca_of 2 0), q_cert = leaf_of 2 60, q_phase = ph\<rparr>"

definition eH :: "stream \<Rightarrow> agent_entry" where "eH str = \<lparr>a_str = str, a_addrs = addrs0\<rparr>"

lemma q_simps [simp]:
  "q_phase (qH t ph) = ph" "q_key (qH t ph) = gameA" "q_host (qH t ph)" "q_addrs (qH t ph) = addrs0"
  "q_conn (qH t ph) = 10" "q_phase (qP ph) = ph" "q_key (qP ph) = gameA" "\<not> q_host (qP ph)"
  "q_addrs (qP ph) = addrs0" "q_conn (qP ph) = 11" "a_str (eH str) = str" "a_addrs (eH str) = addrs0"
  "(qH t ph)\<lparr>q_phase := ph'\<rparr> = qH t ph'" "(qP ph)\<lparr>q_phase := ph'\<rparr> = qP ph'"
  by (simp_all add: qH_def qP_def eH_def)

lemma reach_request:
  assumes "server_reach s" and "reqs s str = None" and "srv_secret s = sec"
  shows "server_reach (snd (Register str k isHost conn addrs csr caenv env s))"
proof -
  let ?t = "NewToken k sec"
  have "Register str (Token_Key ?t) isHost conn addrs csr caenv env s =
      (fst (Register str k isHost conn addrs csr caenv env s),
       snd (Register str k isHost conn addrs csr caenv env s))"
    by (simp add: Token_Key_NewToken)
  moreover have "VerifyToken (srv_secret s) ?t" by (simp add: assms(3) verify_NewToken)
  ultimately have "server_step s (snd (Register str k isHost conn addrs csr caenv env s))"
    by (rule server_step.request [OF assms(2) parse_NewToken, rotated])
  with assms(1) show ?thesis by (rule reach_step)
qed

lemma reach_start: "server_reach (NewServer secret0 (NewAuthority root0))"
  by (rule reach_init) (use authority_inv_new in \<open>auto simp: server_init_def\<close>)

lemmas run_fields = base_def NewServer_def

text \<open>The host registers.\<close>

definition hosting :: server where
  "hosting = base\<lparr>registeredConns := {10}, hosts := [gameA \<mapsto> eH 1], reqs := [1 \<mapsto> qH 0 Hosting]\<rparr>"

lemma reach_hosting: "server_reach hosting"
proof -
  have "snd (Register 1 gameA True 10 addrs0 csr0 (env_at 2 0) (env_at 0 0)
      (NewServer secret0 (NewAuthority root0))) = base\<lparr>reqs := [1 \<mapsto> qH 0 Issued]\<rparr>"
    by (simp add: Register_def cert_first run_fields qH_def)
  then have "server_reach (base\<lparr>reqs := [1 \<mapsto> qH 0 Issued]\<rparr>)"
    using reach_request [OF reach_start, of 1 secret0] by (metis NewServer_def server.simps(1,10))
  then have "server_reach (registerConn 1 (qH 0 Issued) (base\<lparr>reqs := [1 \<mapsto> qH 0 Issued]\<rparr>))"
    by (rule reach_step) (rule server_step.register_conn, simp_all)
  then have "server_reach (base\<lparr>registeredConns := {10}, reqs := [1 \<mapsto> qH 0 Registered]\<rparr>)"
    by (simp add: registerConn_def set_phase_def run_fields)
  then have "server_reach (registerHost 1 (qH 0 Registered)
      (base\<lparr>registeredConns := {10}, reqs := [1 \<mapsto> qH 0 Registered]\<rparr>))"
    by (rule reach_step) (rule server_step.register_host, simp_all)
  then show ?thesis
    by (simp add: registerHost_def set_phase_def run_fields hosting_def eH_def)
qed

text \<open>A peer joins and holds the host's lock, then is connected.\<close>

definition connecting :: server where
  "connecting = hosting\<lparr>registeredConns := {10, 11}, host_mu := {1},
     reqs := [1 \<mapsto> qH 0 Hosting, 2 \<mapsto> qP (Connecting (eH 1))]\<rparr>"

lemma reach_connecting: "server_reach connecting"
proof -
  let ?s = "\<lambda>ph. hosting\<lparr>registeredConns := {10, 11}, reqs := [1 \<mapsto> qH 0 Hosting, 2 \<mapsto> qP ph]\<rparr>"
  have "snd (Register 2 gameA False 11 addrs0 csr0 (env_at 9 60) (env_at 0 60) hosting) =
      hosting\<lparr>reqs := [1 \<mapsto> qH 0 Hosting, 2 \<mapsto> qP Issued]\<rparr>"
    by (simp add: Register_def cert_second run_fields qP_def hosting_def)
  moreover have "server_reach (snd (Register 2 gameA False 11 addrs0 csr0 (env_at 9 60) (env_at 0 60) hosting))"
    by (rule reach_request [OF reach_hosting]) (simp_all add: hosting_def)
  ultimately have "server_reach (hosting\<lparr>reqs := [1 \<mapsto> qH 0 Hosting, 2 \<mapsto> qP Issued]\<rparr>)" by simp
  then have "server_reach (registerConn 2 (qP Issued)
      (hosting\<lparr>reqs := [1 \<mapsto> qH 0 Hosting, 2 \<mapsto> qP Issued]\<rparr>))"
    by (rule reach_step) (rule server_step.register_conn, simp_all)
  then have "server_reach (?s Registered)"
    by (simp add: registerConn_def set_phase_def run_fields hosting_def insert_commute)
  then have "server_reach (connectPeer_lookup 2 (qP Registered) (?s Registered))"
    by (rule reach_step) (rule server_step.lookup, simp_all)
  then have "server_reach (?s (Found (eH 1)))"
    by (simp add: connectPeer_lookup_def set_phase_def run_fields hosting_def)
  then have "server_reach (connectPeer_lock 2 (eH 1) (?s (Found (eH 1))))"
    by (rule reach_step) (rule server_step.lock [where q = "qP (Found (eH 1))"], simp_all add: hosting_def run_fields)
  then show ?thesis
    by (simp add: connectPeer_lock_def set_phase_def run_fields hosting_def connecting_def)
qed

definition connected :: server where
  "connected = connectPeer_finish 2 (qP (Connecting (eH 1))) (eH 1) P2PSetup connecting"

lemma reach_connected: "server_reach connected"
proof -
  let ?a = "agent_stream (\<lambda>_. Inr True) (\<lambda>_. None)"
  have "server_reach (connectPeer_finish 2 (qP (Connecting (eH 1))) (eH 1)
      (peer_setup ?a (a_addrs (eH 1)) ?a (q_addrs (qP (Connecting (eH 1)))) [7]) connecting)"
    by (rule reach_step [OF reach_connecting], rule server_step.finish) (simp_all add: connecting_def)
  moreover have "peer_setup ?a addrs0 ?a addrs0 [7] = P2PSetup"
    by (simp add: peer_setup_def initP2P_def ConnectTo_agent connect_outcome_def p2p_result_def)
  ultimately show ?thesis by (simp add: connected_def)
qed

section \<open>Guarantees\<close>

text \<open>
  C3. Peers reach only their own game: whenever the server brought a host and a peer
  together, both had registered with the same key, the host as host and the peer as joiner;
  and the counters of \<open>Stats\<close> are the numbers of direct and relayed connections modulo
  \<open>2 ^ 64\<close>.
\<close>
theorem registar_connects_own_game:
  assumes "server_reach s" and "(k, hstr, pstr, p2p) \<in> set (h_peers s)"
  shows "(\<exists>q q'. reqs s hstr = Some q \<and> q_host q \<and> q_key q = k \<and>
      reqs s pstr = Some q' \<and> \<not> q_host q' \<and> q_key q' = k) \<and>
    P2PConns (Server_Stats s) = of_nat (length (filter (\<lambda>(_, _, _, p2p). p2p) (h_peers s))) \<and>
    RelayConns (Server_Stats s) = of_nat (length (filter (\<lambda>(_, _, _, p2p). \<not> p2p) (h_peers s)))"
  using server.inv_reach [OF assms(1)] assms(2)
  by (simp add: server_inv_def peers_inv_def Server_Stats_def) blast

theorem registar_connects_own_game_witness:
  "(\<exists>q q'. reqs connected 1 = Some q \<and> q_host q \<and> q_key q = gameA \<and>
      reqs connected 2 = Some q' \<and> \<not> q_host q' \<and> q_key q' = gameA) \<and>
   P2PConns (Server_Stats connected) = of_nat (length (filter (\<lambda>(_, _, _, p2p). p2p) (h_peers connected))) \<and>
   RelayConns (Server_Stats connected) = of_nat (length (filter (\<lambda>(_, _, _, p2p). \<not> p2p) (h_peers connected)))"
  by (rule registar_connects_own_game [OF reach_connected, of gameA 1 2 True])
    (simp add: connected_def connectPeer_finish_def)



text \<open>
  C26. Set-ups with one host do not overlap: two requests that are connecting to the same host
  are the same request, and the host's lock is held meanwhile.
\<close>
theorem registar_setup_exclusive:
  assumes "server_reach s"
    and "reqs s str = Some q" and "q_phase q = Connecting h"
    and "reqs s str' = Some q'" and "q_phase q' = Connecting h'" and "a_str h = a_str h'"
  shows "str = str' \<and> a_str h \<in> host_mu s"
proof -
  have "mutex_inv s" using server.inv_reach [OF assms(1)] by (simp add: server_inv_def)
  then show ?thesis using assms(2-6) unfolding mutex_inv_def by blast
qed

theorem registar_setup_exclusive_witness:
  "(2 :: stream) = 2 \<and> a_str (eH 1) \<in> host_mu connecting"
  by (rule registar_setup_exclusive [OF reach_connecting, of 2 "qP (Connecting (eH 1))" "eH 1"
        2 "qP (Connecting (eH 1))" "eH 1"])
    (simp_all add: connecting_def)

section \<open>Shortcomings\<close>

text \<open>The host reconnects: its new registration is answered before the old one is cleaned up.\<close>

definition reconnected :: server where
  "reconnected = base\<lparr>registeredConns := {10}, caAuthority := RemoveSessionCA gameA auth1,
     hosts := [gameA \<mapsto> eH 2], reqs := [1 \<mapsto> qH 0 (Closed 0), 2 \<mapsto> qH 60 Hosting]\<rparr>"

lemma reach_reconnected: "server_reach reconnected"
proof -
  let ?s = "\<lambda>ph. hosting\<lparr>reqs := [1 \<mapsto> qH 0 Hosting, 2 \<mapsto> qH 60 ph]\<rparr>"
  let ?g = "base\<lparr>registeredConns := {10}, caAuthority := RemoveSessionCA gameA auth1,
     reqs := [1 \<mapsto> qH 0 (Closed 0), 2 \<mapsto> qH 60 Registered]\<rparr>"
  have "snd (Register 2 gameA True 10 addrs0 csr0 (env_at 9 60) (env_at 0 60) hosting) = ?s Issued"
    by (simp add: Register_def cert_second run_fields qH_def hosting_def)
  moreover have "server_reach (snd (Register 2 gameA True 10 addrs0 csr0 (env_at 9 60) (env_at 0 60) hosting))"
    by (rule reach_request [OF reach_hosting]) (simp_all add: hosting_def)
  ultimately have "server_reach (?s Issued)" by simp
  then have "server_reach (registerConn 2 (qH 60 Issued) (?s Issued))"
    by (rule reach_step) (rule server_step.register_conn, simp_all)
  then have "server_reach (?s Registered)"
    by (simp add: registerConn_def set_phase_def run_fields hosting_def)
  then have "server_reach (hostGone 1 (qH 0 Hosting) (?s Registered))"
    by (rule reach_step) (rule server_step.host_gone, simp_all)
  then have "server_reach ?g"
    by (simp add: hostGone_def set_phase_def run_fields hosting_def fun_upd_twist)
  then have "server_reach (registerHost 2 (qH 60 Registered) ?g)"
    by (rule reach_step) (rule server_step.register_host, simp_all)
  then show ?thesis
    by (simp add: registerHost_def set_phase_def run_fields reconnected_def eH_def)
qed

text \<open>
  A reconnecting host can lose its session CA: when its new registration got its
  certificate before the old stream's clean-up removed the session CA, the host is
  registered with a certificate of a CA the server no longer has. A peer that joins then is
  issued a certificate of a new CA, and neither side's certificate verifies for the other.
\<close>
theorem registar_ca_race:
  "server_reach reconnected \<and> \<not> srv_closed reconnected \<and> hosts reconnected gameA = Some (eH 2) \<and>
   reqs reconnected 2 = Some (qH 60 Hosting) \<and>
   (\<exists>ca c a. NewSessionCert gameA csr0 (env_at 3 90) (env_at 0 90) (caAuthority reconnected) = (Inr (ca, c), a) \<and>
      verifies (q_ca (qH 60 Hosting)) c = (\<lambda>_. False) \<and> verifies ca (q_cert (qH 60 Hosting)) = (\<lambda>_. False))"
proof -
  have "NewSessionCert gameA csr0 (env_at 3 90) (env_at 0 90) (RemoveSessionCA gameA auth1) =
      (Inr (sca_cert (sca_of 3 90), leaf_of 3 90), auth1\<lparr>sessionsCA := [gameA \<mapsto> sca_of 3 90]\<rparr>)"
    by (simp add: NewSessionCert_def RemoveSessionCA_def auth1_def session0 issue0)
  moreover have "verifies (sca_cert (sca_of 2 0)) (leaf_of 3 90) = (\<lambda>_. False)"
      "verifies (sca_cert (sca_of 3 90)) (leaf_of 2 60) = (\<lambda>_. False)"
    by (auto simp: verifies_def sca_of_def ca_cert_def leaf_of_def)
  ultimately show ?thesis
    using reach_reconnected by (simp add: reconnected_def run_fields qH_def)
qed

text \<open>A join without a host, as one run of its handler.\<close>

definition lone_join :: "stream \<Rightarrow> key \<Rightarrow> server \<Rightarrow> server" where
  "lone_join str k s =
     (let s1 = snd (Register str k False 11 addrs0 csr0 (env_at 2 0) (env_at 0 0) s);
          s2 = registerConn str (the (reqs s1 str)) s1
      in connectPeer_lookup str (the (reqs s2 str)) s2)"

lemma cert_always:
  assumes "root a = root0"
  shows "\<exists>ca c a'. NewSessionCert k csr0 (env_at 2 0) (env_at 0 0) a = (Inr (ca, c), a') \<and>
    dom (sessionsCA a') = insert k (dom (sessionsCA a)) \<and> root a' = root0"
proof -
  have "\<exists>ca c. issue_with sca csr0 (env_at 0 0) = Inr (ca, c)" for sca
    by (simp add: issue_with_def NewCert_def env_at_def csr0_def)
  then show ?thesis using assms
    by (cases "sessionsCA a k") (auto simp: NewSessionCert_def session0)
qed

lemma lone_join_reach:
  assumes "server_reach s" and "reqs s str = None" and "srv_secret s = secret0"
    and "hosts s = Map.empty" and "root (caAuthority s) = root0"
  shows "server_reach (lone_join str k s) \<and> hosts (lone_join str k s) = Map.empty \<and>
    dom (sessionsCA (caAuthority (lone_join str k s))) = insert k (dom (sessionsCA (caAuthority s))) \<and>
    root (caAuthority (lone_join str k s)) = root0 \<and> srv_secret (lone_join str k s) = secret0 \<and>
    srv_closed (lone_join str k s) = srv_closed s \<and>
    (\<exists>q. reqs (lone_join str k s) = (reqs s)(str \<mapsto> q) \<and> q_phase q = Closed errCodeHostNotFound)"
proof -
  obtain ca c a' where nc: "NewSessionCert k csr0 (env_at 2 0) (env_at 0 0) (caAuthority s) = (Inr (ca, c), a')"
      and a': "dom (sessionsCA a') = insert k (dom (sessionsCA (caAuthority s)))" "root a' = root0"
    using cert_always [OF assms(5)] by blast
  define q where "q = \<lparr>q_key = k, q_host = False, q_conn = 11, q_addrs = addrs0, q_ca = ca,
    q_cert = c, q_phase = Issued\<rparr>"
  define s1 where "s1 = s\<lparr>caAuthority := a', reqs := (reqs s)(str \<mapsto> q)\<rparr>"
  have s1: "snd (Register str k False 11 addrs0 csr0 (env_at 2 0) (env_at 0 0) s) = s1"
    by (simp add: Register_def nc s1_def q_def)
  let ?s2 = "registerConn str q s1"
  let ?q2 = "q\<lparr>q_phase := Registered\<rparr>"
  have q2: "reqs ?s2 str = Some ?q2" by (simp add: registerConn_def s1_def)
  have "server_reach s1" using reach_request [OF assms(1-3)] s1 by metis
  then have "server_reach ?s2"
    by (rule reach_step) (rule server_step.register_conn, simp_all add: s1_def q_def)
  then have "server_reach (connectPeer_lookup str ?q2 ?s2)"
    by (rule reach_step) (rule server_step.lookup [OF q2], simp_all add: q_def)
  moreover have "lone_join str k s = connectPeer_lookup str ?q2 ?s2"
    using s1 q2 by (simp add: lone_join_def Let_def) (simp add: s1_def)
  ultimately show ?thesis
    by (auto simp: connectPeer_lookup_def registerConn_def s1_def assms a'
        intro!: exI [of _ "q\<lparr>q_phase := Closed errCodeHostNotFound\<rparr>"])
qed

text \<open>
  Session CAs of games without a host are never dropped: for any list of games there is a
  reachable state in which no host was ever registered and every join has been refused with
  host-not-found, yet the authority holds a session CA for every game of the list. (Only the
  end of a hosting stream, or \<open>Close\<close>, removes one.)
\<close>
theorem registar_ca_leak:
  "\<exists>s. server_reach s \<and> \<not> srv_closed s \<and> hosts s = Map.empty \<and>
     q_phase ` ran (reqs s) \<subseteq> {Closed errCodeHostNotFound} \<and>
     dom (sessionsCA (caAuthority s)) = set ks"
proof -
  have "\<exists>s. server_reach s \<and> \<not> srv_closed s \<and> hosts s = Map.empty \<and>
      q_phase ` ran (reqs s) \<subseteq> {Closed errCodeHostNotFound} \<and> finite (dom (reqs s)) \<and>
      srv_secret s = secret0 \<and> root (caAuthority s) = root0 \<and>
      dom (sessionsCA (caAuthority s)) = set ks"
  proof (induction ks)
    case Nil
    show ?case
      using reach_start
      by (intro exI [of _ "NewServer secret0 (NewAuthority root0)"] conjI)
        (simp_all add: NewServer_def NewAuthority_def)
  next
    case (Cons k ks)
    then obtain s where s: "server_reach s" "\<not> srv_closed s" "hosts s = Map.empty"
        "q_phase ` ran (reqs s) \<subseteq> {Closed errCodeHostNotFound}" "finite (dom (reqs s))"
        "srv_secret s = secret0" "root (caAuthority s) = root0"
        "dom (sessionsCA (caAuthority s)) = set ks" by blast
    obtain str where str: "reqs s str = None"
      using ex_new_if_finite [OF infinite_UNIV_nat s(5)] by (auto simp: dom_def)
    note j = lone_join_reach [OF s(1) str s(6) s(3) s(7), of k]
    then obtain q where q: "reqs (lone_join str k s) = (reqs s)(str \<mapsto> q)"
        "q_phase q = Closed errCodeHostNotFound" by blast
    have "q_phase ` ran (reqs (lone_join str k s)) \<subseteq> {Closed errCodeHostNotFound}"
      using s(4) str by (auto simp: q)
    moreover have "finite (dom (reqs (lone_join str k s)))" using s(5) by (simp add: q)
    ultimately show ?case using j s(2,8) by (intro exI [of _ "lone_join str k s"] conjI) auto
  qed
  then show ?thesis by blast
qed

end
