(* ===== verification/P2P_Connector.thy ===== *)
theory P2P_Connector
  imports Http_Model Netip "HOL-Library.List_Lexorder" "HOL-Library.Char_ord"
begin

text \<open>
  The hole-punching connector of \<^verbatim>\<open>internal/registar/p2p/connector.go\<close>. First the pure parts: the
  handshake of the accepting and of the dialling side with every error path, and what the
  two loops do with its outcome. Then two connectors that work against each other, as a step
  relation: both accept and dial at the same time, and the tie-breaking on the connector ids
  has to make them agree on one connection. QUIC is the environment: a stream operation may
  fail with any error at any time; closing a stream fails only when it was cancelled, with an
  error of no particular type.
\<close>

section \<open>Error classification\<close>

definition errcodeCancelled :: u64 where "errcodeCancelled = 1"
definition errcodeBadRequest :: u64 where "errcodeBadRequest = 2"
definition errcodeConflict :: u64 where "errcodeConflict = 3"

definition ErrCodeRequestRejected :: u64 where "ErrCodeRequestRejected = 0x10b"
definition ErrCodeRequestCanceled :: u64 where "ErrCodeRequestCanceled = 0x10c"

definition ErrServerClosed :: leaf where "ErrServerClosed = Sentinel ''quic: server closed''"

definition isRequestCancelledError :: "error \<Rightarrow> bool \<Rightarrow> bool" where
  "isRequestCancelledError e isRemote = as_stream e ErrCodeRequestCanceled isRemote"

definition isRequestRejectedError :: "error \<Rightarrow> bool \<Rightarrow> bool" where
  "isRequestRejectedError e isRemote = as_stream e ErrCodeRequestRejected isRemote"

definition isRemoteConflictError :: "error \<Rightarrow> bool" where
  "isRemoteConflictError e = as_application e errcodeConflict True"

definition isRemoteCancelledError :: "error \<Rightarrow> bool" where
  "isRemoteCancelledError e = as_application e errcodeCancelled True"

definition StatusConflict :: int where "StatusConflict = 409"

section \<open>Construction\<close>

text \<open>
  \<open>NewConnector\<close>: a random id of eight bytes in hexadecimal, defaults, then the options in order.
  Durations are in nanoseconds; a logger is known by its name, \<open>None\<close> discards.
\<close>

record connector =
  con_id :: string
  KeepAlivePeriod :: int
  EnableDatagrams :: bool
  HandshakeIdleTimeout :: int
  con_logger :: "string option"

definition NewConnector :: "bytes \<Rightarrow> (connector \<Rightarrow> connector) list \<Rightarrow> connector" where
  "NewConnector rnd opts =
     foldl (\<lambda>c opt. opt c)
       \<lparr>con_id = hex_EncodeToString rnd, KeepAlivePeriod = 10 * 10 ^ 9, EnableDatagrams = True,
        HandshakeIdleTimeout = 0, con_logger = None\<rparr> opts"

definition WithLogger :: "string \<Rightarrow> connector \<Rightarrow> connector" where
  "WithLogger logger c = c\<lparr>con_logger := Some logger\<rparr>"

definition WithHandshakeIdleTimeout :: "int \<Rightarrow> connector \<Rightarrow> connector" where
  "WithHandshakeIdleTimeout d c = c\<lparr>HandshakeIdleTimeout := d\<rparr>"

text \<open>The options the client uses: logger and, for a positive value, the idle timeout.\<close>

definition connectorOpts :: "string \<Rightarrow> int \<Rightarrow> (connector \<Rightarrow> connector) list" where
  "connectorOpts logger timeout =
     WithLogger logger # (if timeout > 0 then [WithHandshakeIdleTimeout timeout] else [])"

text \<open>The request of the handshake and the header of it that the other end reads.\<close>

record p2p_request =
  pr_method :: string
  pr_url :: string
  pr_header :: "(string \<times> string) list"

definition newRequest :: "connector \<Rightarrow> p2p_request" where
  "newRequest c = \<lparr>pr_method = ''CONNECT'', pr_url = ''/connect'', pr_header = [(''X-Connector-ID'', con_id c)]\<rparr>"

definition request_id :: "p2p_request \<Rightarrow> string" where
  "request_id r = (case map_of (pr_header r) ''X-Connector-ID'' of Some i \<Rightarrow> i | None \<Rightarrow> [])"

definition connectedVia :: "addr_port \<Rightarrow> addr_port \<Rightarrow> addr_port \<Rightarrow> string" where
  "connectedVia remote public private =
     (if remote = public then ''public dial'' else if remote = private then ''private dial'' else ''accept'')"

text \<open>What closing a stream returns.\<close>

definition close_error :: "bool \<Rightarrow> error" where
  "close_error cancelled =
     (if cancelled then Some (Leaf (Opaque ''close called for canceled stream'')) else None)"

section \<open>The accepting side\<close>

record read_env =
  re_accept :: error             \<comment> \<open>\<open>AcceptStream\<close>\<close>
  re_request :: "err + string"   \<comment> \<open>the \<open>X-Connector-ID\<close> of the request that was read\<close>
  re_write :: error
  re_close :: bool               \<comment> \<open>the stream is cancelled when it is closed\<close>

text \<open>The status that was written, if any, and the result.\<close>

definition readHandshake :: "string \<Rightarrow> read_env \<Rightarrow> int option \<times> bool \<times> error" where
  "readHandshake cid env =
     (case re_accept env of Some e \<Rightarrow> (None, False, errorf ''accept stream'' e)
      | None \<Rightarrow>
     (case re_request env of
        Inl e \<Rightarrow> (None, False, if isRequestRejectedError (Some e) False then Some (Leaf ContextCanceled)
                             else errorf ''read request'' e)
      | Inr peerID \<Rightarrow>
          if peerID = [] then (None, False, Some (Leaf (BadRequestError ''missing X-Connector-ID'')))
          else
            (let ok = \<not> cid < peerID; st = (if ok then StatusOK else StatusConflict) in
             case re_write env of
               Some e \<Rightarrow> (None, False, if isRequestRejectedError (Some e) False then Some (Leaf ContextCanceled)
                                     else errorf ''write response'' e)
             | None \<Rightarrow> (Some st, ok, close_error (re_close env)))))"

datatype turn = Retry "u64 option" | Fail err | Offer

text \<open>The body of \<open>acceptLoop\<close> for one connection: retry (closing with a code), fail or offer.\<close>

definition accept_turn :: "string \<Rightarrow> bool \<Rightarrow> read_env \<Rightarrow> int option \<times> turn" where
  "accept_turn cid datagrams env =
     (if \<not> datagrams then (None, Retry (Some errcodeCancelled))
      else
        (case readHandshake cid env of
           (st, ok, Some e) \<Rightarrow>
             (st,
              if errorsIs (Some e) ContextCanceled then Retry (Some errcodeCancelled)
              else if isRequestCancelledError (Some e) True then Retry (Some errcodeCancelled)
              else if isRemoteCancelledError (Some e) then Retry None
              else if errorsAs (Some e) is_BadRequestError \<noteq> None then Retry (Some errcodeBadRequest)
              else Fail (Wrap ''handle request'' e))
         | (st, ok, None) \<Rightarrow> (st, if ok then Offer else Retry (Some errcodeConflict))))"

text \<open>A failed \<open>Accept\<close>: \<open>None\<close> ends the loop without an error.\<close>

definition accept_failed :: "err \<Rightarrow> error" where
  "accept_failed e =
     (if errorsIs (Some e) ContextCanceled then None
      else if errorsIs (Some e) ErrServerClosed then None
      else errorf ''accept'' e)"

section \<open>The dialling side\<close>

record send_env =
  se_open :: error
  se_write :: error
  se_close :: bool
  se_response :: "err + int \<times> bytes"

definition sendHandshake :: "send_env \<Rightarrow> bool \<times> error" where
  "sendHandshake env =
     (case se_open env of Some e \<Rightarrow> (False, errorf ''open stream'' e)
      | None \<Rightarrow>
     (case se_write env of
        Some e \<Rightarrow> (False, if isRequestCancelledError (Some e) False then Some (Leaf ContextCanceled)
                        else errorf ''write request'' e)
      | None \<Rightarrow>
     (case close_error (se_close env) of
        Some e \<Rightarrow> (False, errorf ''close stream'' e)
      | None \<Rightarrow>
     (case se_response env of
        Inl e \<Rightarrow> (False, if isRequestCancelledError (Some e) False then Some (Leaf ContextCanceled)
                       else errorf ''read response'' e)
      | Inr (st, body) \<Rightarrow>
          if st = StatusConflict then (False, None)
          else if st \<noteq> StatusOK then (False, Some (NewBadStatusCodeError st body))
          else (True, None)))))"

definition dial_turn :: "bool \<Rightarrow> send_env \<Rightarrow> turn" where
  "dial_turn datagrams env =
     (if \<not> datagrams then Retry (Some errcodeCancelled)
      else
        (case sendHandshake env of
           (ok, Some e) \<Rightarrow>
             if errorsIs (Some e) ContextCanceled then Retry (Some errcodeCancelled)
             else if isRemoteConflictError (Some e) then Retry None
             else if isRemoteCancelledError (Some e) then Retry None
             else Fail (Wrap ''send handshake'' e)
         | (ok, None) \<Rightarrow> if ok then Offer else Retry (Some errcodeConflict)))"

definition dial_failed :: "err \<Rightarrow> error" where
  "dial_failed e = (if errorsIs (Some e) ContextCanceled then None else errorf ''dial'' e)"

lemma accept_turn_ok:
  "fst (accept_turn cid d env) = Some StatusOK \<Longrightarrow>
     (\<exists>p. re_request env = Inr p \<and> p \<le> cid) \<and>
     (snd (accept_turn cid d env) = Offer \<or> (\<exists>e. snd (accept_turn cid d env) = Fail e))"
  by (auto simp: accept_turn_def readHandshake_def Let_def close_error_def StatusOK_def StatusConflict_def
      isRequestCancelledError_def isRemoteCancelledError_def as_stream_def as_application_def
      ContextCanceled_def split: if_splits option.splits sum.splits)

lemma accept_turn_offer:
  "snd (accept_turn cid d env) = Offer \<Longrightarrow> fst (accept_turn cid d env) = Some StatusOK"
  by (auto simp: accept_turn_def readHandshake_def Let_def close_error_def
      split: if_splits option.splits sum.splits prod.splits)

lemma dial_turn_offer:
  "dial_turn d env = Offer \<Longrightarrow> \<exists>b. se_response env = Inr (StatusOK, b)"
  by (auto simp: dial_turn_def sendHandshake_def close_error_def
      split: if_splits option.splits sum.splits prod.splits)

section \<open>Two connectors\<close>

text \<open>
  The two ends are told apart by a boolean; a connection is its number, with the end that
  dialled it and the status the other end has written on it.
\<close>

type_synonym side = bool

datatype acceptor = AIdle | AOffer nat | AEnd
datatype dialer = DIdle | DWait nat | DOffer nat | DEnd
datatype main = MWait | MChosen nat | MGone

record side_st =
  cid :: string
  acceptor :: acceptor
  dialers :: "dialer list"
  main :: main
  cancelled :: bool      \<comment> \<open>\<open>attemptsCtx\<close> is done\<close>
  failed :: error        \<comment> \<open>the error of the group\<close>

record net =
  ends :: "side \<Rightarrow> side_st"
  dialled_by :: "nat \<rightharpoonup> side"
  replied :: "nat \<rightharpoonup> int"

text \<open>How many dial loops \<open>Connect\<close> starts.\<close>

definition dial_count :: "addr_port \<Rightarrow> addr_port \<Rightarrow> nat" where
  "dial_count public private = (if AddrPort_Compare private public \<noteq> 0 then 2 else 1)"

text \<open>\<open>listen\<close> is the error of \<open>ListenEarly\<close>; without one the accept loop and the dial loops run.\<close>

definition Connect_start :: "string \<Rightarrow> error \<Rightarrow> addr_port \<Rightarrow> addr_port \<Rightarrow> err + side_st" where
  "Connect_start i listen public private =
     (case listen of
        Some e \<Rightarrow> Inl (Wrap ''listen early'' e)
      | None \<Rightarrow> Inr \<lparr>cid = i, acceptor = AIdle, dialers = replicate (dial_count public private) DIdle,
          main = MWait, cancelled = False, failed = None\<rparr>)"

definition upd :: "side \<Rightarrow> side_st \<Rightarrow> net \<Rightarrow> net" where
  "upd x st n = n\<lparr>ends := (ends n)(x := st)\<rparr>"

text \<open>The first error of the group cancels the rest.\<close>

definition fail_with :: "error \<Rightarrow> side_st \<Rightarrow> side_st" where
  "fail_with e st = (case e of None \<Rightarrow> st
     | Some _ \<Rightarrow> st\<lparr>failed := (if failed st = None then e else failed st), cancelled := True\<rparr>)"

definition after_accept :: "nat \<Rightarrow> turn \<Rightarrow> side_st \<Rightarrow> side_st" where
  "after_accept c t st =
     (case t of Retry _ \<Rightarrow> st | Offer \<Rightarrow> st\<lparr>acceptor := AOffer c\<rparr>
      | Fail e \<Rightarrow> fail_with (Some e) (st\<lparr>acceptor := AEnd\<rparr>))"

definition after_dial :: "nat \<Rightarrow> nat \<Rightarrow> turn \<Rightarrow> side_st \<Rightarrow> side_st" where
  "after_dial i c t st =
     (case t of Retry _ \<Rightarrow> st\<lparr>dialers := (dialers st)[i := DIdle]\<rparr>
      | Offer \<Rightarrow> st\<lparr>dialers := (dialers st)[i := DOffer c]\<rparr>
      | Fail e \<Rightarrow> fail_with (Some e) (st\<lparr>dialers := (dialers st)[i := DEnd]\<rparr>))"

inductive p2p_step :: "net \<Rightarrow> net \<Rightarrow> bool" where
  dial: "i < length (dialers (ends n x)) \<Longrightarrow> dialers (ends n x) ! i = DIdle \<Longrightarrow> dialled_by n c = None \<Longrightarrow>
     p2p_step n (upd x ((ends n x)\<lparr>dialers := (dialers (ends n x))[i := DWait c]\<rparr>)
                  (n\<lparr>dialled_by := (dialled_by n)(c \<mapsto> x)\<rparr>))"
| dial_error: "i < length (dialers (ends n x)) \<Longrightarrow> dialers (ends n x) ! i = DIdle \<Longrightarrow>
     p2p_step n (upd x (fail_with (dial_failed e)
       ((ends n x)\<lparr>dialers := (dialers (ends n x))[i := DEnd]\<rparr>)) n)"
| accept: "acceptor (ends n x) = AIdle \<Longrightarrow> dialled_by n c = Some (\<not> x) \<Longrightarrow> replied n c = None \<Longrightarrow>
     (\<forall>p. re_request env = Inr p \<longrightarrow> p = cid (ends n (\<not> x))) \<Longrightarrow>
     accept_turn (cid (ends n x)) dg env = (st, t) \<Longrightarrow>
     p2p_step n (upd x (after_accept c t (ends n x)) (n\<lparr>replied := (replied n)(c := st)\<rparr>))"
| accept_error: "acceptor (ends n x) = AIdle \<Longrightarrow>
     p2p_step n (upd x (fail_with (accept_failed e) ((ends n x)\<lparr>acceptor := AEnd\<rparr>)) n)"
| handshake: "i < length (dialers (ends n x)) \<Longrightarrow> dialers (ends n x) ! i = DWait c \<Longrightarrow>
     (\<forall>st b. se_response env = Inr (st, b) \<longrightarrow> replied n c = Some st) \<Longrightarrow>
     p2p_step n (upd x (after_dial i c (dial_turn dg env) (ends n x)) n)"
| take_accepted: "acceptor (ends n x) = AOffer c \<Longrightarrow> main (ends n x) = MWait \<Longrightarrow>
     p2p_step n (upd x ((ends n x)\<lparr>acceptor := AEnd, main := MChosen c, cancelled := True\<rparr>) n)"
| take_dialled: "i < length (dialers (ends n x)) \<Longrightarrow> dialers (ends n x) ! i = DOffer c \<Longrightarrow>
     main (ends n x) = MWait \<Longrightarrow>
     p2p_step n (upd x ((ends n x)\<lparr>dialers := (dialers (ends n x))[i := DEnd], main := MChosen c,
       cancelled := True\<rparr>) n)"
| drop_accepted: "acceptor (ends n x) = AOffer c \<Longrightarrow> cancelled (ends n x) \<Longrightarrow>
     p2p_step n (upd x ((ends n x)\<lparr>acceptor := AEnd\<rparr>) n)"
| drop_dialled: "i < length (dialers (ends n x)) \<Longrightarrow> dialers (ends n x) ! i = DOffer c \<Longrightarrow>
     cancelled (ends n x) \<Longrightarrow>
     p2p_step n (upd x ((ends n x)\<lparr>dialers := (dialers (ends n x))[i := DEnd]\<rparr>) n)"
| cancel: "p2p_step n (upd x ((ends n x)\<lparr>cancelled := True\<rparr>) n)"
| give_up: "main (ends n x) = MWait \<Longrightarrow> cancelled (ends n x) \<Longrightarrow>
     p2p_step n (upd x ((ends n x)\<lparr>main := MGone\<rparr>) n)"

text \<open>
  What \<open>Connect\<close> returns; \<open>None\<close> while it runs, for it waits for its loops. A cancelled \<open>Connect\<close>
  whose loops all ended without an error returns neither a connection nor an error.
\<close>

definition loops_ended :: "side_st \<Rightarrow> bool" where
  "loops_ended st \<longleftrightarrow> acceptor st = AEnd \<and> list_all (\<lambda>d. d = DEnd) (dialers st)"

definition Connect_result :: "side_st \<Rightarrow> (error + nat) option" where
  "Connect_result st =
     (if \<not> loops_ended st then None
      else case main st of
        MWait \<Rightarrow> None
      | MChosen c \<Rightarrow> Some (case failed st of None \<Rightarrow> Inr c | Some e \<Rightarrow> Inl (Some e))
      | MGone \<Rightarrow> Some (Inl (failed st)))"

definition p2p_init :: "net \<Rightarrow> bool" where
  "p2p_init n \<longleftrightarrow> dialled_by n = Map.empty \<and> replied n = Map.empty \<and>
     (\<forall>x. \<exists>i pub priv. Connect_start i None pub priv = Inr (ends n x))"

abbreviation p2p_reach :: "net \<Rightarrow> bool" where "p2p_reach \<equiv> reach p2p_init p2p_step"

section \<open>Invariant\<close>

text \<open>Connections an end has been told to use: offered by a loop, or chosen.\<close>

fun dialer_offer :: "dialer \<Rightarrow> nat set" where
  "dialer_offer (DOffer c) = {c}" | "dialer_offer _ = {}"

fun acceptor_offer :: "acceptor \<Rightarrow> nat set" where
  "acceptor_offer (AOffer c) = {c}" | "acceptor_offer _ = {}"

fun main_offer :: "main \<Rightarrow> nat set" where
  "main_offer (MChosen c) = {c}" | "main_offer _ = {}"

definition offers :: "side_st \<Rightarrow> nat set" where
  "offers st = acceptor_offer (acceptor st) \<union> \<Union> (dialer_offer ` set (dialers st)) \<union> main_offer (main st)"

definition okays :: "net \<Rightarrow> nat set" where
  "okays n = {c. replied n c = Some StatusOK}"

definition p2p_inv :: "net \<Rightarrow> bool" where
  "p2p_inv n \<longleftrightarrow>
     (\<forall>x. offers (ends n x) \<subseteq> okays n) \<and>
     (\<forall>c. replied n c \<noteq> None \<longrightarrow> dialled_by n c \<noteq> None) \<and>
     (\<forall>c x. c \<in> okays n \<and> dialled_by n c = Some x \<longrightarrow>
        cid (ends n x) \<le> cid (ends n (\<not> x)) \<and> acceptor (ends n (\<not> x)) \<noteq> AIdle) \<and>
     (\<forall>c c'. c \<in> okays n \<and> c' \<in> okays n \<and> dialled_by n c = dialled_by n c' \<longrightarrow> c = c')"

lemma p2p_invI:
  assumes "\<And>x. offers (ends n x) \<subseteq> okays n"
    and "\<And>c. replied n c \<noteq> None \<Longrightarrow> dialled_by n c \<noteq> None"
    and "\<And>c x. c \<in> okays n \<Longrightarrow> dialled_by n c = Some x \<Longrightarrow>
      cid (ends n x) \<le> cid (ends n (\<not> x)) \<and> acceptor (ends n (\<not> x)) \<noteq> AIdle"
    and "\<And>c c'. c \<in> okays n \<Longrightarrow> c' \<in> okays n \<Longrightarrow> dialled_by n c = dialled_by n c' \<Longrightarrow> c = c'"
  shows "p2p_inv n"
  using assms unfolding p2p_inv_def by blast

lemma p2p_invD:
  assumes "p2p_inv n"
  shows "offers (ends n x) \<subseteq> okays n"
    and "replied n c \<noteq> None \<Longrightarrow> dialled_by n c \<noteq> None"
    and "c \<in> okays n \<Longrightarrow> dialled_by n c = Some x \<Longrightarrow>
      cid (ends n x) \<le> cid (ends n (\<not> x)) \<and> acceptor (ends n (\<not> x)) \<noteq> AIdle"
    and "c \<in> okays n \<Longrightarrow> c' \<in> okays n \<Longrightarrow> dialled_by n c = dialled_by n c' \<Longrightarrow> c = c'"
  using assms unfolding p2p_inv_def by blast+

lemma upd_simps [simp]:
  "ends (upd x st n) = (ends n)(x := st)" "dialled_by (upd x st n) = dialled_by n"
  "replied (upd x st n) = replied n"
  by (simp_all add: upd_def)

lemma upd_same: "st = ends n x \<Longrightarrow> upd x st n = n"
  by (simp add: upd_def)

lemma fail_with_simps [simp]:
  "cid (fail_with e st) = cid st" "acceptor (fail_with e st) = acceptor st"
  "dialers (fail_with e st) = dialers st" "main (fail_with e st) = main st"
  by (simp_all add: fail_with_def split: option.split)

lemma offers_fail [simp]: "offers (fail_with e st) = offers st"
  by (simp add: offers_def)

lemma offers_dialer:
  "offers (st\<lparr>dialers := (dialers st)[i := d]\<rparr>) \<subseteq> offers st \<union> dialer_offer d"
  using set_update_subset_insert [of "dialers st" i d] by (auto simp: offers_def)

text \<open>A move of one end that answers nothing keeps the invariant.\<close>

lemma p2p_inv_move:
  assumes "p2p_inv n" and "cid st = cid (ends n x)"
    and "acceptor st = AIdle \<Longrightarrow> acceptor (ends n x) = AIdle" and "offers st \<subseteq> okays n"
  shows "p2p_inv (upd x st n)"
proof -
  have o: "okays (upd x st n) = okays n" by (simp add: okays_def)
  have "cid (ends (upd x st n) y) \<le> cid (ends (upd x st n) (\<not> y)) \<and>
      acceptor (ends (upd x st n) (\<not> y)) \<noteq> AIdle"
    if "c \<in> okays n" "dialled_by n c = Some y" for c y
  proof -
    have "cid (ends n y) \<le> cid (ends n (\<not> y)) \<and> acceptor (ends n (\<not> y)) \<noteq> AIdle"
      using p2p_invD(3) [OF assms(1) that] .
    then show ?thesis using assms(2,3) by (cases "x = y") auto
  qed
  moreover have "offers (ends (upd x st n) y) \<subseteq> okays n" for y
    using assms(4) p2p_invD(1) [OF assms(1)] by simp
  ultimately show ?thesis
    using p2p_invD(2,4) [OF assms(1)] by (intro p2p_invI) (simp_all only: o upd_simps(2,3) simp_thms)
qed

lemma p2p_inv_dial:
  assumes "p2p_inv n" and "dialled_by n c = None"
  shows "p2p_inv (n\<lparr>dialled_by := (dialled_by n)(c \<mapsto> x)\<rparr>)"
proof -
  have "replied n c = None" using assms unfolding p2p_inv_def by metis
  then show ?thesis using assms unfolding p2p_inv_def okays_def by auto
qed

text \<open>A handled connection gets its status; an OK needs an idle acceptor and ends its idling.\<close>

lemma p2p_inv_refuse:
  assumes inv: "p2p_inv n" and idle: "acceptor (ends n x) = AIdle"
    and c: "dialled_by n c = Some (\<not> x)" "replied n c = None"
    and turn: "accept_turn (cid (ends n x)) dg env = (st, t)" and False: "st \<noteq> Some StatusOK"
  shows "p2p_inv (upd x (after_accept c t (ends n x)) (n\<lparr>replied := (replied n)(c := st)\<rparr>))"
proof -
  let ?n = "n\<lparr>replied := (replied n)(c := st)\<rparr>"
  have "okays ?n = okays n" using False c(2) by (auto simp: okays_def)
  then have "p2p_inv ?n"
    using p2p_invD [OF inv] c by (intro p2p_invI) (auto split: if_splits)
  moreover have "t \<noteq> Offer" using accept_turn_offer [of "cid (ends n x)" dg env] turn False by auto
  then have "offers (after_accept c t (ends n x)) \<subseteq> offers (ends n x)"
    by (cases t) (auto simp: after_accept_def offers_def)
  then have "offers (after_accept c t (ends n x)) \<subseteq> okays n" using inv unfolding p2p_inv_def by blast
  ultimately show ?thesis
    using idle \<open>okays ?n = okays n\<close>
    by (intro p2p_inv_move) (cases t; simp add: after_accept_def)+
qed

lemma p2p_inv_okay:
  assumes inv: "p2p_inv n" and idle: "acceptor (ends n x) = AIdle"
    and c: "dialled_by n c = Some (\<not> x)" "replied n c = None"
    and req: "\<forall>p. re_request env = Inr p \<longrightarrow> p = cid (ends n (\<not> x))"
    and turn: "accept_turn (cid (ends n x)) dg env = (st, t)" and True: "st = Some StatusOK"
  shows "p2p_inv (upd x (after_accept c t (ends n x)) (n\<lparr>replied := (replied n)(c := st)\<rparr>))"
proof -
  let ?n = "upd x (after_accept c t (ends n x)) (n\<lparr>replied := (replied n)(c := st)\<rparr>)"
  have ok: "cid (ends n (\<not> x)) \<le> cid (ends n x)" "t = Offer \<or> (\<exists>e. t = Fail e)"
    using accept_turn_ok [of "cid (ends n x)" dg env] turn True req by auto
  have o: "okays ?n = insert c (okays n)" using True by (auto simp: okays_def)
  have new: "c' \<notin> okays n" if "dialled_by n c' = Some (\<not> x)" for c'
    using p2p_invD(3) [OF inv _ that] idle by auto
  have "offers (after_accept c t (ends n x)) \<subseteq> insert c (offers (ends n x))"
    using ok(2) by (auto simp: after_accept_def offers_def)
  then have 1: "offers (ends ?n y) \<subseteq> okays ?n" for y
    using p2p_invD(1) [OF inv] unfolding o by (cases "y = x") auto
  have 2: "acceptor (after_accept c t (ends n x)) \<noteq> AIdle" "cid (after_accept c t (ends n x)) = cid (ends n x)"
    using ok(2) by (auto simp: after_accept_def)
  have 3: "cid (ends ?n y) \<le> cid (ends ?n (\<not> y)) \<and> acceptor (ends ?n (\<not> y)) \<noteq> AIdle"
    if "c' \<in> okays ?n" "dialled_by n c' = Some y" for c' y
  proof (cases "c' = c")
    case True
    then have "y = (\<not> x)" using c(1) that(2) by simp
    then show ?thesis using ok(1) 2 by simp
  next
    case False
    then have "cid (ends n y) \<le> cid (ends n (\<not> y)) \<and> acceptor (ends n (\<not> y)) \<noteq> AIdle"
      using p2p_invD(3) [OF inv _ that(2)] that(1) unfolding o by auto
    then show ?thesis using 2 by (cases "x = y") auto
  qed
  have "c' = c''" if "c' \<in> okays ?n" "c'' \<in> okays ?n" "dialled_by n c' = dialled_by n c''" for c' c''
    using that new c(1) p2p_invD(4) [OF inv, of c' c''] unfolding o by (metis insert_iff)
  moreover have "replied ?n c' \<noteq> None \<Longrightarrow> dialled_by n c' \<noteq> None" for c'
    using p2p_invD(2) [OF inv, of c'] c(1) by (cases "c' = c") auto
  ultimately show ?thesis using 1 3 by (intro p2p_invI) (simp_all only: upd_simps(2), simp_all)
qed

lemmas p2p_inv_accept = p2p_inv_refuse p2p_inv_okay

text \<open>A side that offers nothing new.\<close>

lemma p2p_inv_shrink:
  assumes "p2p_inv n" and "cid st = cid (ends n x)"
    and "acceptor st = AIdle \<Longrightarrow> acceptor (ends n x) = AIdle" and "offers st \<subseteq> offers (ends n x)"
  shows "p2p_inv (upd x st n)"
  using assms(4) by (intro p2p_inv_move [OF assms(1-3)]) (use p2p_invD(1) [OF assms(1)] in blast)+

lemma p2p_inv_step:
  assumes "p2p_inv n" and "p2p_step n n'"
  shows "p2p_inv n'"
proof -
  have sub: "offers (ends n x) \<subseteq> okays n" for x using assms(1) unfolding p2p_inv_def by blast
  have dl: "offers ((ends n x)\<lparr>dialers := (dialers (ends n x))[i := d]\<rparr>) \<subseteq> okays n"
    if "dialer_offer d \<subseteq> okays n" for x i d
    using offers_dialer [of "ends n x" i d] sub [of x] that by blast
  show ?thesis using assms(2)
  proof cases
    case (dial i x c)
    let ?n = "n\<lparr>dialled_by := (dialled_by n)(c \<mapsto> x)\<rparr>"
    have "okays ?n = okays n" by (simp add: okays_def)
    then show ?thesis unfolding dial(1)
      using p2p_inv_dial [OF assms(1) dial(4), of x] dl by (intro p2p_inv_move) auto
  next
    case (dial_error i x e)
    then show ?thesis unfolding dial_error(1) using dl
      by (intro p2p_inv_move [OF assms(1)]) auto
  next
    case (accept x c env dg st t)
    then show ?thesis using p2p_inv_accept [OF assms(1)] by blast
  next
    case (handshake i x c env dg)
    have "dial_turn dg env = Offer \<Longrightarrow> c \<in> okays n"
      using dial_turn_offer [of dg env] handshake(4) by (auto simp: okays_def)
    then show ?thesis unfolding handshake(1) using dl
      by (intro p2p_inv_move [OF assms(1)]) (cases "dial_turn dg env"; simp add: after_dial_def)+
  next
    case (take_accepted x c)
    then show ?thesis unfolding take_accepted(1) by (intro p2p_inv_shrink [OF assms(1)]) (auto simp: offers_def)
  next
    case (take_dialled i x c)
    have "DOffer c \<in> set (dialers (ends n x))" using take_dialled by (metis nth_mem)
    then have "c \<in> okays n" using sub [of x] by (force simp: offers_def)
    moreover have "offers ((ends n x)\<lparr>dialers := (dialers (ends n x))[i := DEnd], main := MChosen c,
        cancelled := True\<rparr>) \<subseteq> insert c (offers ((ends n x)\<lparr>dialers := (dialers (ends n x))[i := DEnd]\<rparr>))"
      by (auto simp: offers_def)
    ultimately show ?thesis unfolding take_dialled(1) using dl [of DEnd x i]
      by (intro p2p_inv_move [OF assms(1)]) auto
  next
    case (drop_dialled i x c)
    then show ?thesis unfolding drop_dialled(1) using dl
      by (intro p2p_inv_move [OF assms(1)]) auto
  qed (auto simp: offers_def intro!: p2p_inv_shrink [OF assms(1)])
qed

interpretation p2p: inductive_invariant p2p_init p2p_step p2p_inv
proof
  fix n
  assume "p2p_init n"
  moreover have "offers st = {}" if "Connect_start i None pub priv = Inr st" for i pub priv st
    using that by (auto simp: Connect_start_def offers_def)
  ultimately show "p2p_inv n" unfolding p2p_init_def p2p_inv_def okays_def
    by (metis empty_subsetI mem_Collect_eq option.distinct(1))
qed (rule p2p_inv_step)

section \<open>Construction\<close>

text \<open>The other end reads the id that was sent; ids of different random bytes differ.\<close>

lemma request_id_newRequest: "request_id (newRequest c) = con_id c"
  by (simp add: request_id_def newRequest_def)

lemma NewConnector_client:
  "NewConnector rnd (connectorOpts logger timeout) =
     \<lparr>con_id = hex_EncodeToString rnd, KeepAlivePeriod = 10 * 10 ^ 9, EnableDatagrams = True,
      HandshakeIdleTimeout = max 0 timeout, con_logger = Some logger\<rparr>"
  by (simp add: NewConnector_def connectorOpts_def WithLogger_def WithHandshakeIdleTimeout_def)

lemma NewConnector_id:
  "con_id (NewConnector rnd (connectorOpts logger t)) = con_id (NewConnector rnd' (connectorOpts logger' t')) \<longleftrightarrow> rnd = rnd'"
  by (simp add: NewConnector_client hex_EncodeToString_inj)

section \<open>A cancelled Connect can return\<close>

lemma dialer_settles:
  assumes "i < length (dialers (ends n x))" and "cancelled (ends n x)"
  shows "p2p_step\<^sup>*\<^sup>* n (upd x ((ends n x)\<lparr>dialers := (dialers (ends n x))[i := DEnd]\<rparr>) n)"
proof -
  have idle: "p2p_step n (upd x ((ends n x)\<lparr>dialers := (dialers (ends n x))[i := DEnd]\<rparr>) n)"
    if "i < length (dialers (ends n x))" "dialers (ends n x) ! i = DIdle" for n
    using dial_error [OF that, of "Leaf ContextCanceled"] by (simp add: dial_failed_def fail_with_def)
  show ?thesis
  proof (cases "dialers (ends n x) ! i")
    case DIdle
    then show ?thesis using idle [OF assms(1)] by blast
  next
    case (DWait c)
    let ?env = "\<lparr>se_open = Some (Leaf ContextCanceled), se_write = None, se_close = False,
        se_response = Inl (Leaf ContextCanceled)\<rparr>"
    let ?m = "upd x ((ends n x)\<lparr>dialers := (dialers (ends n x))[i := DIdle]\<rparr>) n"
    have "dial_turn True ?env = Retry (Some errcodeCancelled)"
      by (simp add: dial_turn_def sendHandshake_def errorf_def)
    then have "p2p_step n ?m"
      using handshake [OF assms(1) DWait, of ?env True] by (simp add: after_dial_def)
    moreover have "p2p_step ?m (upd x ((ends n x)\<lparr>dialers := (dialers (ends n x))[i := DEnd]\<rparr>) n)"
      using idle [of ?m] assms(1) by (simp add: upd_def)
    ultimately show ?thesis by simp
  next
    case (DOffer c)
    then show ?thesis using drop_dialled [OF assms(1) DOffer assms(2)] by blast
  next
    case DEnd
    then have "(dialers (ends n x))[i := DEnd] = dialers (ends n x)"
      using assms(1) by (simp add: list_update_same_conv)
    then show ?thesis by (simp add: upd_same)
  qed
qed

lemma dialers_settle:
  assumes "cancelled (ends n x)" and "k \<le> length (dialers (ends n x))"
  shows "p2p_step\<^sup>*\<^sup>* n (upd x ((ends n x)\<lparr>dialers := replicate k DEnd @ drop k (dialers (ends n x))\<rparr>) n)"
  using assms(2)
proof (induction k)
  case 0
  then show ?case by (simp add: upd_def)
next
  case (Suc k)
  let ?m = "upd x ((ends n x)\<lparr>dialers := replicate k DEnd @ drop k (dialers (ends n x))\<rparr>) n"
  have "(replicate k DEnd @ drop k ds)[k := DEnd] = replicate (Suc k) DEnd @ drop (Suc k) ds"
    if "k < length ds" for ds
    using that by (simp add: list_update_append Cons_nth_drop_Suc [symmetric] replicate_append_same)
  then have "p2p_step\<^sup>*\<^sup>* ?m (upd x ((ends n x)\<lparr>dialers := replicate (Suc k) DEnd @ drop (Suc k) (dialers (ends n x))\<rparr>) n)"
    using dialer_settles [of k ?m x] Suc.prems assms(1) by (simp add: upd_def)
  then show ?case using Suc by (meson Suc_leD rtranclp_trans)
qed

lemma acceptor_settles:
  assumes "cancelled (ends n x)"
  shows "p2p_step\<^sup>*\<^sup>* n (upd x ((ends n x)\<lparr>acceptor := AEnd\<rparr>) n)"
proof (cases "acceptor (ends n x)")
  case AIdle
  then show ?thesis
    using accept_error [OF AIdle, of "Leaf ContextCanceled"] by (auto simp: accept_failed_def fail_with_def)
next
  case (AOffer c)
  then show ?thesis using drop_accepted [OF AOffer assms] by blast
next
  case AEnd
  then have "(ends n x)\<lparr>acceptor := AEnd\<rparr> = ends n x" by simp
  then show ?thesis by (simp add: upd_same)
qed

text \<open>The state of an end whose loops have ended, without another error.\<close>

definition settled :: "side_st \<Rightarrow> side_st" where
  "settled st = st\<lparr>acceptor := AEnd, dialers := replicate (length (dialers st)) DEnd\<rparr>"

lemma side_settles:
  assumes "cancelled (ends n x)"
  shows "p2p_step\<^sup>*\<^sup>* n (upd x (settled (ends n x)) n)"
proof -
  let ?m = "upd x ((ends n x)\<lparr>acceptor := AEnd\<rparr>) n"
  have "p2p_step\<^sup>*\<^sup>* ?m (upd x (settled (ends n x)) n)"
    using dialers_settle [of ?m x "length (dialers (ends n x))"] assms by (simp add: settled_def upd_def)
  then show ?thesis using acceptor_settles [OF assms] by (rule rtranclp_trans [rotated])
qed

lemma settled_ended [simp]: "loops_ended (settled st)"
  by (simp add: settled_def loops_ended_def list_all_iff)

lemma settled_fields [simp]:
  "main (settled st) = main st" "failed (settled st) = failed st" "cancelled (settled st) = cancelled st" "cid (settled st) = cid st"
  by (simp_all add: settled_def)

lemma reach_settled:
  assumes "p2p_reach n" and "\<And>x. cancelled (ends n x)"
  shows "p2p_reach (n\<lparr>ends := settled \<circ> ends n\<rparr>)"
proof -
  let ?m = "upd False (settled (ends n False)) n"
  have "p2p_step\<^sup>*\<^sup>* ?m (upd True (settled (ends n True)) ?m)"
    using side_settles [of ?m True] assms(2) by simp
  moreover have "upd True (settled (ends n True)) ?m = n\<lparr>ends := settled \<circ> ends n\<rparr>"
    by (rule net.equality) (auto simp: upd_def fun_eq_iff)
  ultimately show ?thesis
    using side_settles [OF assms(2), of False] reach_steps [OF _ assms(1)] by (metis rtranclp_trans)
qed


section \<open>Runs used as witnesses\<close>

definition S :: "string \<Rightarrow> acceptor \<Rightarrow> dialer list \<Rightarrow> main \<Rightarrow> bool \<Rightarrow> error \<Rightarrow> side_st" where
  "S i a ds m c f = \<lparr>cid = i, acceptor = a, dialers = ds, main = m, cancelled = c, failed = f\<rparr>"

definition N :: "side_st \<Rightarrow> side_st \<Rightarrow> (nat \<rightharpoonup> side) \<Rightarrow> (nat \<rightharpoonup> int) \<Rightarrow> net" where
  "N a b d r = \<lparr>ends = (\<lambda>x. if x then b else a), dialled_by = d, replied = r\<rparr>"

lemma S_simps [simp]:
  "cid (S i a ds m c f) = i" "acceptor (S i a ds m c f) = a" "dialers (S i a ds m c f) = ds"
  "main (S i a ds m c f) = m" "cancelled (S i a ds m c f) = c" "failed (S i a ds m c f) = f"
  "(S i a ds m c f)\<lparr>dialers := ds'\<rparr> = S i a ds' m c f" "(S i a ds m c f)\<lparr>acceptor := a'\<rparr> = S i a' ds m c f"
  "(S i a ds m c f)\<lparr>main := m'\<rparr> = S i a ds m' c f" "(S i a ds m c f)\<lparr>cancelled := c'\<rparr> = S i a ds m c' f"
  "(S i a ds m c f)\<lparr>failed := f'\<rparr> = S i a ds m c f'"
  by (simp_all add: S_def)

lemma N_simps [simp]:
  "ends (N a b d r) False = a" "ends (N a b d r) True = b" "dialled_by (N a b d r) = d"
  "replied (N a b d r) = r" "upd False s (N a b d r) = N s b d r" "upd True s (N a b d r) = N a s d r"
  "(N a b d r)\<lparr>dialled_by := d'\<rparr> = N a b d' r" "(N a b d r)\<lparr>replied := r'\<rparr> = N a b d r'"
  by (auto simp: N_def upd_def)

lemmas p2p_next = reach_step [where init = p2p_init and step = p2p_step]

text \<open>Two ends with ids \<open>i\<close> and \<open>j\<close> that both try a private and a public address.\<close>

definition start :: "string \<Rightarrow> string \<Rightarrow> net" where
  "start i j = N (S i AIdle [DIdle, DIdle] MWait False None) (S j AIdle [DIdle, DIdle] MWait False None)
     Map.empty Map.empty"

lemma reach_p2p_start: "p2p_reach (start i j)"
proof (rule reach_init)
  have "Connect_start k None (AddrPort (V4 1) 1) (AddrPort (V4 2) 1) = Inr (S k AIdle [DIdle, DIdle] MWait False None)" for k
    by (simp add: Connect_start_def dial_count_def S_def numeral_2_eq_2)
  then show "p2p_init (start i j)" unfolding p2p_init_def start_def by (auto simp: N_def)
qed

definition quiet_read :: "string \<Rightarrow> read_env" where
  "quiet_read i = \<lparr>re_accept = None, re_request = Inr i, re_write = None, re_close = False\<rparr>"

definition quiet_send :: "bool \<Rightarrow> send_env" where
  "quiet_send c = \<lparr>se_open = None, se_write = None, se_close = c, se_response = Inr (StatusOK, [])\<rparr>"

lemma quiet_turns:
  "i \<noteq> [] \<Longrightarrow> i \<le> j \<Longrightarrow> accept_turn j True (quiet_read i) = (Some StatusOK, Offer)"
  "dial_turn True (quiet_send False) = Offer"
  by (auto simp: accept_turn_def readHandshake_def quiet_read_def close_error_def dial_turn_def
      sendHandshake_def quiet_send_def StatusOK_def StatusConflict_def Let_def)

text \<open>The end with the smaller id dials twice; its first connection is accepted and chosen.\<close>

definition agreed :: net where
  "agreed = N (S ''0a'' AIdle [DEnd, DWait 1] (MChosen 0) True None)
     (S ''0b'' AEnd [DIdle, DIdle] (MChosen 0) True None) [0 \<mapsto> False, 1 \<mapsto> False] [0 \<mapsto> StatusOK]"

lemma reach_agreed: "p2p_reach agreed"
proof -
  let ?b = "\<lambda>a m c. S ''0b'' a [DIdle, DIdle] m c None"
  let ?a = "\<lambda>ds m c. S ''0a'' AIdle ds m c None"
  have "p2p_reach (N (?a [DWait 0, DIdle] MWait False) (?b AIdle MWait False) [0 \<mapsto> False] Map.empty)"
    using p2p_next [OF reach_p2p_start dial [of 0 "start ''0a'' ''0b''" False 0]] by (simp add: start_def)
  from p2p_next [OF this dial [of 1 _ False 1]]
  have "p2p_reach (N (?a [DWait 0, DWait 1] MWait False) (?b AIdle MWait False) [0 \<mapsto> False, 1 \<mapsto> False] Map.empty)"
    by simp
  from p2p_next [OF this accept [of _ True 0 "quiet_read ''0a''" True "Some StatusOK" Offer]]
  have "p2p_reach (N (?a [DWait 0, DWait 1] MWait False) (?b (AOffer 0) MWait False)
      [0 \<mapsto> False, 1 \<mapsto> False] [0 \<mapsto> StatusOK])"
    by (simp add: quiet_turns after_accept_def, simp add: quiet_read_def)
  from p2p_next [OF this handshake [of 0 _ False 0 "quiet_send False" True]]
  have "p2p_reach (N (?a [DOffer 0, DWait 1] MWait False) (?b (AOffer 0) MWait False)
      [0 \<mapsto> False, 1 \<mapsto> False] [0 \<mapsto> StatusOK])"
    by (simp add: quiet_turns after_dial_def, simp add: quiet_send_def)
  from p2p_next [OF this take_accepted [of _ True 0]]
  have "p2p_reach (N (?a [DOffer 0, DWait 1] MWait False) (?b AEnd (MChosen 0) True)
      [0 \<mapsto> False, 1 \<mapsto> False] [0 \<mapsto> StatusOK])" by simp
  from p2p_next [OF this take_dialled [of 0 _ False 0]]
  show ?thesis by (simp add: agreed_def)
qed

section \<open>Properties\<close>

text \<open>An accepted connection was dialled by the end with the smaller id, and there is one of them.\<close>

lemma p2p_same_choice:
  assumes "p2p_reach n" and "cid (ends n False) \<noteq> cid (ends n True)"
    and "main (ends n False) = MChosen c" and "main (ends n True) = MChosen c'"
  shows "c = c' \<and> (\<exists>x. dialled_by n c = Some x \<and> cid (ends n x) < cid (ends n (\<not> x)))"
proof -
  note inv = p2p_invD [OF p2p.inv_reach [OF assms(1)]]
  have ok: "c \<in> okays n" "c' \<in> okays n"
    using inv(1) [of False] inv(1) [of True] assms(3,4) by (auto simp: offers_def)
  have dialler: "\<exists>x. dialled_by n d = Some x \<and> cid (ends n x) < cid (ends n (\<not> x))" if d: "d \<in> okays n" for d
  proof -
    obtain x where x: "dialled_by n d = Some x"
      using inv(2) [of d] d by (cases "dialled_by n d") (auto simp: okays_def)
    then have "cid (ends n x) \<le> cid (ends n (\<not> x))" using inv(3) d by blast
    moreover have "cid (ends n x) \<noteq> cid (ends n (\<not> x))" using assms(2) by (cases x) auto
    ultimately show ?thesis using x by auto
  qed
  obtain x y where x: "dialled_by n c = Some x" "cid (ends n x) < cid (ends n (\<not> x))"
      and y: "dialled_by n c' = Some y" "cid (ends n y) < cid (ends n (\<not> y))"
    using dialler [OF ok(1)] dialler [OF ok(2)] by blast
  then have "x = y" by (cases x; cases y) auto
  then have "c = c'" using inv(4) [OF ok] x y by simp
  then show ?thesis using x by blast
qed

text \<open>
  C2. Agreement: with different connector ids, however the two ends' loops interleave and
  whatever fails, if both ends choose a connection then they choose the same one, and it
  was dialled by the end with the smaller id.
\<close>
theorem p2p_agreement:
  assumes "p2p_reach n" and "cid (ends n False) \<noteq> cid (ends n True)"
    and "main (ends n False) = MChosen c" and "main (ends n True) = MChosen c'"
  shows "c = c' \<and> (\<exists>x. dialled_by n c = Some x \<and> cid (ends n x) < cid (ends n (\<not> x)))"
  using assms by (rule p2p_same_choice)

theorem p2p_agreement_witness:
  "(0 :: nat) = 0 \<and> (\<exists>x. dialled_by agreed 0 = Some x \<and> cid (ends agreed x) < cid (ends agreed (\<not> x)))"
  by (rule p2p_agreement [OF reach_agreed, of 0 0]) (simp_all add: agreed_def)

text \<open>
  A connection can be lost after both ends chose it: choosing cancels the other attempts;
  one that is between writing its request and closing its stream then gets an error that is
  not recognised as a cancellation, and \<open>Connect\<close> returns that error instead of the
  connection, while the other end returns the connection.
\<close>
theorem p2p_lost_connection:
  "\<exists>n e. p2p_reach n \<and> main (ends n False) = MChosen 0 \<and> Connect_result (ends n False) = Some (Inl (Some e)) \<and>
     Connect_result (ends n True) = Some (Inr 0)"
proof -
  let ?e = "Wrap ''send handshake'' (Wrap ''close stream'' (Leaf (Opaque ''close called for canceled stream'')))"
  have t: "dial_turn True (quiet_send True) = Fail ?e"
    by (simp add: dial_turn_def sendHandshake_def quiet_send_def close_error_def errorf_def
        ContextCanceled_def isRemoteConflictError_def isRemoteCancelledError_def as_application_def)
  let ?n = "N (S ''0a'' AIdle [DEnd, DEnd] (MChosen 0) True (Some ?e))
     (S ''0b'' AEnd [DIdle, DIdle] (MChosen 0) True None) [0 \<mapsto> False, 1 \<mapsto> False] [0 \<mapsto> StatusOK]"
  have "p2p_reach (upd False (after_dial 1 1 (dial_turn True
      (quiet_send True\<lparr>se_response := Inl (Leaf (Opaque ''closed''))\<rparr>)) (ends agreed False)) agreed)"
    by (rule p2p_next [OF reach_agreed handshake]) (simp_all add: agreed_def)
  moreover have "dial_turn True (quiet_send True\<lparr>se_response := Inl (Leaf (Opaque ''closed''))\<rparr>) = Fail ?e"
    using t by (simp add: dial_turn_def sendHandshake_def quiet_send_def close_error_def)
  ultimately have n: "p2p_reach ?n" by (simp add: agreed_def after_dial_def fail_with_def)
  have "cancelled (ends ?n x)" for x by (cases x) simp_all
  then have "p2p_reach (?n\<lparr>ends := settled \<circ> ends ?n\<rparr>)" by (rule reach_settled [OF n])
  then show ?thesis by (intro exI conjI, assumption) (simp_all add: Connect_result_def)
qed

text \<open>
  Different ids are needed: with equal ids both ends accept each other's connection, and
  can end up with two different ones.
\<close>
theorem p2p_equal_ids_disagree:
  "\<exists>n. p2p_reach n \<and> cid (ends n False) = cid (ends n True) \<and>
     Connect_result (ends n False) = Some (Inr 1) \<and> Connect_result (ends n True) = Some (Inr 0)"
proof -
  let ?s = "\<lambda>a ds m c. S ''0a'' a ds m c None"
  let ?d = "[0 \<mapsto> False, 1 \<mapsto> True]"
  have "p2p_reach (N (?s AIdle [DWait 0, DIdle] MWait False) (?s AIdle [DIdle, DIdle] MWait False) [0 \<mapsto> False] Map.empty)"
    using p2p_next [OF reach_p2p_start dial [of 0 "start ''0a'' ''0a''" False 0]] by (simp add: start_def)
  from p2p_next [OF this dial [of 0 _ True 1]]
  have "p2p_reach (N (?s AIdle [DWait 0, DIdle] MWait False) (?s AIdle [DWait 1, DIdle] MWait False) ?d Map.empty)"
    by simp
  from p2p_next [OF this accept [of _ True 0 "quiet_read ''0a''" True "Some StatusOK" Offer]]
  have "p2p_reach (N (?s AIdle [DWait 0, DIdle] MWait False) (?s (AOffer 0) [DWait 1, DIdle] MWait False) ?d [0 \<mapsto> StatusOK])"
    by (simp add: quiet_turns after_accept_def, simp add: quiet_read_def)
  from p2p_next [OF this accept [of _ False 1 "quiet_read ''0a''" True "Some StatusOK" Offer]]
  have "p2p_reach (N (?s (AOffer 1) [DWait 0, DIdle] MWait False) (?s (AOffer 0) [DWait 1, DIdle] MWait False) ?d
      [0 \<mapsto> StatusOK, 1 \<mapsto> StatusOK])"
    by (simp add: quiet_turns after_accept_def, simp add: quiet_read_def)
  from p2p_next [OF this take_accepted [of _ True 0]]
  have "p2p_reach (N (?s (AOffer 1) [DWait 0, DIdle] MWait False) (?s AEnd [DWait 1, DIdle] (MChosen 0) True) ?d
      [0 \<mapsto> StatusOK, 1 \<mapsto> StatusOK])" by simp
  from p2p_next [OF this take_accepted [of _ False 1]]
  have n: "p2p_reach (N (?s AEnd [DWait 0, DIdle] (MChosen 1) True) (?s AEnd [DWait 1, DIdle] (MChosen 0) True) ?d
      [0 \<mapsto> StatusOK, 1 \<mapsto> StatusOK])" (is "p2p_reach ?n") by simp
  have "cancelled (ends ?n x)" for x by (cases x) simp_all
  then have "p2p_reach (?n\<lparr>ends := settled \<circ> ends ?n\<rparr>)" by (rule reach_settled [OF n])
  then show ?thesis by (intro exI conjI, assumption) (simp_all add: Connect_result_def)
qed

end
