(* ===== verification/Registar_Models.thy ===== *)
theory Registar_Models
  imports Session_CA Netip
begin

text \<open>
  \<^verbatim>\<open>internal/registar/models.go\<close>: the text forms of certificates and certificate requests in the
  messages between client and registar. The PEM codec and the parsers of \<open>crypto/x509\<close> are
  parameters: a block is its type and its bytes.
\<close>

record pem_api =
  pem_Encode :: "string \<times> bytes \<Rightarrow> err + bytes"
  pem_Decode :: "bytes \<Rightarrow> (string \<times> bytes) option"

record RegisterRequest =
  req_CSR :: bytes
  req_PrivateAddr :: addr_port

record RegisterResponse =
  resp_CACert :: bytes
  resp_Cert :: bytes

text \<open>The bytes of a request or certificate are its \<open>Raw\<close> field.\<close>

definition marshal_block :: "pem_api \<Rightarrow> string \<Rightarrow> bytes \<Rightarrow> err + bytes" where
  "marshal_block api ty raw =
     (case pem_Encode api (ty, raw) of Inl e \<Rightarrow> Inl (Wrap ''encode certificate'' e) | Inr t \<Rightarrow> Inr t)"

definition CSR_MarshalText :: "pem_api \<Rightarrow> bytes \<Rightarrow> err + bytes" where
  "CSR_MarshalText api raw = marshal_block api ''CERTIFICATE REQUEST'' raw"

definition CSR_UnmarshalText :: "pem_api \<Rightarrow> (bytes \<Rightarrow> err + 'c) \<Rightarrow> bytes \<Rightarrow> err + 'c" where
  "CSR_UnmarshalText api parse text =
     (case pem_Decode api text of
        None \<Rightarrow> Inl (Leaf (Opaque ''invalid certificate request''))
      | Some (ty, raw) \<Rightarrow>
          if ty \<noteq> ''CERTIFICATE REQUEST'' then Inl (Leaf (Opaque ''invalid certificate request''))
          else case parse raw of Inl e \<Rightarrow> Inl (Wrap ''parse certificate request'' e) | Inr c \<Rightarrow> Inr c)"

definition Certificate_MarshalText :: "pem_api \<Rightarrow> bytes \<Rightarrow> err + bytes" where
  "Certificate_MarshalText api raw = marshal_block api ''CERTIFICATE'' raw"

definition Certificate_UnmarshalText :: "pem_api \<Rightarrow> (bytes \<Rightarrow> err + 'c) \<Rightarrow> bytes \<Rightarrow> err + 'c" where
  "Certificate_UnmarshalText api parse text =
     (case pem_Decode api text of
        None \<Rightarrow> Inl (Leaf (Opaque ''invalid certificate''))
      | Some (ty, raw) \<Rightarrow>
          if ty \<noteq> ''CERTIFICATE'' then Inl (Leaf (Opaque ''invalid certificate''))
          else case parse raw of Inl e \<Rightarrow> Inl (Wrap ''parse certificate'' e) | Inr c \<Rightarrow> Inr c)"

text \<open>
  With a codec that decodes what it encoded, a certificate that is sent is the one received, and
  neither kind of message is taken for the other.
\<close>

lemma models_roundtrip:
  assumes "\<And>b t. pem_Encode api b = Inr t \<Longrightarrow> pem_Decode api t = Some b"
    and "Certificate_MarshalText api raw = Inr t" and "CSR_MarshalText api raw' = Inr t'"
  shows "Certificate_UnmarshalText api parse t = (case parse raw of Inl e \<Rightarrow> Inl (Wrap ''parse certificate'' e) | Inr c \<Rightarrow> Inr c)"
    and "CSR_UnmarshalText api parse t' = (case parse raw' of Inl e \<Rightarrow> Inl (Wrap ''parse certificate request'' e) | Inr c \<Rightarrow> Inr c)"
    and "CSR_UnmarshalText api parse t = Inl (Leaf (Opaque ''invalid certificate request''))"
    and "Certificate_UnmarshalText api parse t' = Inl (Leaf (Opaque ''invalid certificate''))"
  using assms
  by (auto simp: Certificate_MarshalText_def CSR_MarshalText_def marshal_block_def
      Certificate_UnmarshalText_def CSR_UnmarshalText_def split: sum.splits)

end
