(* ===== verification/Registar_Client.thy ===== *)
theory Registar_Client
  imports Registar_Server
begin

text \<open>
  \<^verbatim>\<open>internal/registar/client.go\<close>: the side of hosts and peers. A call into quic-go, http3, the
  standard network and crypto packages or the P2P connector yields a value of an environment
  record; the model is what the client makes of these values. \<open>Join\<close>, whose goroutines meet in a
  channel, is a step relation; a \<open>Hoster\<close> at work is one in the theory \<open>Host_Lifecycle\<close>.
\<close>

section \<open>Errors\<close>

definition ErrHosterClosed :: leaf where "ErrHosterClosed = Sentinel ''hoster closed''"
definition ErrHostNotFound :: leaf where "ErrHostNotFound = Sentinel ''host not found''"
definition ErrHostAlreadyRegistered :: leaf where "ErrHostAlreadyRegistered = Sentinel ''host already registered''"

definition errCodeClientClosed :: u64 where "errCodeClientClosed = 0x1003"

definition isStreamError :: "error \<Rightarrow> u64 \<Rightarrow> bool \<Rightarrow> bool" where
  "isStreamError e code remote = as_stream e code remote"

definition isHTTP3Error :: "error \<Rightarrow> u64 \<Rightarrow> bool \<Rightarrow> bool" where
  "isHTTP3Error e code remote = as_h3 e code remote"

definition isLocalHTTP3CloseError :: "error \<Rightarrow> bool" where
  "isLocalHTTP3CloseError e = as_h3 e errCodeClientClosed False"

definition isHostNotFoundError :: "error \<Rightarrow> bool" where
  "isHostNotFoundError e \<longleftrightarrow> isStreamError e errCodeHostNotFound True \<or> isHTTP3Error e errCodeHostNotFound True"

definition isHostAlreadyRegisteredError :: "error \<Rightarrow> bool" where
  "isHostAlreadyRegisteredError e \<longleftrightarrow>
     isStreamError e errCodeHostAlreadyRegistered True \<or> isHTTP3Error e errCodeHostAlreadyRegistered True"

section \<open>connect and register\<close>

text \<open>\<open>setupTLSConfig\<close> on the two fields it touches.\<close>

record tls_config =
  tls_ServerName :: string
  tls_NextProtos :: "string list"

definition setupTLSConfig :: "tls_config option \<Rightarrow> string \<Rightarrow> tls_config" where
  "setupTLSConfig conf hostname =
     (case conf of
        None \<Rightarrow> \<lparr>tls_ServerName = hostname, tls_NextProtos = [''h3'']\<rparr>
      | Some c \<Rightarrow> if tls_ServerName c = [] then c\<lparr>tls_ServerName := hostname\<rparr> else c)"

text \<open>\<open>getLocalAddr\<close>: the address of a socket dialled towards the registar.\<close>

definition getLocalAddr :: "err + addr_port \<Rightarrow> err + ip_addr" where
  "getLocalAddr dial = (case dial of Inl e \<Rightarrow> Inl (Wrap ''dial UDP'' e) | Inr (AddrPort ip _) \<Rightarrow> Inr ip)"

text \<open>
  \<open>connect\<close>: what resolving, listening, dialling and the probe for the local address yield. The
  result says in which state the transport is left: not yet open, closed again, or open.
\<close>

datatype transport = NoTransport | TransportClosed | TransportOpen

record connect_env =
  ce_resolve :: error
  ce_listen :: error
  ce_dial :: "err + u16"         \<comment> \<open>local port of the QUIC connection\<close>
  ce_probe :: "err + addr_port"

definition client_connect :: "connect_env \<Rightarrow> transport \<times> (err + addr_port)" where
  "client_connect env =
     (case ce_resolve env of Some e \<Rightarrow> (NoTransport, Inl (Wrap ''resolve UDP address'' e)) | None \<Rightarrow>
      case ce_listen env of Some e \<Rightarrow> (NoTransport, Inl (Wrap ''listen UDP'' e)) | None \<Rightarrow>
      case ce_dial env of Inl e \<Rightarrow> (TransportClosed, Inl (Wrap ''dial QUIC'' e)) | Inr port \<Rightarrow>
      case getLocalAddr (ce_probe env) of
        Inl e \<Rightarrow> (TransportClosed, Inl (Wrap ''get local address'' e))
      | Inr ip \<Rightarrow> (TransportOpen, Inr (AddrPort ip port)))"

text \<open>
  \<open>register\<close>: the outcomes of its calls in their order. Reading the response fails, or gives
  a status and a body; a body that decodes carries the CA and the certificate.
\<close>

record register_env =
  rg_key :: error
  rg_csr :: error
  rg_encode :: error
  rg_newreq :: error
  rg_open :: error
  rg_header :: error
  rg_body :: error                       \<comment> \<open>sending the request body\<close>
  rg_response :: "err + int \<times> bytes"
  rg_decode :: "err + cert \<times> cert"

definition register :: "register_env \<Rightarrow> err + cert \<times> cert" where
  "register env =
     (case rg_key env of Some e \<Rightarrow> Inl (Wrap ''generate private key'' e) | None \<Rightarrow>
      case rg_csr env of Some e \<Rightarrow> Inl (Wrap ''create CSR'' e) | None \<Rightarrow>
      case rg_encode env of Some e \<Rightarrow> Inl (Wrap ''encode body'' e) | None \<Rightarrow>
      case rg_newreq env of Some e \<Rightarrow> Inl (Wrap ''create request'' e) | None \<Rightarrow>
      case rg_open env of Some e \<Rightarrow> Inl (Wrap ''open request stream'' e) | None \<Rightarrow>
      case rg_header env of Some e \<Rightarrow> Inl (Wrap ''send request header'' e) | None \<Rightarrow>
      case rg_response env of
        Inl e \<Rightarrow> Inl (Wrap ''read response'' e)
      | Inr (st, bd) \<Rightarrow>
          if st \<noteq> StatusOK then Inl (NewBadStatusCodeError st bd)
          else case rg_body env of
                 Some e \<Rightarrow> Inl (Wrap ''send request body'' e)
               | None \<Rightarrow>
                   (case rg_decode env of Inl e \<Rightarrow> Inl (Wrap ''decode response'' e) | Inr cs \<Rightarrow> Inr cs))"

text \<open>
  \<open>VerifyPeerCertificate\<close> of \<open>tlsConfig\<close>: \<open>parse\<close> and \<open>verify\<close> (leaf, intermediates) are those
  of \<open>crypto/x509\<close> with the session CA as the only root.
\<close>

definition verifyPeerCertificate ::
  "(bytes \<Rightarrow> err + 'c) \<Rightarrow> ('c \<Rightarrow> 'c list \<Rightarrow> error) \<Rightarrow> bytes list \<Rightarrow> 'c list list \<Rightarrow> error" where
  "verifyPeerCertificate parse verify rawCerts verifiedChains =
     (if verifiedChains \<noteq> [] then None
      else case rawCerts of
             [] \<Rightarrow> Some (Leaf (Opaque ''no server certificate''))
           | raw # rest \<Rightarrow>
               (case parse raw of
                  Inl e \<Rightarrow> Some e
                | Inr leaf \<Rightarrow>
                    verify leaf (List.map_filter
                      (\<lambda>b. case parse b of Inl _ \<Rightarrow> None | Inr c \<Rightarrow> Some c) rest)))"

section \<open>The callbacks of the control agent\<close>

text \<open>
  A connection that a callback sets up; the channel \<open>conns\<close> holds one. When the channel is full
  a callback waits until there is room or its context is done, which \<open>room\<close> tells. What
  \<open>Connect\<close> returned is an error, a connection, or neither (\<open>Inl None\<close>); in the last case either
  branch of the \<open>select\<close> calls a method of the nil connection and panics, which is \<open>None\<close>.
\<close>

datatype dconn = P2PConn nat | RelayConn nat

definition onConnectTo ::
  "bool \<Rightarrow> error + nat \<Rightarrow> (unit + err) \<Rightarrow> ((err + bool) \<times> dconn option) option" where
  "onConnectTo disableP2P connected room =
     (if disableP2P then Some (Inr False, None)
      else case connected of
             Inl (Some e) \<Rightarrow>
               if errorsAs (Some e) is_IdleTimeoutError \<noteq> None then Some (Inr False, None)
               else Some (Inl (Wrap ''connect to peer'' e), None)
           | Inl None \<Rightarrow> None
           | Inr c \<Rightarrow>
               (case room of
                  Inl _ \<Rightarrow> Some (Inr True, Some (P2PConn c))
                | Inr ctxErr \<Rightarrow> Some (Inl ctxErr, None)))"

record relay_env =
  rl_newreq :: error
  rl_open :: "err + nat"
  rl_header :: error
  rl_response :: "err + int \<times> bytes"

definition onConnectViaRelay :: "relay_env \<Rightarrow> (unit + err) \<Rightarrow> error \<times> dconn option" where
  "onConnectViaRelay env room =
     (case rl_newreq env of Some e \<Rightarrow> (errorf ''create relay request'' e, None) | None \<Rightarrow>
      case rl_open env of Inl e \<Rightarrow> (errorf ''open relay request stream'' e, None) | Inr c \<Rightarrow>
      case rl_header env of Some e \<Rightarrow> (errorf ''send relay request header'' e, None) | None \<Rightarrow>
      case rl_response env of
        Inl e \<Rightarrow> (errorf ''read relay response'' e, None)
      | Inr (st, bd) \<Rightarrow>
          if st \<noteq> StatusOK then (Some (NewBadStatusCodeError st bd), None)
          else (case room of Inl _ \<Rightarrow> (None, Some (RelayConn c)) | Inr ctxErr \<Rightarrow> (Some ctxErr, None)))"

section \<open>Join\<close>

text \<open>What the goroutine that serves the agent returns, from what \<open>Serve\<close> returned.\<close>

definition serveResult :: "error \<Rightarrow> error" where
  "serveResult e =
     (case e of None \<Rightarrow> None
      | Some x \<Rightarrow> if isLocalHTTP3CloseError (Some x) then None else errorf ''serve control agent'' x)"

datatype join_main =
    JWait                                \<comment> \<open>at the \<open>select\<close>\<close>
  | JGot dconn                           \<comment> \<open>took a connection, waits for the agent\<close>
  | JGaveUp                              \<comment> \<open>context done, waits for the agent\<close>
  | JReturned "dconn option" error

record join_st =
  j_conns :: "dconn option"
  j_agent :: "error option"              \<comment> \<open>result of the goroutine; \<open>None\<close> while it runs\<close>
  j_parent :: bool                       \<comment> \<open>the caller's context is cancelled\<close>
  j_cancelled :: "u64 option"            \<comment> \<open>code of \<open>str.CancelRead\<close>\<close>
  j_main :: join_main
  j_offered :: "dconn set"               \<comment> \<open>history: connections the callbacks set up\<close>

definition join0 :: join_st where
  "join0 = \<lparr>j_conns = None, j_agent = None, j_parent = False, j_cancelled = None, j_main = JWait, j_offered = {}\<rparr>"

text \<open>The context of the group ends with the caller's or with the first error in the group.\<close>

definition ctx_done :: "join_st \<Rightarrow> bool" where
  "ctx_done s \<longleftrightarrow> j_parent s \<or> (\<exists>e. j_agent s = Some (Some e))"

definition ErrCodeNoError :: u64 where "ErrCodeNoError = 0x100"
definition ErrCodeRequestCanceled :: u64 where "ErrCodeRequestCanceled = 0x10c"

inductive join_step :: "join_st \<Rightarrow> join_st \<Rightarrow> bool" where
  offer: "j_agent s = None \<Longrightarrow> j_conns s = None \<Longrightarrow>
     join_step s (s\<lparr>j_conns := Some c, j_offered := insert c (j_offered s)\<rparr>)"
| serve_ends: "j_agent s = None \<Longrightarrow> join_step s (s\<lparr>j_agent := Some (serveResult (Some e))\<rparr>)"
| cancel: "join_step s (s\<lparr>j_parent := True\<rparr>)"
| take_conn: "j_main s = JWait \<Longrightarrow> j_conns s = Some c \<Longrightarrow>
     join_step s (s\<lparr>j_conns := None, j_cancelled := Some ErrCodeNoError, j_main := JGot c\<rparr>)"
| give_up: "j_main s = JWait \<Longrightarrow> ctx_done s \<Longrightarrow>
     join_step s (s\<lparr>j_cancelled := Some ErrCodeRequestCanceled, j_main := JGaveUp\<rparr>)"
| got: "j_main s = JGot c \<Longrightarrow> j_agent s = Some e \<Longrightarrow> join_step s (s\<lparr>j_main := JReturned (Some c) None\<rparr>)"
| gave_up: "j_main s = JGaveUp \<Longrightarrow> j_agent s = Some e \<Longrightarrow> join_step s (s\<lparr>j_main := JReturned None e\<rparr>)"

text \<open>\<open>Join\<close> before the agent runs: a failed registration.\<close>

definition Join_register :: "register_env \<Rightarrow> err + cert \<times> cert" where
  "Join_register env =
     (case register env of
        Inl e \<Rightarrow> Inl (if isHostNotFoundError (Some e) then Leaf ErrHostNotFound else Wrap ''register'' e)
      | Inr cs \<Rightarrow> Inr cs)"

section \<open>Hoster\<close>

text \<open>\<open>NewHoster\<close> and \<open>NewJoiner\<close>: the transport is closed again on every error after it opened.\<close>

definition NewHoster :: "connect_env \<Rightarrow> register_env \<Rightarrow> transport \<times> (err + cert \<times> cert)" where
  "NewHoster cenv renv =
     (case client_connect cenv of
        (t, Inl e) \<Rightarrow> (t, Inl e)
      | (t, Inr privateAddr) \<Rightarrow>
          (case register renv of
             Inl e \<Rightarrow> (TransportClosed, Inl (if isHostAlreadyRegisteredError (Some e)
                then Leaf ErrHostAlreadyRegistered else Wrap ''register'' e))
           | Inr cs \<Rightarrow> (t, Inr cs)))"

definition NewJoiner :: "connect_env \<Rightarrow> transport \<times> (err + addr_port)" where
  "NewJoiner cenv = client_connect cenv"

record hoster =
  h_conns :: "dconn option"
  h_done :: bool
  h_agent :: "error option"    \<comment> \<open>result of the goroutine; \<open>None\<close> while it runs\<close>

text \<open>
  The results \<open>Accept\<close> may have in a state: a \<open>select\<close> takes any of the ready cases; no result
  means that it waits.
\<close>

definition Accept_results :: "error \<Rightarrow> hoster \<Rightarrow> (err + dconn) set" where
  "Accept_results ctxErr h =
     (case h_conns h of Some c \<Rightarrow> {Inr c} | None \<Rightarrow> {}) \<union>
     (if h_done h then {Inl (Leaf ErrHosterClosed)} else {}) \<union>
     (case ctxErr of Some e \<Rightarrow> {Inl e} | None \<Rightarrow> {})"

text \<open>
  \<open>Close\<close> up to the wait; closing twice closes a closed channel. \<open>Close_result\<close> is what it
  returns once the goroutine has ended.
\<close>

definition Hoster_Close :: "hoster \<Rightarrow> hoster option" where
  "Hoster_Close h = (if h_done h then None else Some (h\<lparr>h_done := True\<rparr>))"

definition Close_result :: "error \<Rightarrow> error" where
  "Close_result e =
     (case e of None \<Rightarrow> None
      | Some x \<Rightarrow> if isLocalHTTP3CloseError (Some x) then None else errorf ''hoster error'' x)"

section \<open>Registration\<close>

lemma as_stream_Leaf [simp]: "as_stream (Some (Leaf (StreamError c r))) c' r' \<longleftrightarrow> c = c' \<and> r = r'"
  by (simp add: as_stream_def errorsAs_def)

text \<open>The transport is open exactly when the call succeeded.\<close>

lemma client_connect_transport: "fst (client_connect env) = TransportOpen \<longleftrightarrow> (\<exists>a. snd (client_connect env) = Inr a)"
  by (auto simp: client_connect_def split: option.splits sum.splits)

lemma NewHoster_transport: "fst (NewHoster cenv renv) = TransportOpen \<longleftrightarrow> (\<exists>cs. snd (NewHoster cenv renv) = Inr cs)"
  using client_connect_transport [of cenv]
  by (cases "client_connect cenv") (auto simp: NewHoster_def split: sum.splits)

lemma register_ok:
  "register env = Inr cs \<longleftrightarrow>
     rg_key env = None \<and> rg_csr env = None \<and> rg_encode env = None \<and> rg_newreq env = None \<and> rg_open env = None \<and>
     rg_header env = None \<and> (\<exists>body. rg_response env = Inr (StatusOK, body)) \<and> rg_body env = None \<and> rg_decode env = Inr cs"
  by (auto simp: register_def split: option.splits sum.splits)

section \<open>What Join returns\<close>

definition join_inv :: "join_st \<Rightarrow> bool" where
  [inv_defs]: "join_inv s \<longleftrightarrow>
     (\<forall>c. j_conns s = Some c \<or> j_main s = JGot c \<longrightarrow> c \<in> j_offered s) \<and>
     (\<forall>c e. j_main s = JReturned (Some c) e \<longrightarrow> c \<in> j_offered s \<and> e = None \<and> j_agent s \<noteq> None) \<and>
     (\<forall>e. j_main s = JReturned None e \<longrightarrow> j_agent s = Some e \<and> ctx_done s) \<and>
     (j_main s = JGaveUp \<longrightarrow> ctx_done s)"

interpretation join: inductive_invariant "\<lambda>s. s = join0" join_step join_inv
proof unfold_locales
  fix s assume "s = join0"
  then show "join_inv s" by (simp add: join_inv_def join0_def)
next
  fix s t assume inv: "join_inv s" and "join_step s t"
  from this(2) show "join_inv t"
    by cases (use inv in \<open>auto simp: join_inv_def ctx_done_def\<close>)
qed

abbreviation join_reach :: "join_st \<Rightarrow> bool" where
  "join_reach \<equiv> reach (\<lambda>s. s = join0) join_step"

text \<open>
  C36. What \<open>Join\<close> returns once the registration succeeded: a connection comes without an
  error, and a callback of the control agent did set it up; the goroutine of the agent has
  ended before \<open>Join\<close> returns; an error is that of the agent, and its result without
  connection and error comes only when the caller cancelled.
\<close>

theorem join_result:
  assumes "join_reach s" and "j_main s = JReturned r e"
  shows "j_agent s \<noteq> None \<and>
    (case r of Some c \<Rightarrow> c \<in> j_offered s \<and> e = None
     | None \<Rightarrow> j_agent s = Some e \<and> (e = None \<longrightarrow> j_parent s))"
  using join.inv_reach [OF assms(1)] assms(2)
  by (cases r) (auto simp: join_inv_def ctx_done_def)

lemma join_offered:
  "join_reach (join0\<lparr>j_conns := Some c, j_offered := {c}\<rparr>)"
proof (rule reach_step)
  show "join_reach join0" by (rule reach_init) simp
  show "join_step join0 (join0\<lparr>j_conns := Some c, j_offered := {c}\<rparr>)"
    using join_step.offer [of join0 c] by (simp add: join0_def)
qed

lemmas join_next = reach_next [where init = "\<lambda>s. s = join0" and step = join_step]

lemma join_returns_conn:
  "join_reach (join0\<lparr>j_agent := Some (serveResult (Some e)), j_cancelled := Some ErrCodeNoError,
     j_main := JReturned (Some c) None, j_offered := {c}\<rparr>)"
proof -
  have s1: "join_reach (join0\<lparr>j_cancelled := Some ErrCodeNoError, j_main := JGot c, j_offered := {c}\<rparr>)"
    by (rule join_next [OF join_offered [of c] join_step.take_conn [where c = c]]) (simp_all add: join0_def)
  have s2: "join_reach (join0\<lparr>j_agent := Some (serveResult (Some e)), j_cancelled := Some ErrCodeNoError,
      j_main := JGot c, j_offered := {c}\<rparr>)"
    by (rule join_next [OF s1 join_step.serve_ends [where e = e]]) (simp_all add: join0_def)
  show ?thesis
    by (rule join_next [OF s2 join_step.got [where c = c]]) (simp_all add: join0_def)
qed

theorem join_result_witness:
  "P2PConn 7 \<in> j_offered (join0\<lparr>j_agent := Some (serveResult (Some (Leaf (StreamError errCodeNoError True)))),
     j_cancelled := Some ErrCodeNoError, j_main := JReturned (Some (P2PConn 7)) None, j_offered := {P2PConn 7}\<rparr>)"
  using join_result [OF join_returns_conn [of "P2PConn 7" "Leaf (StreamError errCodeNoError True)"],
      of "Some (P2PConn 7)" None]
  by simp

section \<open>Ways in which Join goes wrong\<close>

lemma serveResult_Stream [simp]:
  "serveResult (Some (Wrap m (Leaf (StreamError c r)))) =
     Some (Wrap ''serve control agent'' (Wrap m (Leaf (StreamError c r))))"
  by (simp add: serveResult_def isLocalHTTP3CloseError_def as_h3_def errorsAs_def errorf_def)

lemma serveResult_closed [simp]:
  "serveResult (Some (Wrap m (Leaf (H3Error errCodeClientClosed False)))) = None"
  by (simp add: serveResult_def isLocalHTTP3CloseError_def as_h3_def errorsAs_def)

text \<open>A control stream that fails makes \<open>Join\<close> give up, whatever waits in the channel.\<close>

lemma join_gives_up:
  assumes "join_reach s" and "j_agent s = None" and "j_main s = JWait" and "serveResult (Some e) = Some e'"
  shows "join_reach (s\<lparr>j_agent := Some (Some e'), j_cancelled := Some ErrCodeRequestCanceled,
    j_main := JReturned None (Some e')\<rparr>)"
proof -
  have s1: "join_reach (s\<lparr>j_agent := Some (Some e')\<rparr>)"
    by (rule join_next [OF assms(1) join_step.serve_ends [where e = e]]) (simp_all add: assms)
  have s2: "join_reach (s\<lparr>j_agent := Some (Some e'), j_cancelled := Some ErrCodeRequestCanceled, j_main := JGaveUp\<rparr>)"
    by (rule join_next [OF s1 join_step.give_up]) (simp_all add: assms ctx_done_def)
  show ?thesis
    by (rule join_next [OF s2 join_step.gave_up [where e = "Some e'"]]) simp_all
qed

text \<open>
  The server answers a registration with 200 before it looks for the host, and cancels the
  control stream afterwards. When the cancellation reaches a peer after the registration, \<open>Join\<close>
  returns an error that carries the code of a missing host but is not \<open>ErrHostNotFound\<close>. And
  when the server ends the control stream of a peer whose connection is already set up, which it
  does after every success, before \<open>Join\<close> has taken the connection from the channel, \<open>Join\<close> may
  return an error and leave the open connection in the channel.
\<close>

theorem join_races:
  "(\<exists>s e. join_reach s \<and> j_main s = JReturned None (Some e) \<and>
      isHostNotFoundError (Some e) \<and> \<not> errorsIs (Some e) ErrHostNotFound) \<and>
   (\<exists>s e c. join_reach s \<and> j_main s = JReturned None (Some e) \<and> j_conns s = Some c \<and>
      isStreamError (Some e) errCodeNoError True)"
proof (intro conjI)
  let ?e = "Wrap ''serve control agent'' (Wrap ''read request'' (Leaf (StreamError errCodeHostNotFound True)))"
  have "join_reach join0" by (rule reach_init) simp
  from join_gives_up [OF this _ _ serveResult_Stream]
  have "join_reach (join0\<lparr>j_agent := Some (Some ?e), j_cancelled := Some ErrCodeRequestCanceled,
    j_main := JReturned None (Some ?e)\<rparr>)" by (simp add: join0_def)
  moreover have "isHostNotFoundError (Some ?e)" and "\<not> errorsIs (Some ?e) ErrHostNotFound"
    by (simp_all add: isHostNotFoundError_def isStreamError_def as_stream_def errorsAs_def ErrHostNotFound_def)
  ultimately show "\<exists>s e. join_reach s \<and> j_main s = JReturned None (Some e) \<and>
      isHostNotFoundError (Some e) \<and> \<not> errorsIs (Some e) ErrHostNotFound"
    by (intro exI conjI) (assumption | simp)+
next
  let ?e = "Wrap ''serve control agent'' (Wrap ''read request'' (Leaf (StreamError errCodeNoError True)))"
  from join_gives_up [OF join_offered [of "P2PConn 1"] _ _ serveResult_Stream]
  have "join_reach (join0\<lparr>j_conns := Some (P2PConn 1), j_agent := Some (Some ?e),
    j_cancelled := Some ErrCodeRequestCanceled, j_main := JReturned None (Some ?e), j_offered := {P2PConn 1}\<rparr>)"
    by (simp add: join0_def)
  moreover have "isStreamError (Some ?e) errCodeNoError True"
    by (simp add: isStreamError_def as_stream_def errorsAs_def)
  ultimately show "\<exists>s e c. join_reach s \<and> j_main s = JReturned None (Some e) \<and> j_conns s = Some c \<and>
      isStreamError (Some e) errCodeNoError True"
    by (intro exI conjI) (assumption | simp)+
qed

text \<open>
  After \<open>Close\<close> of the joiner the agent ends without an error: a \<open>Join\<close> that runs meanwhile has
  no case of its \<open>select\<close> left but the cancellation by its caller, and then returns neither a
  connection nor an error.
\<close>

lemma join_hangs_after_close:
  assumes "j_main s = JWait" and "j_agent s = Some None" and "j_conns s = None" and "\<not> j_parent s"
    and "join_step s t"
  shows "t = s\<lparr>j_parent := True\<rparr>"
  using assms(5) by cases (use assms(1-4) in \<open>auto simp: ctx_done_def\<close>)

lemma join_nil_nil: "\<exists>s. join_reach s \<and> j_main s = JReturned None None"
proof -
  let ?e = "Wrap ''read request'' (Leaf (H3Error errCodeClientClosed False))"
  have s0: "join_reach join0" by (rule reach_init) simp
  have s1: "join_reach (join0\<lparr>j_agent := Some None\<rparr>)"
    by (rule join_next [OF s0 join_step.serve_ends [where e = ?e]]) (simp_all add: join0_def)
  have s2: "join_reach (join0\<lparr>j_agent := Some None, j_parent := True\<rparr>)"
    by (rule join_next [OF s1 join_step.cancel]) simp
  have s3: "join_reach (join0\<lparr>j_agent := Some None, j_parent := True,
      j_cancelled := Some ErrCodeRequestCanceled, j_main := JGaveUp\<rparr>)"
    by (rule join_next [OF s2 join_step.give_up]) (simp_all add: join0_def ctx_done_def)
  have "join_reach (join0\<lparr>j_agent := Some None, j_parent := True,
      j_cancelled := Some ErrCodeRequestCanceled, j_main := JReturned None None\<rparr>)"
    by (rule join_next [OF s3 join_step.gave_up [where e = None]]) (simp_all add: join0_def)
  then show ?thesis by (intro exI conjI) (assumption | simp)+
qed

section \<open>Hoster\<close>

text \<open>After \<open>Close\<close>, \<open>Accept\<close> never waits; a connection may still come out of the channel.\<close>

lemma Accept_after_Close:
  assumes "Hoster_Close h = Some h'"
  shows "Inl (Leaf ErrHosterClosed) \<in> Accept_results ctxErr h'" and "Hoster_Close h' = None"
  using assms by (auto simp: Hoster_Close_def Accept_results_def split: if_splits)

end
