(* ===== verification/Forwarder.thy ===== *)
theory Forwarder
  imports Registar_Client Udp_Listener
begin

text \<open>
  \<^verbatim>\<open>internal/forwarder/\<close>: the link between the UDP socket of the game and the datagrams of a
  QUIC connection (\<open>link.go\<close>), and the accept loops of host and peer that set links up
  (\<open>host.go\<close>, \<open>peer.go\<close>). Sockets and connections yield the values an environment prescribes;
  times are in milliseconds.
\<close>

section \<open>link.go\<close>

definition defaultUDPIdleTimeout :: int where "defaultUDPIdleTimeout = 10000"

definition errLinkIdleTimeout :: leaf where "errLinkIdleTimeout = Sentinel ''idle timeout exceeded''"

text \<open>
  One turn of the loop of \<open>read\<close>: \<open>ctx.Err()\<close>, the clock at the check for the idle timeout, and
  what the read with its deadline of 100 ms gives.
\<close>

record link_turn =
  lt_ctx :: error
  lt_now :: int
  lt_read :: "bytes \<times> error"

fun link_read :: "nat \<Rightarrow> int \<Rightarrow> int \<Rightarrow> nat \<Rightarrow> (nat \<Rightarrow> link_turn) \<Rightarrow> (bytes \<times> error) option" where
  "link_read 0 idle lastRead i env = None"
| "link_read (Suc fuel) idle lastRead i env =
     (let t = env i in
      case lt_ctx t of
        Some e \<Rightarrow> Some ([], Some e)
      | None \<Rightarrow>
          if idle > 0 \<and> lt_now t - lastRead > idle then Some ([], Some (Leaf errLinkIdleTimeout))
          else case lt_read t of
                 (b, Some e) \<Rightarrow>
                   if errorsIs (Some e) ErrDeadlineExceeded then link_read fuel idle lastRead (Suc i) env
                   else Some (take 1500 b, Some e)
               | (b, None) \<Rightarrow> Some (take 1500 b, None))"

text \<open>
  The two loops of \<open>link\<close>, on what their calls give: the datagrams handed on before the error a
  loop ends with; a list that ends without an error is a loop that still runs.
\<close>

fun up_loop :: "((bytes \<times> error) \<times> error) list \<Rightarrow> bytes list \<times> error" where
  "up_loop [] = ([], None)"
| "up_loop (((b, Some e), _) # evs) = ([], errorf ''read from udp conn'' e)"
| "up_loop (((b, None), Some e) # evs) = ([], errorf ''send datagram'' e)"
| "up_loop (((b, None), None) # evs) = (let (out, r) = up_loop evs in (b # out, r))"

fun down_loop :: "((err + bytes) \<times> error) list \<Rightarrow> bytes list \<times> error" where
  "down_loop [] = ([], None)"
| "down_loop ((Inl e, _) # evs) = ([], errorf ''receive datagram'' e)"
| "down_loop ((Inr d, Some e) # evs) = ([], errorf ''write datagram'' e)"
| "down_loop ((Inr d, None) # evs) = (let (out, r) = down_loop evs in (d # out, r))"

text \<open>
  \<open>eg.Wait\<close>: when both loops have ended, the error of the one that ended first, which \<open>upFirst\<close>
  tells; while one runs there is no result.
\<close>

definition link :: "bool \<Rightarrow> ((bytes \<times> error) \<times> error) list \<Rightarrow> ((err + bytes) \<times> error) list \<Rightarrow> error" where
  "link upFirst ups downs =
     (case (snd (up_loop ups), snd (down_loop downs)) of
        (Some e, Some e') \<Rightarrow> Some (if upFirst then e else e')
      | _ \<Rightarrow> None)"

section \<open>host.go\<close>

definition ErrTransportClosed :: leaf where "ErrTransportClosed = Sentinel ''quic: Transport closed''"

definition linkWithHost :: "error \<Rightarrow> error \<Rightarrow> error" where
  "linkWithHost dialErr linkErr =
     (case dialErr of
        Some e \<Rightarrow> errorf ''dial game UDP'' e
      | None \<Rightarrow> (case linkErr of Some e \<Rightarrow> errorf ''link with game UDP'' e | None \<Rightarrow> None))"

text \<open>What the goroutine of a link hands to the error handlers.\<close>

definition host_report :: "error \<Rightarrow> error" where
  "host_report e =
     (case e of None \<Rightarrow> None
      | Some x \<Rightarrow>
          if errorsIs e ErrTransportClosed then None
          else if errorsIs e ContextCanceled then None
          else Some x)"

text \<open>The loop of \<open>Host.AcceptAndLink\<close>: the connections it starts links for, and its result.\<close>

fun Host_AcceptAndLink :: "(err + dconn) list \<Rightarrow> dconn list \<times> error option" where
  "Host_AcceptAndLink [] = ([], None)"
| "Host_AcceptAndLink (Inl e # evs) =
     ([], Some (if errorsIs (Some e) ErrHosterClosed then None else errorf ''accept peer connection'' e))"
| "Host_AcceptAndLink (Inr c # evs) = (let (cs, r) = Host_AcceptAndLink evs in (c # cs, r))"

text \<open>
  \<open>HostConfig.Register\<close>: a host that never gives up a game for being silent. \<open>handleError\<close> calls
  the handlers in order; \<open>Close\<close> returns the error of the hoster once all links have ended.
\<close>

record fwd_host =
  fh_idle :: int
  fh_logger :: string
  fh_handlers :: "nat list"

definition HostConfig_Register :: "err + 'h \<Rightarrow> string option \<Rightarrow> nat list \<Rightarrow> err + 'h \<times> fwd_host" where
  "HostConfig_Register hoster logger hs =
     (case hoster of
        Inl e \<Rightarrow> Inl (Wrap ''create hoster'' e)
      | Inr h \<Rightarrow> Inr (h, \<lparr>fh_idle = 0, fh_logger = (case logger of None \<Rightarrow> ''default'' | Some l \<Rightarrow> l), fh_handlers = hs\<rparr>))"

definition handleError :: "fwd_host \<Rightarrow> err \<Rightarrow> (nat \<times> err) list" where
  "handleError h e = map (\<lambda>f. (f, e)) (fh_handlers h)"

definition Host_Close :: "error \<Rightarrow> error" where
  "Host_Close hosterErr = errorsJoin [hosterErr]"

section \<open>peer.go\<close>

definition Peer_Close :: "error \<Rightarrow> error \<Rightarrow> error" where
  "Peer_Close listenerErr joinerErr = errorsJoin [listenerErr, joinerErr]"

definition peerIdleTimeout :: "int \<Rightarrow> int" where
  "peerIdleTimeout t = (if t = 0 then defaultUDPIdleTimeout else t)"

text \<open>\<open>PeerConfig.Join\<close>: whether the joiner it made is closed again, and the result.\<close>

definition PeerConfig_Join :: "err + unit \<Rightarrow> err + dconn \<Rightarrow> error \<Rightarrow> bool \<times> (err + dconn)" where
  "PeerConfig_Join newJoiner joined listenErr =
     (case newJoiner of
        Inl e \<Rightarrow> (False, Inl (Wrap ''create joiner'' e))
      | Inr _ \<Rightarrow>
          (case joined of
             Inl e \<Rightarrow> (True, Inl (Wrap ''join host'' e))
           | Inr c \<Rightarrow>
               (case listenErr of
                  Some e \<Rightarrow> (True, Inl (Wrap ''listen UDP'' e))
                | None \<Rightarrow> (False, Inr c))))"

text \<open>The error a closed listener returns from \<open>Accept\<close>.\<close>

definition closedListener :: leaf where "closedListener = Sentinel ''udp: listener closed''"

lemma ErrClosedListener_Leaf: "ErrClosedListener = Leaf closedListener"
  by (simp add: ErrClosedListener_def closedListener_def)

record peer_st =
  p_hostConn :: "dconn option"      \<comment> \<open>\<open>None\<close> is the nil interface\<close>
  p_accepted :: "nat list"          \<comment> \<open>game connections, in the order they came\<close>
  p_closedGames :: "nat list"
  p_joined :: "dconn list"          \<comment> \<open>history: every connection to the host\<close>
  p_closedHosts :: "dconn list"

text \<open>
  A turn of \<open>Peer.AcceptAndLink\<close>: what \<open>Accept\<close> gives and whether the context is done then, what
  \<open>link\<close> returns, and what a further \<open>Join\<close> gives, which may be neither a connection nor an error. A
  link over a nil connection panics.
\<close>

record peer_turn =
  pt_accept :: "err + nat"
  pt_ctx :: bool
  pt_link :: error
  pt_join :: "err + dconn option"

datatype peer_result = PeerRuns | PeerPanics | PeerReturned error

fun Peer_AcceptAndLink :: "peer_turn list \<Rightarrow> peer_st \<Rightarrow> peer_result \<times> peer_st" where
  "Peer_AcceptAndLink [] p = (PeerRuns, p)"
| "Peer_AcceptAndLink (t # ts) p =
     (case pt_accept t of
        Inl e \<Rightarrow>
          (PeerReturned (if errorsIs (Some e) closedListener \<and> pt_ctx t then Some (Leaf ContextCanceled)
                 else errorf ''accept incoming game connection'' e), p)
      | Inr g \<Rightarrow>
          (let p = p\<lparr>p_accepted := p_accepted p @ [g]\<rparr>; closed = p\<lparr>p_closedGames := p_closedGames p @ [g]\<rparr> in
           case p_hostConn p of
             None \<Rightarrow> (PeerPanics, p)
           | Some h \<Rightarrow>
               (case pt_link t of
                  None \<Rightarrow> Peer_AcceptAndLink ts p
                | Some e \<Rightarrow>
                    if errorsIs (Some e) errLinkIdleTimeout then
                      (case pt_join t of
                         Inl je \<Rightarrow> (PeerReturned (errorf ''join host'' je), closed\<lparr>p_hostConn := None\<rparr>)
                       | Inr c \<Rightarrow> Peer_AcceptAndLink ts
                           (closed\<lparr>p_hostConn := c, p_joined := p_joined p @ (case c of None \<Rightarrow> [] | Some x \<Rightarrow> [x])\<rparr>))
                    else if errorsIs (Some e) ErrTransportClosed then (PeerReturned None, closed)
                    else (PeerReturned (errorf ''link with game'' e),
                          closed\<lparr>p_closedHosts := p_closedHosts p @ [h]\<rparr>))))"

section \<open>The read loop\<close>

text \<open>
  A read that runs into its deadline has taken 100 ms: the clock of the next turn shows it.
\<close>

definition deadline_honoured :: "(nat \<Rightarrow> link_turn) \<Rightarrow> bool" where
  "deadline_honoured env \<longleftrightarrow>
     (\<forall>i. errorsIs (snd (lt_read (env i))) ErrDeadlineExceeded \<longrightarrow> lt_now (env i) + 100 \<le> lt_now (env (Suc i)))"

lemma link_read_progress:
  assumes "deadline_honoured env" and "0 < idle"
  shows "lastRead + 100 * int k \<le> lt_now (env i) \<Longrightarrow> idle < 100 * int (k + fuel) \<Longrightarrow>
    \<exists>r. link_read (Suc fuel) idle lastRead i env = Some r"
proof (induction fuel arbitrary: i k)
  case 0
  then have "lt_now (env i) - lastRead > idle" by simp
  then show ?case using assms(2) by (cases "lt_ctx (env i)") auto
next
  case (Suc fuel)
  show ?case
  proof (cases "lt_ctx (env i) = None \<and> \<not> lt_now (env i) - lastRead > idle \<and>
      errorsIs (snd (lt_read (env i))) ErrDeadlineExceeded")
    case True
    then have "lt_now (env i) + 100 \<le> lt_now (env (Suc i))"
      using assms(1) by (simp add: deadline_honoured_def)
    with Suc.prems have "lastRead + 100 * int (Suc k) \<le> lt_now (env (Suc i))"
      and "idle < 100 * int (Suc k + fuel)" by simp_all
    from Suc.IH [OF this] obtain r where r: "link_read (Suc fuel) idle lastRead (Suc i) env = Some r" ..
    obtain b e where "lt_read (env i) = (b, Some e)" using True by (cases "lt_read (env i)") (auto simp: errorsIs_def split: option.splits)
    then have "link_read (Suc (Suc fuel)) idle lastRead i env = link_read (Suc fuel) idle lastRead (Suc i) env"
      using True assms(2) by (simp only: link_read.simps(2) [of "Suc fuel"] Let_def) auto
    with r show ?thesis by simp
  next
    case False
    then show ?thesis using assms(2)
      by (auto simp del: link_read.simps simp: link_read.simps(2) [of "Suc fuel"] Let_def split: option.splits prod.splits)
  qed
qed

lemma link_read_result:
  assumes "link_read fuel idle lastRead i env = Some (b, e)"
  shows "length b \<le> 1500 \<and> (errorsIs e errLinkIdleTimeout \<longrightarrow>
    (\<exists>i. idle < lt_now (env i) - lastRead \<or> errorsIs (lt_ctx (env i)) errLinkIdleTimeout \<or>
      errorsIs (snd (lt_read (env i))) errLinkIdleTimeout))"
  using assms
proof (induction fuel arbitrary: i)
  case (Suc fuel)
  obtain d x where rd: "lt_read (env i) = (d, x)" by (cases "lt_read (env i)")
  show ?case
  proof (cases "lt_ctx (env i)")
    case None
    then show ?thesis using Suc rd by (cases x) (auto simp: Let_def split: if_splits intro: exI [of _ i])
  next
    case (Some y)
    then show ?thesis using Suc.prems by (auto simp: Let_def intro!: exI [of _ i])
  qed
qed simp

text \<open>
  C35. The read loop of a link with an idle timeout always returns: within \<open>timeout / 100ms + 2\<close>
  turns it has a packet, an error of the socket or the context, or has run into the timeout; and
  it reports the timeout only when the time since it started exceeds it.
\<close>

theorem link_read_terminates:
  assumes "deadline_honoured env" and "0 < idle" and "lastRead \<le> lt_now (env 0)"
  shows "\<exists>b e. link_read (nat (idle div 100) + 2) idle lastRead 0 env = Some (b, e) \<and> length b \<le> 1500 \<and>
    (errorsIs e errLinkIdleTimeout \<longrightarrow>
      (\<exists>i. idle < lt_now (env i) - lastRead \<or> errorsIs (lt_ctx (env i)) errLinkIdleTimeout \<or>
        errorsIs (snd (lt_read (env i))) errLinkIdleTimeout))"
proof -
  let ?n = "nat (idle div 100) + 1"
  have "idle < 100 * (idle div 100) + 100" and "0 \<le> idle div 100" using assms(2) by presburger+
  then have "idle < 100 * int (0 + ?n)" by simp
  then obtain b e where r: "link_read (Suc ?n) idle lastRead 0 env = Some (b, e)"
    using link_read_progress [OF assms(1,2), of lastRead 0 0 ?n] assms(3) by auto
  with link_read_result [OF r] show ?thesis by (auto simp del: link_read.simps)
qed

definition quiet :: "nat \<Rightarrow> link_turn" where
  "quiet i = \<lparr>lt_ctx = None, lt_now = 100 * int i, lt_read = ([], Some (Leaf ErrDeadlineExceeded))\<rparr>"

text \<open>A silent game: the loop gives up in the turn after the timeout.\<close>

theorem link_read_terminates_witness:
  "\<exists>b e. link_read 5 300 0 0 quiet = Some (b, e) \<and> length b \<le> 1500"
proof -
  have "deadline_honoured quiet" and "0 \<le> lt_now (quiet 0)" by (simp_all add: deadline_honoured_def quiet_def)
  from link_read_terminates [OF this(1) _ this(2), of 300] show ?thesis by auto
qed

section \<open>The accept loop of the peer\<close>

definition peer_ok :: "peer_st \<Rightarrow> bool" where
  [inv_defs]: "peer_ok p \<longleftrightarrow> p_closedGames p = p_accepted p \<and> p_closedHosts p = [] \<and>
     (\<forall>h. p_hostConn p = Some h \<longrightarrow> p_joined p \<noteq> [] \<and> last (p_joined p) = h)"

lemma Peer_AcceptAndLink_ok:
  "peer_ok p \<Longrightarrow> \<forall>t \<in> set ts. pt_link t \<noteq> None \<Longrightarrow> Peer_AcceptAndLink ts p = (r, p') \<Longrightarrow>
   (r \<noteq> PeerPanics \<longrightarrow> p_closedGames p' = p_accepted p') \<and> set (p_closedHosts p') \<subseteq> {last (p_joined p')}"
proof (induction ts p arbitrary: r p' rule: Peer_AcceptAndLink.induct)
  case (1 p)
  then show ?case by (auto simp: peer_ok_def)
next
  case (2 t ts p)
  obtain e where e: "pt_link t = Some e" using 2(4) by auto
  show ?case
  proof (cases "\<exists>g h c. pt_accept t = Inr g \<and> p_hostConn p = Some h \<and> errorsIs (Some e) errLinkIdleTimeout \<and> pt_join t = Inr c")
    case True
    then obtain g h c where t: "pt_accept t = Inr g" "p_hostConn p = Some h" "errorsIs (Some e) errLinkIdleTimeout"
        "pt_join t = Inr c" by blast
    let ?p = "p\<lparr>p_accepted := p_accepted p @ [g], p_closedGames := p_closedGames p @ [g], p_hostConn := c,
      p_joined := p_joined p @ (case c of None \<Rightarrow> [] | Some x \<Rightarrow> [x])\<rparr>"
    have "peer_ok ?p" using 2(3) by (auto simp: peer_ok_def split: option.split)
    moreover have "Peer_AcceptAndLink ts ?p = (r, p')" using 2(5) e t by (simp add: Let_def)
    ultimately show ?thesis using 2(2) [OF t(1) refl refl _ e t(3,4), of h r p'] 2(4) t(2) by simp
  next
    case False
    then show ?thesis
      using 2(3,5) e by (auto simp: peer_ok_def Let_def split: sum.splits option.splits if_splits)
  qed
qed

text \<open>
  The accept loop of a peer closes every game connection it accepted, but of the connections
  to the host it never closes one that it has replaced after an idle timeout: whatever happens,
  only the last one joined is ever closed, so every re-link leaves an open connection behind.
\<close>

theorem peer_relink_leaves_open:
  assumes "Peer_AcceptAndLink ts \<lparr>p_hostConn = Some c, p_accepted = [], p_closedGames = [], p_joined = [c],
      p_closedHosts = []\<rparr> = (r, p')"
    and "\<forall>t \<in> set ts. pt_link t \<noteq> None"
  shows "(r \<noteq> PeerPanics \<longrightarrow> p_closedGames p' = p_accepted p') \<and> set (p_closedHosts p') \<subseteq> {last (p_joined p')}"
  using Peer_AcceptAndLink_ok [OF _ assms(2,1)] by (simp add: peer_ok_def)

text \<open>A host connection is replaced after a timeout; the last one is closed, the first stays open.\<close>

definition relinked :: "peer_turn list" where
  "relinked =
     [\<lparr>pt_accept = Inr 1, pt_ctx = False, pt_link = errorf ''read from udp conn'' (Leaf errLinkIdleTimeout),
       pt_join = Inr (Some (P2PConn 2))\<rparr>,
      \<lparr>pt_accept = Inr 2, pt_ctx = False, pt_link = errorf ''send datagram'' (Leaf IdleTimeoutError), pt_join = Inr None\<rparr>]"

theorem peer_relink_leaves_open_witness:
  "\<exists>r p'. Peer_AcceptAndLink relinked \<lparr>p_hostConn = Some (P2PConn 1), p_accepted = [], p_closedGames = [],
      p_joined = [P2PConn 1], p_closedHosts = []\<rparr> = (r, p') \<and>
     p_joined p' = [P2PConn 1, P2PConn 2] \<and> p_closedHosts p' = [P2PConn 2] \<and> set (p_closedHosts p') \<subseteq> {last (p_joined p')}"
  using peer_relink_leaves_open [of relinked "P2PConn 1"]
  by (simp add: relinked_def errorf_def errLinkIdleTimeout_def ErrTransportClosed_def Let_def)

text \<open>
  \<open>Join\<close> may return neither a connection nor an error, after its joiner was closed or its caller gave
  up; the loop goes on with it, and the next game that connects makes it panic.
\<close>

lemma peer_nil_join_panics:
  assumes "p_hostConn p = Some h" and "pt_accept t = Inr g" and "pt_link t = Some e"
    and "errorsIs (Some e) errLinkIdleTimeout" and "pt_join t = Inr None" and "pt_accept t' = Inr g'"
  shows "fst (Peer_AcceptAndLink (t # t' # ts) p) = PeerPanics"
  using assms by (simp add: Let_def)

section \<open>The accept loop of the host\<close>

text \<open>
  The host starts a link for every connection it accepts and ends without an error exactly when
  the hoster was closed.
\<close>

lemma Host_AcceptAndLink_result:
  "Host_AcceptAndLink (map Inr cs @ Inl e # evs) =
     (cs, Some (if errorsIs (Some e) ErrHosterClosed then None else errorf ''accept peer connection'' e))"
  by (induction cs) auto

text \<open>Datagrams pass a link in order, each at most once, until its first error.\<close>

lemma up_loop_forwards:
  "up_loop (map (\<lambda>b. ((b, None), None)) bs @ ((b', Some e), s) # evs) = (bs, errorf ''read from udp conn'' e)"
  by (induction bs) auto

lemma down_loop_forwards:
  "down_loop (map (\<lambda>d. (Inr d, None)) ds @ (Inl e, w) # evs) = (ds, errorf ''receive datagram'' e)"
  by (induction ds) auto

section \<open>Closing\<close>

lemma close_results:
  "Host_Close e = None \<longleftrightarrow> e = None" "Peer_Close e e' = None \<longleftrightarrow> e = None \<and> e' = None"
  "errorsIs (Peer_Close e e') t \<longleftrightarrow> errorsIs e t \<or> errorsIs e' t"
  by (auto simp: Host_Close_def Peer_Close_def errorsJoin_None errorsIs_join)

end
