(* ===== verification/Star_Main.thy ===== *)
theory Star_Main
  imports Forwarder
begin

text \<open>
  \<^verbatim>\<open>cmd/star/config.go\<close> and the command line part of \<^verbatim>\<open>cmd/star/main.go\<close>: what the commands \<open>host\<close> and \<open>peer\<close> do
  with their options, and how the program ends. Parsing of flags is the parameter of each \<open>Parse\<close>:
  its error or the values of the flags and the remaining arguments.
\<close>

definition stardewPort :: int where "stardewPort = 24642"

record commandFlags =
  cf_Secret :: string
  cf_Registar :: "string option"     \<comment> \<open>URL; \<open>None\<close> when the flag is missing\<close>
  cf_Port :: int
  cf_CaCert :: string
  cf_Args :: "string list"

definition commandConfig_Parse :: "err + commandFlags \<Rightarrow> err + (string \<times> commandFlags)" where
  "commandConfig_Parse flags =
     (case flags of
        Inl e \<Rightarrow> Inl e
      | Inr c \<Rightarrow>
          (case cf_Args c of
             [] \<Rightarrow> Inl (Leaf (Opaque ''missing command''))
           | cmd # _ \<Rightarrow>
               if cf_Registar c = None then Inl (Leaf (Opaque ''missing registar URL'')) else Inr (cmd, c)))"

text \<open>\<open>hostConfig.Parse\<close>: the zero key, which is also what a missing flag gives, is replaced by \<open>fresh\<close>.\<close>

definition cmd_hostConfig_Parse :: "key \<Rightarrow> err + (int \<times> key) \<Rightarrow> err + (int \<times> key)" where
  "cmd_hostConfig_Parse fresh flags =
     (case flags of Inl e \<Rightarrow> Inl e | Inr (port, k) \<Rightarrow> Inr (port, if k = zero_key then fresh else k))"

definition cmd_peerConfig_Parse :: "err + (key \<times> int) \<Rightarrow> err + (key \<times> int)" where
  "cmd_peerConfig_Parse flags =
     (case flags of
        Inl e \<Rightarrow> Inl e
      | Inr (k, port) \<Rightarrow> if k = zero_key then Inl (Leaf (Opaque ''missing game key'')) else Inr (k, port))"

text \<open>\<open>os.Exit\<close> runs no deferred calls: \<open>closed\<close> tells whether the host or peer was closed.\<close>

record exit_state =
  exit_code :: nat
  closed :: bool

definition runHost :: "err + unit \<Rightarrow> error \<Rightarrow> exit_state" where
  "runHost registered linked =
     (case registered of
        Inl _ \<Rightarrow> \<lparr>exit_code = 1, closed = False\<rparr>
      | Inr _ \<Rightarrow> (case linked of Some _ \<Rightarrow> \<lparr>exit_code = 1, closed = False\<rparr> | None \<Rightarrow> \<lparr>exit_code = 0, closed = True\<rparr>))"

definition runPeer :: "err + dconn \<Rightarrow> error \<Rightarrow> exit_state" where
  "runPeer joined linked =
     (case joined of
        Inl _ \<Rightarrow> \<lparr>exit_code = 1, closed = False\<rparr>
      | Inr _ \<Rightarrow> (case linked of Some _ \<Rightarrow> \<lparr>exit_code = 1, closed = False\<rparr> | None \<Rightarrow> \<lparr>exit_code = 0, closed = True\<rparr>))"

definition loadTLSConfig :: "(string \<Rightarrow> err + cert) \<Rightarrow> string \<Rightarrow> err + cert option" where
  "loadTLSConfig loadCACert path =
     (if path = [] then Inr None
      else case loadCACert path of Inl e \<Rightarrow> Inl (Wrap ''load CA certificate'' e) | Inr c \<Rightarrow> Inr (Some c))"

text \<open>\<open>loadCACert\<close>: reading the file, the PEM block and the parser are parameters.\<close>

definition loadCACert ::
  "(string \<Rightarrow> err + bytes) \<Rightarrow> (bytes \<Rightarrow> (string \<times> bytes) option) \<Rightarrow> (bytes \<Rightarrow> err + cert) \<Rightarrow> string \<Rightarrow> err + cert" where
  "loadCACert readFile decode parse path =
     (case readFile path of
        Inl e \<Rightarrow> Inl e
      | Inr d \<Rightarrow>
          (case decode d of
             None \<Rightarrow> Inl (Leaf (Opaque ''invalid CA certificate''))
           | Some (ty, raw) \<Rightarrow>
               if ty \<noteq> ''CERTIFICATE'' then Inl (Leaf (Opaque ''invalid CA certificate''))
               else case parse raw of Inl e \<Rightarrow> Inl (Wrap ''parse CA certificate'' e) | Inr c \<Rightarrow> Inr c))"

text \<open>
  \<open>main\<close>: \<open>abort\<close> ends with status 2. \<open>host\<close> and \<open>peer\<close> are the outcomes of the two commands from
  their own arguments.
\<close>

definition star_main ::
  "string list \<Rightarrow> err + commandFlags \<Rightarrow> (string \<Rightarrow> err + cert option) \<Rightarrow>
   (string list \<Rightarrow> err + exit_state) \<Rightarrow> (string list \<Rightarrow> err + exit_state) \<Rightarrow> exit_state \<Rightarrow> exit_state" where
  "star_main args flags tls host peer webUI =
     (let abort = \<lparr>exit_code = 2, closed = False\<rparr> in
      if args = [] then webUI
      else case commandConfig_Parse flags of
             Inl _ \<Rightarrow> abort
           | Inr (cmd, c) \<Rightarrow>
               (case tls (cf_CaCert c) of
                  Inl _ \<Rightarrow> abort
                | Inr _ \<Rightarrow>
                    if cmd = ''host'' then (case host (tl (cf_Args c)) of Inl _ \<Rightarrow> abort | Inr x \<Rightarrow> x)
                    else if cmd = ''peer'' then (case peer (tl (cf_Args c)) of Inl _ \<Rightarrow> abort | Inr x \<Rightarrow> x)
                    else abort))"

section \<open>Tokens, texts and the web interface\<close>

text \<open>The tokens the two commands register with; a host without a key gets a fresh one.\<close>

definition host_token :: "key \<Rightarrow> key \<Rightarrow> string \<Rightarrow> key \<times> bytes" where
  "host_token fresh k secret = (let k = (if k = zero_key then fresh else k) in (k, NewToken k (ascii secret)))"

definition peer_token :: "key \<Rightarrow> string \<Rightarrow> bytes" where
  "peer_token k secret = NewToken k (ascii secret)"

text \<open>\<open>textURL\<close>: a URL as a flag; parser and printer are parameters.\<close>

definition textURL_UnmarshalText :: "(string \<Rightarrow> err + 'u) \<Rightarrow> string \<Rightarrow> err + 'u option" where
  "textURL_UnmarshalText parse txt = (case parse txt of Inl e \<Rightarrow> Inl e | Inr u \<Rightarrow> Inr (Some u))"

definition textURL_MarshalText :: "('u \<Rightarrow> string) \<Rightarrow> 'u option \<Rightarrow> string" where
  "textURL_MarshalText show_url u = (case u of None \<Rightarrow> [] | Some x \<Rightarrow> show_url x)"

definition openBrowser :: "string \<Rightarrow> string \<Rightarrow> err + string list" where
  "openBrowser goos addr =
     (if goos = ''linux'' then Inr [''xdg-open'', addr]
      else if goos = ''darwin'' then Inr [''open'', addr]
      else if goos = ''windows'' then Inr [''rundll32'', ''url.dll,FileProtocolHandler'', addr]
      else Inl (Leaf (Opaque (''unsupported platform: '' @ goos))))"

text \<open>
  \<open>runWeb\<close>: the address it listens on, and how it ends, from what creating the server, listening and
  serving give; after the interrupt it stops the sessions, then the server. Serving ends
  well only with the very error of a closed server, and a failure before the interrupt is noticed after it.
\<close>

definition web_listen_addr :: "string \<Rightarrow> string" where
  "web_listen_addr envAddr = (if envAddr = [] then ''127.0.0.1:0'' else envAddr)"

definition webServerClosed :: err where "webServerClosed = Leaf (Sentinel ''http: Server closed'')"

definition runWeb :: "error \<Rightarrow> error \<Rightarrow> error \<Rightarrow> exit_state" where
  "runWeb newErr listenErr serveErr =
     (case newErr of Some _ \<Rightarrow> \<lparr>exit_code = 1, closed = False\<rparr> | None \<Rightarrow>
      case listenErr of Some _ \<Rightarrow> \<lparr>exit_code = 1, closed = False\<rparr> | None \<Rightarrow>
      if serveErr \<noteq> Some webServerClosed then \<lparr>exit_code = 1, closed = True\<rparr> else \<lparr>exit_code = 0, closed = True\<rparr>)"

lemma host_token_issued: "Token_Key (snd (host_token fresh k secret)) = fst (host_token fresh k secret)"
  by (simp add: host_token_def Let_def Token_Key_NewToken)

lemma invite_round_trip:
  assumes "(k, t) = host_token fresh k0 secret" and "ParseKey up (Key_String k) = Some (Inr k')"
  shows "peer_token k' secret = t"
  using assms by (simp add: host_token_def peer_token_def Let_def parse_print)

section \<open>How a host ends\<close>

text \<open>
  An interrupt cancels the context of \<open>Accept\<close>: the loop returns an error, the program ends with
  status 1 and without closing the host, so that the registar is not told. Only closing the hoster,
  which nothing does in this program, would end it with status 0.
\<close>

lemma interrupt_exits_unclosed:
  assumes "\<not> errorsIs (Some e) ErrHosterClosed"
    and "Host_AcceptAndLink (map Inr cs @ [Inl e]) = (started, Some r)"
  shows "runHost (Inr ()) r = \<lparr>exit_code = 1, closed = False\<rparr>"
  using assms Host_AcceptAndLink_result [of cs e "[]"] by (auto simp: runHost_def errorf_def)

lemma interrupted: "\<not> errorsIs (Some (Leaf ContextCanceled)) ErrHosterClosed"
  by (simp add: ContextCanceled_def ErrHosterClosed_def)

end
