(* ===== verification/Window.thy ===== *)
theory Window
  imports Star_Prelude
begin

text \<open>
  Buffers that keep the last \<open>n\<close> entries. The interface states what adding an entry does to
  the visible entries; what any sequence of additions does follows once and for all. The
  index arithmetic that the two ring buffers of the sources share is proved here: the
  bandwidth ring of the admin page and the log history of the web server are its instances.
\<close>

section \<open>The interface\<close>

definition lastn :: "nat \<Rightarrow> 'a list \<Rightarrow> 'a list" where
  "lastn n xs = drop (length xs - n) xs"

lemma length_lastn [simp]: "length (lastn n xs) = min n (length xs)"
  by (simp add: lastn_def)

lemma lastn_all [simp]: "length xs \<le> n \<Longrightarrow> lastn n xs = xs"
  by (simp add: lastn_def)

lemma map_lastn: "map f (lastn n xs) = lastn n (map f xs)"
  by (simp add: lastn_def drop_map)

lemma lastn_lastn_append: "lastn n (lastn n xs @ ys) = lastn n (xs @ ys)"
proof (cases "length xs \<le> n")
  case False
  then have "length (lastn n xs) = n" by simp
  then show ?thesis using False by (auto simp: lastn_def add.commute)
qed simp

text \<open>Additions one after the other; an addition may panic.\<close>

fun adds :: "('a \<Rightarrow> 's \<Rightarrow> 's option) \<Rightarrow> 'a list \<Rightarrow> 's \<Rightarrow> 's option" where
  "adds add [] s = Some s"
| "adds add (x # xs) s = Option.bind (add x s) (adds add xs)"

locale window =
  fixes add :: "'a \<Rightarrow> 's \<Rightarrow> 's option"
    and entries :: "'s \<Rightarrow> 'a list option"
    and cap :: "'s \<Rightarrow> nat"
    and wf :: "'s \<Rightarrow> bool"
  assumes entries_total: "wf s \<Longrightarrow> \<exists>es. entries s = Some es \<and> length es \<le> cap s"
    and add_total: "wf s \<Longrightarrow> entries s = Some es \<Longrightarrow>
      \<exists>t. add x s = Some t \<and> wf t \<and> cap t = cap s \<and> entries t = Some (lastn (cap s) (es @ [x]))"
begin

lemma adds_total:
  "wf s \<Longrightarrow> entries s = Some es \<Longrightarrow>
   \<exists>t. adds add xs s = Some t \<and> wf t \<and> cap t = cap s \<and> entries t = Some (lastn (cap s) (es @ xs))"
proof (induction xs arbitrary: s es)
  case Nil
  then show ?case using entries_total [OF Nil.prems(1)] by simp
next
  case (Cons x xs)
  obtain t where t: "add x s = Some t" "wf t" "cap t = cap s"
    "entries t = Some (lastn (cap s) (es @ [x]))"
    using add_total [OF Cons.prems] by blast
  from Cons.IH [OF t(2,4)] show ?case
    by (auto simp: t(1,3) lastn_lastn_append)
qed

lemma adds_from_empty:
  "wf s \<Longrightarrow> entries s = Some [] \<Longrightarrow>
   \<exists>t. adds add xs s = Some t \<and> wf t \<and> entries t = Some (lastn (cap s) xs)"
  using adds_total [of s "[]" xs] by auto

end

section \<open>Ring arithmetic\<close>

text \<open>
  \<open>ring_view\<close> reads the \<open>c\<close> entries before the head \<open>h\<close> of a ring, oldest first; the position
  of the oldest is computed as the sources do.
\<close>

definition ring_start :: "nat \<Rightarrow> nat \<Rightarrow> nat \<Rightarrow> nat" where
  "ring_start n h c = (h + n - c) mod n"

definition ring_view :: "'a list \<Rightarrow> nat \<Rightarrow> nat \<Rightarrow> 'a list" where
  "ring_view vs h c = map (\<lambda>i. vs ! ((ring_start (length vs) h c + i) mod length vs)) [0..<c]"

definition ring_count :: "nat \<Rightarrow> nat \<Rightarrow> nat" where
  "ring_count n c = (if c < n then Suc c else c)"

lemma length_ring_view [simp]: "length (ring_view vs h c) = c"
  by (simp add: ring_view_def)

lemma ring_view_nth:
  assumes "i < c" and "c \<le> length vs"
  shows "ring_view vs h c ! i = vs ! ((h + length vs - c + i) mod length vs)"
  using assms by (simp add: ring_view_def ring_start_def mod_add_left_eq)

text \<open>Adding writes one slot; the others keep what they hold.\<close>

lemma ring_slot_kept:
  assumes "h < length vs" and "Suc j < length vs"
  shows "vs[h := x] ! ((h + Suc j) mod length vs) = vs ! ((h + Suc j) mod length vs)"
proof -
  have "(h + Suc j) mod length vs \<noteq> (h + 0) mod length vs"
    using ring_slot_inj [of h "Suc j" "length vs" 0] assms by fastforce
  then show ?thesis using assms(1) by simp
qed

lemma ring_view_add_room:
  assumes "h < length vs" and "c < length vs"
  shows "ring_view (vs[h := x]) (Suc h mod length vs) (Suc c) = ring_view vs h c @ [x]"
proof (rule nth_equalityI)
  let ?n = "length vs"
  let ?h' = "Suc h mod ?n"
  fix i
  assume "i < length (ring_view (vs[h := x]) ?h' (Suc c))"
  then have i: "i < Suc c" by simp
  have assoc: "a + ?n - Suc c + i = a + (?n - Suc c + i)" for a using assms(2) by linarith
  have "(?h' + ?n - Suc c + i) mod ?n = (?h' + (?n - Suc c + i)) mod ?n" by (simp only: assoc)
  also have "\<dots> = (Suc h + (?n - Suc c + i)) mod ?n" by (rule mod_add_left_eq)
  also have "\<dots> = (h + ?n - c + i) mod ?n" using assms(2) by (intro arg_cong2 [where f = "(mod)"]) auto
  finally have pos: "ring_view (vs[h := x]) ?h' (Suc c) ! i = vs[h := x] ! ((h + ?n - c + i) mod ?n)"
    using ring_view_nth [of i "Suc c" "vs[h := x]" ?h'] i assms(2) by simp
  show "ring_view (vs[h := x]) ?h' (Suc c) ! i = (ring_view vs h c @ [x]) ! i"
  proof (cases "i = c")
    case True
    then have "(h + ?n - c + i) mod ?n = h" using assms by simp
    with pos show ?thesis using assms True by (simp add: nth_append)
  next
    case False
    with i have "i < c" by simp
    have "h + ?n - c + i = h + Suc (?n - Suc c + i)" using assms(2) by simp
    then have "vs[h := x] ! ((h + ?n - c + i) mod ?n) = vs ! ((h + ?n - c + i) mod ?n)"
      using ring_slot_kept [OF assms(1), of "?n - Suc c + i"] \<open>i < c\<close> assms(2) by simp
    then show ?thesis using pos \<open>i < c\<close> assms(2) by (simp add: nth_append ring_view_nth)
  qed
qed simp

lemma ring_view_add_full:
  assumes "h < length vs"
  shows "ring_view (vs[h := x]) (Suc h mod length vs) (length vs) = tl (ring_view vs h (length vs) @ [x])"
proof (rule nth_equalityI)
  let ?n = "length vs"
  let ?h' = "Suc h mod ?n"
  fix i
  assume "i < length (ring_view (vs[h := x]) ?h' ?n)"
  then have i: "i < ?n" by simp
  have "(?h' + i) mod ?n = (h + Suc i) mod ?n" by (rule ring_slot_Suc)
  then have pos: "ring_view (vs[h := x]) ?h' ?n ! i = vs[h := x] ! ((h + Suc i) mod ?n)"
    using ring_view_nth [of i ?n "vs[h := x]" ?h'] i by simp
  show "ring_view (vs[h := x]) ?h' ?n ! i = tl (ring_view vs h ?n @ [x]) ! i"
  proof (cases "Suc i = ?n")
    case True
    then have "(h + Suc i) mod ?n = h" using assms by simp
    then show ?thesis using pos assms True by (simp add: nth_tl nth_append)
  next
    case False
    then show ?thesis using pos ring_slot_kept [OF assms, of i] i by (simp add: nth_tl nth_append ring_view_nth)
  qed
qed simp

lemma ring_view_add:
  assumes "h < length vs" and "c \<le> length vs"
  shows "ring_view (vs[h := x]) (Suc h mod length vs) (ring_count (length vs) c) =
    lastn (length vs) (ring_view vs h c @ [x])"
proof (cases "c < length vs")
  case True
  then show ?thesis using ring_view_add_room [OF assms(1), of c x] by (simp add: ring_count_def lastn_def)
next
  case False
  then show ?thesis using ring_view_add_full [OF assms(1), of x] assms(2)
    by (simp add: ring_count_def lastn_def drop_Suc del: drop_append)
qed

end
