(* ===== verification/Subscribers.thy ===== *)
theory Subscribers
  imports Star_Prelude
begin

text \<open>
  Fan-out over buffered channels. The event stream of the admin page and the log stream of the
  web server keep a set of subscriber channels under a mutex and hand every message to each of
  them with a \<open>select\<close> whose default drops it. A send on a closed channel and a second
  \<open>close\<close> panic; a panic is the value \<open>None\<close>. Channels are named by numbers.
\<close>

section \<open>Buffered channels\<close>

record 'a go_chan =
  chan_buf :: "'a list"
  chan_cap :: nat
  chan_closed :: bool

definition make_chan :: "nat \<Rightarrow> 'a go_chan" where
  "make_chan n = \<lparr>chan_buf = [], chan_cap = n, chan_closed = False\<rparr>"

text \<open>\<open>select { case ch <- msg: default: }\<close>\<close>

definition try_send :: "'a \<Rightarrow> 'a go_chan \<Rightarrow> 'a go_chan option" where
  "try_send x c =
     (if chan_closed c then None
      else if length (chan_buf c) < chan_cap c then Some (c\<lparr>chan_buf := chan_buf c @ [x]\<rparr>)
      else Some c)"

definition close_chan :: "'a go_chan \<Rightarrow> 'a go_chan option" where
  "close_chan c = (if chan_closed c then None else Some (c\<lparr>chan_closed := True\<rparr>))"

text \<open>
  \<open>msg, ok := <-ch\<close>: what a receive gives, and what is left; it would block on an open empty
  channel.
\<close>

datatype 'a received = Msg 'a | ChanClosed | Blocked

definition receive :: "'a go_chan \<Rightarrow> 'a received \<times> 'a go_chan" where
  "receive c =
     (case chan_buf c of
        x # xs \<Rightarrow> (Msg x, c\<lparr>chan_buf := xs\<rparr>)
      | [] \<Rightarrow> (if chan_closed c then ChanClosed else Blocked, c))"

section \<open>The set of subscribers\<close>

record 'a hub =
  chans :: "nat \<rightharpoonup> 'a go_chan"
  subscribers :: "nat set"

definition empty_hub :: "'a hub" where
  "empty_hub = \<lparr>chans = Map.empty, subscribers = {}\<rparr>"

text \<open>The channel \<open>c\<close> that a subscription makes is a new one.\<close>

definition subscribe :: "nat \<Rightarrow> nat \<Rightarrow> 'a hub \<Rightarrow> 'a hub" where
  "subscribe n c h = h\<lparr>chans := (chans h)(c \<mapsto> make_chan n), subscribers := insert c (subscribers h)\<rparr>"

definition drop_sub :: "nat \<Rightarrow> 'a hub \<Rightarrow> 'a hub option" where
  "drop_sub c h =
     do { ch \<leftarrow> chans h c;
          ch' \<leftarrow> close_chan ch;
          Some (h\<lparr>chans := (chans h)(c \<mapsto> ch'), subscribers := subscribers h - {c}\<rparr>) }"

fun drop_subs :: "nat list \<Rightarrow> 'a hub \<Rightarrow> 'a hub option" where
  "drop_subs [] h = Some h"
| "drop_subs (c # cs) h = Option.bind (drop_sub c h) (drop_subs cs)"

text \<open>The loop \<open>for ch := range subscribers\<close>; the order of the keys of a map is not specified.\<close>

definition send_sub :: "'a \<Rightarrow> nat \<Rightarrow> 'a hub \<Rightarrow> 'a hub option" where
  "send_sub x c h =
     do { ch \<leftarrow> chans h c;
          ch' \<leftarrow> try_send x ch;
          Some (h\<lparr>chans := (chans h)(c \<mapsto> ch')\<rparr>) }"

fun send_subs :: "'a \<Rightarrow> nat list \<Rightarrow> 'a hub \<Rightarrow> 'a hub option" where
  "send_subs x [] h = Some h"
| "send_subs x (c # cs) h = Option.bind (send_sub x c h) (send_subs x cs)"

definition range_order :: "nat list \<Rightarrow> 'a hub \<Rightarrow> bool" where
  "range_order ord h \<longleftrightarrow> distinct ord \<and> set ord = subscribers h"

definition receive_sub :: "nat \<Rightarrow> 'a hub \<Rightarrow> ('a received \<times> 'a hub) option" where
  "receive_sub c h =
     map_option (\<lambda>ch. (fst (receive ch), h\<lparr>chans := (chans h)(c \<mapsto> snd (receive ch))\<rparr>)) (chans h c)"

section \<open>The invariant\<close>

text \<open>Exactly the subscribed channels are open, and no channel holds more than its capacity.\<close>

definition hub_ok :: "'a hub \<Rightarrow> bool" where
  [inv_defs]: "hub_ok h \<longleftrightarrow>
     subscribers h = {c. \<exists>ch. chans h c = Some ch \<and> \<not> chan_closed ch} \<and>
     (\<forall>ch \<in> ran (chans h). length (chan_buf ch) \<le> chan_cap ch)"

lemma hub_ok_empty [simp]: "hub_ok empty_hub"
  by (simp add: hub_ok_def empty_hub_def)

lemma hub_ok_open:
  "hub_ok h \<Longrightarrow> c \<in> subscribers h \<longleftrightarrow> (\<exists>ch. chans h c = Some ch \<and> \<not> chan_closed ch)"
  by (auto simp: hub_ok_def)

lemma hub_ok_update:
  assumes "hub_ok h" and "length (chan_buf ch) \<le> chan_cap ch"
    and "subs = (if chan_closed ch then subscribers h - {c} else insert c (subscribers h))"
  shows "hub_ok (h\<lparr>chans := (chans h)(c \<mapsto> ch), subscribers := subs\<rparr>)"
  using assms by (auto simp: hub_ok_def ran_def)

lemma hub_ok_update_chan:
  assumes "hub_ok h" and "length (chan_buf ch) \<le> chan_cap ch" and "c \<in> subscribers h \<longleftrightarrow> \<not> chan_closed ch"
  shows "hub_ok (h\<lparr>chans := (chans h)(c \<mapsto> ch)\<rparr>)"
  using assms by (auto simp: hub_ok_def ran_def)

lemma hub_ok_subscribe: "hub_ok h \<Longrightarrow> hub_ok (subscribe n c h)"
  unfolding subscribe_def by (rule hub_ok_update) (auto simp: make_chan_def)

lemma hub_ok_bound: "hub_ok h \<Longrightarrow> chans h c = Some ch \<Longrightarrow> length (chan_buf ch) \<le> chan_cap ch"
  by (auto simp: hub_ok_def ran_def)

lemma drop_sub_ok:
  assumes "hub_ok h" and "c \<in> subscribers h"
  shows "\<exists>h'. drop_sub c h = Some h' \<and> hub_ok h' \<and> subscribers h' = subscribers h - {c}"
proof -
  obtain ch where ch: "chans h c = Some ch" "\<not> chan_closed ch" using assms hub_ok_open by blast
  moreover have "hub_ok (h\<lparr>chans := (chans h)(c \<mapsto> ch\<lparr>chan_closed := True\<rparr>), subscribers := subscribers h - {c}\<rparr>)"
    by (rule hub_ok_update) (use assms ch hub_ok_bound in auto)
  ultimately show ?thesis by (simp add: drop_sub_def close_chan_def)
qed

lemma drop_subs_ok:
  "hub_ok h \<Longrightarrow> distinct cs \<Longrightarrow> set cs \<subseteq> subscribers h \<Longrightarrow>
   \<exists>h'. drop_subs cs h = Some h' \<and> hub_ok h' \<and> subscribers h' = subscribers h - set cs"
proof (induction cs arbitrary: h)
  case (Cons c cs)
  obtain h1 where h1: "drop_sub c h = Some h1" "hub_ok h1" "subscribers h1 = subscribers h - {c}"
    using drop_sub_ok [of h c] Cons.prems by auto
  have "set cs \<subseteq> subscribers h1" using Cons.prems h1(3) by auto
  from Cons.IH [OF h1(2) _ this] Cons.prems h1 show ?case by auto
qed simp

section \<open>What a broadcast does\<close>

text \<open>The message goes to the end of the buffer when there is room.\<close>

definition offer :: "'a \<Rightarrow> 'a go_chan \<Rightarrow> 'a go_chan" where
  "offer x c = c\<lparr>chan_buf := take (max (length (chan_buf c)) (chan_cap c)) (chan_buf c @ [x])\<rparr>"

lemma try_send_offer: "\<not> chan_closed c \<Longrightarrow> try_send x c = Some (offer x c)"
  by (auto simp: try_send_def offer_def max_def)

lemma offer_simps [simp]:
  "chan_cap (offer x c) = chan_cap c" "chan_closed (offer x c) = chan_closed c"
  "length (chan_buf c) \<le> chan_cap c \<Longrightarrow> chan_buf (offer x c) = take (chan_cap c) (chan_buf c @ [x])"
  by (auto simp: offer_def max_def)

lemma offer_fold:
  "length (chan_buf c) \<le> chan_cap c \<Longrightarrow>
   chan_buf (fold offer xs c) = take (chan_cap c) (chan_buf c @ xs)"
proof (induction xs arbitrary: c)
  case (Cons x xs)
  have "chan_buf (fold offer (x # xs) c) = take (chan_cap c) (take (chan_cap c) (chan_buf c @ [x]) @ xs)"
    using Cons.IH [of "offer x c"] Cons.prems by simp
  also have "\<dots> = take (chan_cap c) (chan_buf c @ x # xs)"
    using Cons.prems by (cases "length (chan_buf c) = chan_cap c") (auto simp: take_Cons' Suc_le_eq)
  finally show ?case .
qed simp

definition offer_all :: "'a \<Rightarrow> nat set \<Rightarrow> 'a hub \<Rightarrow> 'a hub" where
  "offer_all x cs h = h\<lparr>chans := (\<lambda>c. if c \<in> cs then map_option (offer x) (chans h c) else chans h c)\<rparr>"

lemma send_sub_offer:
  assumes "chans h c = Some ch" and "\<not> chan_closed ch"
  shows "send_sub x c h = Some (offer_all x {c} h)"
proof -
  have "h\<lparr>chans := (chans h)(c \<mapsto> offer x ch)\<rparr> = offer_all x {c} h"
    by (rule hub.equality) (auto simp: offer_all_def assms(1))
  then show ?thesis using assms by (simp add: send_sub_def try_send_offer)
qed

lemma send_subs_offer:
  "distinct cs \<Longrightarrow> \<forall>c \<in> set cs. \<exists>ch. chans h c = Some ch \<and> \<not> chan_closed ch \<Longrightarrow>
   send_subs x cs h = Some (offer_all x (set cs) h)"
proof (induction cs arbitrary: h)
  case (Cons c cs)
  have "\<forall>d \<in> set cs. \<exists>ch. chans (offer_all x {c} h) d = Some ch \<and> \<not> chan_closed ch"
    using Cons.prems by (auto simp: offer_all_def)
  moreover have "offer_all x (set cs) (offer_all x {c} h) = offer_all x (set (c # cs)) h"
    using Cons.prems(1) by (intro hub.equality) (auto simp: offer_all_def)
  ultimately show ?case
    using Cons by (auto simp: send_sub_offer)
qed (simp add: offer_all_def)

text \<open>
  A broadcast never panics, and its outcome does not depend on the order in which the loop
  visits the subscribers.
\<close>

lemma broadcast_offer:
  assumes "hub_ok h" and "range_order ord h"
  shows "send_subs x ord h = Some (offer_all x (subscribers h) h)"
  using send_subs_offer [of ord h x] assms hub_ok_open [OF assms(1)] by (auto simp: range_order_def)

lemma offer_all_simps [simp]:
  "subscribers (offer_all x cs h) = subscribers h"
  "chans (offer_all x cs h) c = (if c \<in> cs then map_option (offer x) (chans h c) else chans h c)"
  by (auto simp: offer_all_def)

lemma hub_ok_offer_all: "hub_ok h \<Longrightarrow> hub_ok (offer_all x cs h)"
  by (force simp: hub_ok_def ran_def split: if_splits)

lemma receive_sub_ok:
  assumes "hub_ok h" and "receive_sub c h = Some (m, h')"
  shows "hub_ok h' \<and> subscribers h' = subscribers h"
proof -
  obtain ch where ch: "chans h c = Some ch" and h': "h' = h\<lparr>chans := (chans h)(c \<mapsto> snd (receive ch))\<rparr>"
    using assms(2) by (auto simp: receive_sub_def)
  have "length (chan_buf (snd (receive ch))) \<le> chan_cap (snd (receive ch))"
    "chan_closed (snd (receive ch)) = chan_closed ch"
    using hub_ok_bound [OF assms(1) ch] by (auto simp: receive_def split: list.splits)
  then show ?thesis unfolding h'
    using hub_ok_update_chan [OF assms(1)] hub_ok_open [OF assms(1), of c] ch by auto
qed

end
