(* ===== verification/Sse_Log.thy ===== *)
theory Sse_Log
  imports Window Subscribers Go_Errors
begin

text \<open>
  \<^verbatim>\<open>internal/webserver/sse.go\<close>: the log handler that feeds the browser. It keeps the last
  lines in a ring buffer, replays them to a new subscriber and hands every further line to all
  subscribers. The circular list of \<open>container/ring\<close> is a list of cells with a position; a
  cell is empty until a value is stored. The text a log record is rendered to is a parameter.
\<close>

section \<open>container/ring\<close>

record 'a go_ring =
  ring_cells :: "'a option list"    \<comment> \<open>no cells: the nil ring\<close>
  ring_pos :: nat

definition ring_New :: "nat \<Rightarrow> 'a go_ring" where
  "ring_New n = \<lparr>ring_cells = replicate n None, ring_pos = 0\<rparr>"

definition ring_Next :: "'a go_ring \<Rightarrow> 'a go_ring option" where
  "ring_Next r =
     map_option (\<lambda>p. r\<lparr>ring_pos := p\<rparr>) (go_mod (Suc (ring_pos r)) (length (ring_cells r)))"

definition ring_Prev :: "'a go_ring \<Rightarrow> 'a go_ring option" where
  "ring_Prev r =
     map_option (\<lambda>p. r\<lparr>ring_pos := p\<rparr>)
       (go_mod (ring_pos r + length (ring_cells r) - 1) (length (ring_cells r)))"

text \<open>\<open>r.Move(-n)\<close>: \<open>n\<close> elements backward.\<close>

fun ring_MoveBack :: "nat \<Rightarrow> 'a go_ring \<Rightarrow> 'a go_ring option" where
  "ring_MoveBack 0 r = (if ring_cells r = [] then None else Some r)"
| "ring_MoveBack (Suc n) r = Option.bind (ring_Prev r) (ring_MoveBack n)"

definition ring_set :: "'a \<Rightarrow> 'a go_ring \<Rightarrow> 'a go_ring option" where
  "ring_set x r =
     map_option (\<lambda>cs. r\<lparr>ring_cells := cs\<rparr>) (go_store (ring_cells r) (ring_pos r) (Some x))"

text \<open>\<open>r.Value.(string)\<close>: panics on a nil ring and on an empty cell.\<close>

definition ring_get :: "'a go_ring \<Rightarrow> 'a option" where
  "ring_get r = Option.bind (go_index (ring_cells r) (ring_pos r)) (\<lambda>c. c)"

section \<open>ringBuffer\<close>

record ringBuffer =
  rb_r :: "string go_ring"
  rb_count :: nat
  rb_capacity :: nat

definition newRingBuffer :: "nat \<Rightarrow> ringBuffer" where
  "newRingBuffer capacity = \<lparr>rb_r = ring_New capacity, rb_count = 0, rb_capacity = capacity\<rparr>"

definition rb_add :: "string \<Rightarrow> ringBuffer \<Rightarrow> ringBuffer option" where
  "rb_add s rb =
     do { r \<leftarrow> ring_set s (rb_r rb);
          r' \<leftarrow> ring_Next r;
          Some (rb\<lparr>rb_r := r',
            rb_count := (if rb_count rb < rb_capacity rb then rb_count rb + 1 else rb_count rb)\<rparr>) }"

fun rb_entries_loop :: "nat \<Rightarrow> string go_ring \<Rightarrow> string list \<Rightarrow> string list option" where
  "rb_entries_loop 0 r result = Some result"
| "rb_entries_loop (Suc n) r result =
     do { s \<leftarrow> ring_get r;
          r' \<leftarrow> ring_Next r;
          rb_entries_loop n r' (result @ [s]) }"

definition rb_entries :: "ringBuffer \<Rightarrow> string list option" where
  "rb_entries rb =
     do { r \<leftarrow> ring_MoveBack (rb_count rb) (rb_r rb);
          rb_entries_loop (rb_count rb) r [] }"

definition rb_reset :: "ringBuffer \<Rightarrow> ringBuffer" where
  "rb_reset rb = rb\<lparr>rb_r := ring_New (rb_capacity rb), rb_count := 0\<rparr>"

section \<open>The ring buffer is a window on the log\<close>

definition rb_ok :: "ringBuffer \<Rightarrow> bool" where
  [inv_defs]: "rb_ok rb \<longleftrightarrow>
     length (ring_cells (rb_r rb)) = rb_capacity rb \<and> ring_pos (rb_r rb) < rb_capacity rb \<and>
     rb_count rb \<le> rb_capacity rb \<and>
     None \<notin> set (ring_view (ring_cells (rb_r rb)) (ring_pos (rb_r rb)) (rb_count rb))"

lemma ring_MoveBack_pos:
  "ring_pos r < length (ring_cells r) \<Longrightarrow> n \<le> length (ring_cells r) \<Longrightarrow>
   ring_MoveBack n r =
     Some (r\<lparr>ring_pos := (ring_pos r + length (ring_cells r) - n) mod length (ring_cells r)\<rparr>)"
proof (induction n arbitrary: r)
  case 0
  then show ?case by auto
next
  case (Suc n)
  let ?N = "length (ring_cells r)"
  let ?p = "(ring_pos r + ?N - 1) mod ?N"
  have "ring_MoveBack (Suc n) r = ring_MoveBack n (r\<lparr>ring_pos := ?p\<rparr>)"
    using Suc.prems by (auto simp: ring_Prev_def go_mod_def)
  also have "\<dots> = Some (r\<lparr>ring_pos := (?p + ?N - n) mod ?N\<rparr>)"
  proof -
    have "0 < ?N" using Suc.prems(1) by linarith
    then have "?p < ?N" by simp
    then show ?thesis using Suc.IH [of "r\<lparr>ring_pos := ?p\<rparr>"] Suc.prems(2) by simp
  qed
  also have "(?p + ?N - n) mod ?N = (?p + (?N - n)) mod ?N" using Suc.prems(2) by simp
  also have "\<dots> = (ring_pos r + ?N - 1 + (?N - n)) mod ?N" by (rule mod_add_left_eq)
  also have "ring_pos r + ?N - 1 + (?N - n) = (ring_pos r + ?N - Suc n) + ?N" using Suc.prems by linarith
  finally show ?case by simp
qed

lemma rb_entries_loop_view:
  "ring_pos r < length (ring_cells r) \<Longrightarrow>
   rb_entries_loop n r res =
     map_option (\<lambda>es. res @ es)
       (those (map (\<lambda>i. ring_cells r ! ((ring_pos r + i) mod length (ring_cells r))) [0..<n]))"
proof (induction n arbitrary: r res)
  case (Suc n)
  let ?N = "length (ring_cells r)"
  let ?r' = "r\<lparr>ring_pos := Suc (ring_pos r) mod ?N\<rparr>"
  have next': "ring_Next r = Some ?r'" using Suc.prems by (auto simp: ring_Next_def go_mod_def)
  have shift: "map (\<lambda>i. ring_cells r ! ((ring_pos r + i) mod ?N)) [0..<Suc n] =
    ring_cells r ! ring_pos r #
    map (\<lambda>i. ring_cells r ! ((ring_pos ?r' + i) mod length (ring_cells ?r'))) [0..<n]"
    using Suc.prems by (simp add: upt_conv_Cons map_Suc_upt [symmetric] mod_Suc_eq mod_add_left_eq
        del: upt_Suc map_Suc_upt)
  have "0 < ?N" using Suc.prems by linarith
  then have "ring_pos ?r' < length (ring_cells ?r')" by simp
  from Suc.IH [OF this] show ?case
    unfolding shift using Suc.prems next'
    by (auto simp: ring_get_def go_simps option.map_comp comp_def split: option.splits)
qed simp

lemma those_map_Some: "None \<notin> set xs \<Longrightarrow> those xs = Some (map the xs)"
proof (induction xs)
  case (Cons x xs)
  then show ?case by (cases x) auto
qed simp

lemma rb_entries_view:
  assumes "rb_ok rb"
  shows "rb_entries rb =
    Some (map the (ring_view (ring_cells (rb_r rb)) (ring_pos (rb_r rb)) (rb_count rb)))"
proof -
  let ?r = "rb_r rb"
  let ?N = "length (ring_cells ?r)"
  let ?s = "?r\<lparr>ring_pos := ring_start ?N (ring_pos ?r) (rb_count rb)\<rparr>"
  have "0 < ?N" using assms by (auto simp: rb_ok_def)
  then have "ring_pos ?s < length (ring_cells ?s)" by (simp add: ring_start_def)
  from rb_entries_loop_view [OF this, of "rb_count rb" "[]"]
  have "rb_entries_loop (rb_count rb) ?s [] = those (ring_view (ring_cells ?r) (ring_pos ?r) (rb_count rb))"
    by (simp add: ring_view_def option.map_ident)
  moreover have "ring_MoveBack (rb_count rb) ?r = Some ?s"
    using assms ring_MoveBack_pos [of ?r "rb_count rb"] by (simp add: rb_ok_def ring_start_def)
  ultimately have "rb_entries rb = those (ring_view (ring_cells ?r) (ring_pos ?r) (rb_count rb))"
    by (simp add: rb_entries_def)
  then show ?thesis using assms by (simp add: those_map_Some rb_ok_def)
qed

lemma rb_add_ok:
  assumes "rb_ok rb"
  shows "\<exists>rb'. rb_add s rb = Some rb' \<and> rb_ok rb' \<and> rb_capacity rb' = rb_capacity rb \<and>
    ring_view (ring_cells (rb_r rb')) (ring_pos (rb_r rb')) (rb_count rb') =
      lastn (rb_capacity rb) (ring_view (ring_cells (rb_r rb)) (ring_pos (rb_r rb)) (rb_count rb) @ [Some s])"
proof -
  let ?cs = "ring_cells (rb_r rb)" and ?p = "ring_pos (rb_r rb)"
  let ?rb' = "rb\<lparr>rb_r := \<lparr>ring_cells = ?cs[?p := Some s], ring_pos = Suc ?p mod length ?cs\<rparr>,
    rb_count := ring_count (length ?cs) (rb_count rb)\<rparr>"
  have wf: "length ?cs = rb_capacity rb" "?p < length ?cs" "rb_count rb \<le> length ?cs" "0 < length ?cs"
    using assms by (auto simp: rb_ok_def)
  have add: "rb_add s rb = Some ?rb'"
    using wf by (auto simp: rb_add_def ring_set_def ring_Next_def go_simps ring_count_def)
  have view: "ring_view (ring_cells (rb_r ?rb')) (ring_pos (rb_r ?rb')) (rb_count ?rb') =
    lastn (rb_capacity rb) (ring_view ?cs ?p (rb_count rb) @ [Some s])"
    using ring_view_add [OF wf(2,3), of "Some s"] wf(1) by simp
  then have "None \<notin> set (ring_view (ring_cells (rb_r ?rb')) (ring_pos (rb_r ?rb')) (rb_count ?rb'))"
    using assms by (auto simp: rb_ok_def lastn_def dest!: in_set_dropD)
  then have "rb_ok ?rb'" using wf by (auto simp: rb_ok_def ring_count_def)
  with add view show ?thesis by auto
qed

interpretation log: window rb_add rb_entries rb_capacity rb_ok
proof unfold_locales
  fix rb assume ok: "rb_ok rb"
  then show "\<exists>es. rb_entries rb = Some es \<and> length es \<le> rb_capacity rb"
    by (simp add: rb_entries_view rb_ok_def)
next
  fix rb es x assume ok: "rb_ok rb" and es: "rb_entries rb = Some es"
  from rb_add_ok [OF ok, of x] show "\<exists>t. rb_add x rb = Some t \<and> rb_ok t \<and> rb_capacity t = rb_capacity rb \<and>
      rb_entries t = Some (lastn (rb_capacity rb) (es @ [x]))"
    using es ok by (auto simp: rb_entries_view map_lastn)
qed

lemma newRingBuffer_ok: "0 < n \<Longrightarrow> rb_ok (newRingBuffer n) \<and> rb_entries (newRingBuffer n) = Some []"
  by (auto simp: rb_ok_def newRingBuffer_def ring_New_def ring_view_def rb_entries_def)

lemma rb_reset_new: "rb_reset rb = newRingBuffer (rb_capacity rb)"
  by (simp add: rb_reset_def newRingBuffer_def)

section \<open>SSEHandler\<close>

record sse =
  history :: ringBuffer
  sse_hub :: "string hub"

definition NewSSEHandler :: "nat \<Rightarrow> sse" where
  "NewSSEHandler bufferSize = \<lparr>history = newRingBuffer bufferSize, sse_hub = empty_hub\<rparr>"

text \<open>
  \<open>Handle\<close> for one record; \<open>rendered\<close> is what the text handler made of it, its error or the
  line it left in the scratch buffer, and \<open>ord\<close> the order in which the loop meets the
  subscribers.
\<close>

definition Handle :: "err + string \<Rightarrow> nat list \<Rightarrow> sse \<Rightarrow> (error \<times> sse) option" where
  "Handle rendered ord h =
     (case rendered of
        Inl e \<Rightarrow> Some (Some e, h)
      | Inr line \<Rightarrow>
          do { hist \<leftarrow> rb_add line (history h);
               hub \<leftarrow> send_subs line ord (sse_hub h);
               Some (None, h\<lparr>history := hist, sse_hub := hub\<rparr>) })"

definition Subscribe :: "nat \<Rightarrow> sse \<Rightarrow> (string list \<times> nat \<times> sse) option" where
  "Subscribe ch h =
     do { es \<leftarrow> rb_entries (history h);
          Some (es, ch, h\<lparr>sse_hub := subscribe 100 ch (sse_hub h)\<rparr>) }"

definition Unsubscribe :: "nat \<Rightarrow> sse \<Rightarrow> sse option" where
  "Unsubscribe ch h =
     (if ch \<in> subscribers (sse_hub h)
      then map_option (\<lambda>hub. h\<lparr>sse_hub := hub\<rparr>) (drop_sub ch (sse_hub h))
      else Some h)"

definition Reset :: "nat list \<Rightarrow> sse \<Rightarrow> sse option" where
  "Reset ord h =
     map_option (\<lambda>hub. h\<lparr>history := rb_reset (history h), sse_hub := hub\<rparr>) (drop_subs ord (sse_hub h))"

subsection \<open>Steps and invariant\<close>

text \<open>
  Every operation holds the mutex from its first to its last line, so operations follow each
  other; receives of the subscribers come in between.
\<close>

inductive sse_step :: "sse \<Rightarrow> sse \<Rightarrow> bool" where
  handle: "range_order ord (sse_hub h) \<Longrightarrow> Handle rendered ord h = Some (e, h') \<Longrightarrow> sse_step h h'"
| sub: "chans (sse_hub h) ch = None \<Longrightarrow> Subscribe ch h = Some (es, c, h') \<Longrightarrow> sse_step h h'"
| unsub: "Unsubscribe ch h = Some h' \<Longrightarrow> sse_step h h'"
| reset: "range_order ord (sse_hub h) \<Longrightarrow> Reset ord h = Some h' \<Longrightarrow> sse_step h h'"
| recv: "receive_sub ch (sse_hub h) = Some (m, hub) \<Longrightarrow> sse_step h (h\<lparr>sse_hub := hub\<rparr>)"

definition sse_init :: "sse \<Rightarrow> bool" where
  "sse_init h \<longleftrightarrow> (\<exists>n > 0. h = NewSSEHandler n)"

definition sse_ok :: "sse \<Rightarrow> bool" where
  [inv_defs]: "sse_ok h \<longleftrightarrow> rb_ok (history h) \<and> hub_ok (sse_hub h)"

lemma Handle_ok:
  assumes "sse_ok h" and "range_order ord (sse_hub h)"
  shows "\<exists>h'. Handle (Inr line) ord h = Some (None, h') \<and> sse_ok h' \<and>
    rb_add line (history h) = Some (history h') \<and>
    sse_hub h' = offer_all line (subscribers (sse_hub h)) (sse_hub h)"
proof -
  obtain rb where "rb_add line (history h) = Some rb" "rb_ok rb"
    using rb_add_ok assms(1) unfolding sse_ok_def by blast
  then show ?thesis using assms
    by (auto simp: Handle_def sse_ok_def broadcast_offer hub_ok_offer_all)
qed

lemma Handle_render_error: "Handle (Inl e) ord h = Some (Some e, h)"
  by (simp add: Handle_def)

lemma Subscribe_ok:
  assumes "sse_ok h"
  shows "\<exists>es. rb_entries (history h) = Some es \<and>
    Subscribe ch h = Some (es, ch, h\<lparr>sse_hub := subscribe 100 ch (sse_hub h)\<rparr>) \<and>
    sse_ok (h\<lparr>sse_hub := subscribe 100 ch (sse_hub h)\<rparr>)"
  using assms log.entries_total [of "history h"]
  by (auto simp: Subscribe_def sse_ok_def hub_ok_subscribe)

lemma Unsubscribe_ok:
  assumes "sse_ok h"
  shows "\<exists>h'. Unsubscribe ch h = Some h' \<and> sse_ok h'"
  using assms drop_sub_ok [of "sse_hub h" ch] by (auto simp: Unsubscribe_def sse_ok_def)

lemma rb_reset_ok: "rb_ok rb \<Longrightarrow> rb_ok (rb_reset rb)"
  using newRingBuffer_ok [of "rb_capacity rb"] by (auto simp: rb_reset_new rb_ok_def)

lemma Reset_ok:
  assumes "sse_ok h" and "range_order ord (sse_hub h)"
  shows "\<exists>h'. Reset ord h = Some h' \<and> sse_ok h' \<and> subscribers (sse_hub h') = {} \<and>
    rb_entries (history h') = Some []"
proof -
  obtain hub where "drop_subs ord (sse_hub h) = Some hub" "hub_ok hub" "subscribers hub = {}"
    using drop_subs_ok [of "sse_hub h" ord] assms by (auto simp: sse_ok_def range_order_def)
  moreover have "rb_entries (rb_reset (history h)) = Some []"
    using newRingBuffer_ok [of "rb_capacity (history h)"] assms(1) by (auto simp: rb_reset_new sse_ok_def rb_ok_def)
  ultimately show ?thesis using assms rb_reset_ok by (auto simp: Reset_def sse_ok_def)
qed

interpretation sse: inductive_invariant sse_init sse_step sse_ok
proof unfold_locales
  fix h assume "sse_init h"
  then show "sse_ok h"
    by (auto simp: sse_init_def sse_ok_def NewSSEHandler_def newRingBuffer_ok)
next
  fix h h' assume ok: "sse_ok h" and "sse_step h h'"
  from this(2) show "sse_ok h'"
  proof cases
    case (handle ord rendered e)
    show ?thesis
    proof (cases rendered)
      case (Inr line)
      then show ?thesis using handle(2) Handle_ok [OF ok handle(1), of line] by auto
    qed (use handle(2) ok in \<open>simp add: Handle_render_error\<close>)
  next
    case (sub ch es c)
    then show ?thesis using Subscribe_ok [OF ok, of ch] by auto
  next
    case (unsub ch)
    then show ?thesis using Unsubscribe_ok [OF ok, of ch] by auto
  next
    case (reset ord)
    then show ?thesis using Reset_ok [OF ok, of ord] by auto
  next
    case (recv ch m hub)
    then show ?thesis using ok receive_sub_ok [of "sse_hub h" ch m hub] by (auto simp: sse_ok_def)
  qed
qed

section \<open>Properties\<close>

text \<open>The lines of a list of records, handled one after the other.\<close>

fun Handles :: "(nat list \<times> string) list \<Rightarrow> sse \<Rightarrow> sse option" where
  "Handles [] h = Some h"
| "Handles ((ord, line) # ls) h =
     do { (e, h') \<leftarrow> Handle (Inr line) ord h; Handles ls h' }"

lemma Handles_ok:
  "sse_ok h \<Longrightarrow> \<forall>p \<in> set ls. range_order (fst p) (sse_hub h) \<Longrightarrow>
   \<exists>h'. Handles ls h = Some h' \<and> sse_ok h' \<and> subscribers (sse_hub h') = subscribers (sse_hub h) \<and>
     adds rb_add (map snd ls) (history h) = Some (history h') \<and>
     (\<forall>c \<in> subscribers (sse_hub h). chans (sse_hub h') c =
        map_option (fold offer (map snd ls)) (chans (sse_hub h) c))"
proof (induction ls arbitrary: h)
  case Nil
  then show ?case by (simp add: option.map_ident)
next
  case (Cons p ls)
  obtain ord line where p: "p = (ord, line)" by (cases p)
  then have "range_order ord (sse_hub h)" using Cons.prems(2) by simp
  from Handle_ok [OF Cons.prems(1) this, of line] obtain h1 where
    h1: "Handle (Inr line) ord h = Some (None, h1)" "sse_ok h1" "rb_add line (history h) = Some (history h1)"
      "sse_hub h1 = offer_all line (subscribers (sse_hub h)) (sse_hub h)" by auto
  have "\<forall>q \<in> set ls. range_order (fst q) (sse_hub h1)"
    using Cons.prems(2) by (auto simp: range_order_def h1(4))
  from Cons.IH [OF h1(2) this] show ?case
    using h1 by (auto simp: p option.map_comp comp_def)
qed

text \<open>
  No operation of the log handler panics: in every reachable state, handling a record,
  subscribing, unsubscribing any channel (also one that was already removed, or that a reset
  closed) and resetting all return; no line is sent on a closed channel and no channel is
  closed twice, and a channel never holds more than the 100 lines it was made for.
\<close>

lemma sse_no_panic:
  assumes "reach sse_init sse_step h" and "range_order ord (sse_hub h)"
  shows "(\<exists>e h'. Handle rendered ord h = Some (e, h')) \<and> (\<exists>es h'. Subscribe new h = Some (es, new, h')) \<and>
    (\<exists>h'. Unsubscribe ch h = Some h') \<and> (\<exists>h'. Reset ord h = Some h') \<and>
    (\<forall>c. chans (sse_hub h) ch = Some c \<longrightarrow> length (chan_buf c) \<le> chan_cap c)"
proof (intro conjI allI impI)
  have ok: "sse_ok h" using sse.inv_reach assms(1) by blast
  show "\<exists>e h'. Handle rendered ord h = Some (e, h')"
    using Handle_ok [OF ok assms(2)] by (cases rendered) (auto simp: Handle_render_error, blast)
  show "\<exists>es h'. Subscribe new h = Some (es, new, h')" using Subscribe_ok [OF ok] by blast
  show "\<exists>h'. Unsubscribe ch h = Some h'" using Unsubscribe_ok [OF ok] by blast
  show "\<exists>h'. Reset ord h = Some h'" using Reset_ok [OF ok assms(2)] by blast
  show "length (chan_buf c) \<le> chan_cap c" if "chans (sse_hub h) ch = Some c" for c
    using hub_ok_bound that ok unfolding sse_ok_def by blast
qed

lemma sse_reach_new: "0 < n \<Longrightarrow> reach sse_init sse_step (NewSSEHandler n)"
  by (rule reach_init) (auto simp: sse_init_def)

lemma sse_reach_subscribed:
  assumes "0 < n"
  shows "reach sse_init sse_step ((NewSSEHandler n)\<lparr>sse_hub := subscribe 100 0 empty_hub\<rparr>)"
proof (rule reach_step [OF sse_reach_new [OF assms]])
  show "sse_step (NewSSEHandler n) ((NewSSEHandler n)\<lparr>sse_hub := subscribe 100 0 empty_hub\<rparr>)"
    by (rule sse_step.sub [of _ 0 "[]" 0])
      (simp_all add: NewSSEHandler_def empty_hub_def Subscribe_def newRingBuffer_ok assms)
qed

lemma sse_no_panic_witness:
  "(\<exists>h'. Unsubscribe 3 ((NewSSEHandler 2)\<lparr>sse_hub := subscribe 100 0 empty_hub\<rparr>) = Some h') \<and>
   (\<exists>h'. Reset [0] ((NewSSEHandler 2)\<lparr>sse_hub := subscribe 100 0 empty_hub\<rparr>) = Some h')"
  using sse_no_panic [OF sse_reach_subscribed [of 2], of "[0]" "Inr ''a''" 1 3]
  by (simp add: range_order_def subscribe_def empty_hub_def)

text \<open>
  C39. A browser that opens the log misses nothing and sees nothing twice: what \<open>Subscribe\<close>
  returns is the window of the last lines before it, and the lines handled after it are, in
  order, in the subscriber's channel, up to the 100 it can hold before it reads; the window
  itself has moved on by the same lines.
\<close>

theorem sse_replay:
  assumes "reach sse_init sse_step h" and "Subscribe ch h = Some (es, c, h1)"
    and "\<forall>p \<in> set ls. range_order (fst p) (sse_hub h1)"
  shows "\<exists>h2. Handles ls h1 = Some h2 \<and>
    map_option chan_buf (chans (sse_hub h2) c) = Some (take 100 (map snd ls)) \<and>
    rb_entries (history h2) = Some (lastn (rb_capacity (history h)) (es @ map snd ls))"
proof -
  have ok: "sse_ok h" using sse.inv_reach assms(1) by blast
  from Subscribe_ok [OF ok, of ch] assms(2) have h1: "h1 = h\<lparr>sse_hub := subscribe 100 ch (sse_hub h)\<rparr>"
    "c = ch" "rb_entries (history h) = Some es" "sse_ok h1" by auto
  from Handles_ok [OF h1(4) assms(3)] obtain h2 where h2: "Handles ls h1 = Some h2"
    "adds rb_add (map snd ls) (history h1) = Some (history h2)"
    "chans (sse_hub h2) ch = map_option (fold offer (map snd ls)) (chans (sse_hub h1) ch)"
    by (auto simp: h1(1) subscribe_def)
  have "rb_entries (history h2) = Some (lastn (rb_capacity (history h)) (es @ map snd ls))"
    using log.adds_total [of "history h" es "map snd ls"] ok h2(2) h1 by (auto simp: sse_ok_def)
  moreover have "map_option chan_buf (chans (sse_hub h2) c) = Some (take 100 (map snd ls))"
    using h2(3) offer_fold [of "make_chan 100" "map snd ls"] by (simp add: h1 subscribe_def make_chan_def)
  ultimately show ?thesis using h2(1) by blast
qed

theorem sse_replay_witness:
  "\<exists>h2. Handles [([0], ''a''), ([0], ''b''), ([0], ''c'')]
       ((NewSSEHandler 2)\<lparr>sse_hub := subscribe 100 0 empty_hub\<rparr>) = Some h2 \<and>
     map_option chan_buf (chans (sse_hub h2) 0) = Some [''a'', ''b'', ''c''] \<and>
     rb_entries (history h2) = Some [''b'', ''c'']"
proof -
  have "Subscribe 0 (NewSSEHandler 2) =
    Some ([], 0, (NewSSEHandler 2)\<lparr>sse_hub := subscribe 100 0 empty_hub\<rparr>)"
    by (simp add: Subscribe_def NewSSEHandler_def newRingBuffer_ok)
  from sse_replay [OF sse_reach_new this, of "[([0], ''a''), ([0], ''b''), ([0], ''c'')]"]
  show ?thesis
    by (simp add: range_order_def subscribe_def empty_hub_def lastn_def NewSSEHandler_def newRingBuffer_def)
qed

end
