(* ===== verification/Web_Server.thy ===== *)
theory Web_Server
  imports Sse_Log Forwarder
begin

text \<open>
  The web interface of the star client: \<^verbatim>\<open>internal/webserver/server.go\<close>, \<open>session.go\<close>, \<open>models.go\<close>
  and \<open>routes.go\<close>. A form is the function \<open>r.FormValue\<close>; parsing of URLs and certificates and the
  outcome of registering with the registar are parameters. A response is a redirect, a page with
  the errors it shows, or an error status; a panic of a handler is \<open>None\<close>.
\<close>

section \<open>models.go\<close>

text \<open>\<open>strconv.Atoi\<close>: an optional sign and decimal digits, in the range of a 64-bit integer.\<close>

definition is_digit :: "char \<Rightarrow> bool" where
  "is_digit c \<longleftrightarrow> 48 \<le> (of_char c :: nat) \<and> (of_char c :: nat) \<le> 57"

definition digits_value :: "string \<Rightarrow> int" where
  "digits_value s = foldl (\<lambda>n c. 10 * n + (int (of_char c) - 48)) 0 s"

definition Atoi :: "string \<Rightarrow> int option" where
  "Atoi s =
     (let neg = (s \<noteq> [] \<and> hd s = CHR ''-'');
          ds = (if s \<noteq> [] \<and> (hd s = CHR ''-'' \<or> hd s = CHR ''+'') then tl s else s);
          n = (if neg then - digits_value ds else digits_value ds)
      in if ds = [] \<or> \<not> list_all is_digit ds \<or> n < - (2 ^ 63) \<or> 2 ^ 63 \<le> n then None else Some n)"

type_synonym form = "string \<Rightarrow> string"

record go_url =
  url_scheme :: string
  url_host :: string

record sharedConfig =
  RegistarURL :: "go_url option"
  Secret :: string
  CACert :: "cert option"
  Port :: int

definition sharedConfig0 :: sharedConfig where
  "sharedConfig0 = \<lparr>RegistarURL = None, Secret = [], CACert = None, Port = 0\<rparr>"

definition invalid_port :: err where "invalid_port = Leaf (Opaque ''invalid port number'')"

text \<open>The check of a port that all three forms make.\<close>

definition form_port :: "string \<Rightarrow> err + int" where
  "form_port portStr =
     (case Atoi portStr of
        None \<Rightarrow> Inl invalid_port
      | Some p \<Rightarrow> if p \<le> 0 \<or> p > 65535 then Inl invalid_port else Inr p)"

datatype upload = MissingFile | UploadError err | UploadRead "err + bytes"

definition shared_cacert :: "(bytes \<Rightarrow> err + cert) \<Rightarrow> upload \<Rightarrow> sharedConfig \<Rightarrow> err list \<times> sharedConfig" where
  "shared_cacert parse file cfg =
     (case file of
        MissingFile \<Rightarrow> ([], cfg)
      | UploadError e \<Rightarrow> ([Wrap ''failed to read CA cert file'' e], cfg)
      | UploadRead (Inl e) \<Rightarrow> ([Wrap ''failed to read CA cert file'' e], cfg)
      | UploadRead (Inr d) \<Rightarrow>
          (case parse d of
             Inl e \<Rightarrow> ([Wrap ''invalid CA cert'' e], cfg\<lparr>CACert := None\<rparr>)
           | Inr c \<Rightarrow> ([], cfg\<lparr>CACert := Some c\<rparr>)))"

definition shared_url :: "(string \<Rightarrow> err + go_url) \<Rightarrow> string \<Rightarrow> sharedConfig \<Rightarrow> err list \<times> sharedConfig" where
  "shared_url parseURL raw cfg =
     (if raw = [] then ([Leaf (Opaque ''URL is required'')], cfg)
      else case parseURL raw of
             Inl e \<Rightarrow> ([Wrap ''invalid URL'' e], cfg)
           | Inr u \<Rightarrow>
               if url_scheme u \<noteq> ''http'' \<and> url_scheme u \<noteq> ''https''
               then ([Leaf (Opaque ''URL must start with http:// or https://'')], cfg)
               else ([], cfg\<lparr>RegistarURL := Some u\<rparr>))"

definition shared_port :: "string \<Rightarrow> sharedConfig \<Rightarrow> err list \<times> sharedConfig" where
  "shared_port portStr cfg =
     (if portStr = [] then ([], cfg)
      else case form_port portStr of Inl e \<Rightarrow> ([e], cfg) | Inr p \<Rightarrow> ([], cfg\<lparr>Port := p\<rparr>))"

definition shared_UnmarshalHTTP ::
  "(bytes \<Rightarrow> err + cert) \<Rightarrow> (string \<Rightarrow> err + go_url) \<Rightarrow> error \<Rightarrow> upload \<Rightarrow> form \<Rightarrow> sharedConfig \<Rightarrow> err list \<times> sharedConfig" where
  "shared_UnmarshalHTTP parse parseURL parseErr file f cfg =
     (case parseErr of
        Some e \<Rightarrow> ([Wrap ''invalid form data'' e], cfg)
      | None \<Rightarrow>
          (let (e1, cfg) = shared_cacert parse file cfg;
               (e2, cfg) = shared_url parseURL (f ''registar-url'') cfg;
               cfg = cfg\<lparr>Secret := f ''secret''\<rparr>;
               (e3, cfg) = shared_port (f ''port'') cfg
           in (e1 @ e2 @ e3, cfg)))"

record hostConfig =
  GamePort :: int
  GameKey :: key

record peerConfig =
  InviteCode :: key
  GameListenPort :: int

text \<open>
  \<open>auth.ParseKey\<close> with its table of upper case letters; \<open>fresh\<close> is the key \<open>NewKey\<close> would draw.
  A panic of the parser is passed on.
\<close>

definition host_UnmarshalHTTP ::
  "(nat \<Rightarrow> nat) \<Rightarrow> key \<Rightarrow> error \<Rightarrow> form \<Rightarrow> (err list \<times> hostConfig) option" where
  "host_UnmarshalHTTP up fresh parseErr f =
     (case parseErr of
        Some e \<Rightarrow> Some ([Wrap ''invalid form data'' e], \<lparr>GamePort = 0, GameKey = zero_key\<rparr>)
      | None \<Rightarrow>
          (let portStr = (if f ''game-port'' = ''custom'' then f ''custom-game-port'' else f ''game-port'');
               (e1, p) = (if portStr = [] then ([Leaf (Opaque ''port is required'')], 0)
                          else case form_port portStr of Inl e \<Rightarrow> ([e], 0) | Inr p \<Rightarrow> ([], p))
           in if f ''game-key'' = [] then Some (e1, \<lparr>GamePort = p, GameKey = fresh\<rparr>)
              else do { r \<leftarrow> ParseKey up (ascii (f ''game-key''));
                        Some (case r of
                                Inl e \<Rightarrow> (e1 @ [Wrap ''invalid game key'' e], \<lparr>GamePort = p, GameKey = zero_key\<rparr>)
                              | Inr k \<Rightarrow> (e1, \<lparr>GamePort = p, GameKey = k\<rparr>)) }))"

definition peer_UnmarshalHTTP :: "(nat \<Rightarrow> nat) \<Rightarrow> error \<Rightarrow> form \<Rightarrow> (err list \<times> peerConfig) option" where
  "peer_UnmarshalHTTP up parseErr f =
     (case parseErr of
        Some e \<Rightarrow> Some ([Wrap ''invalid form data'' e], \<lparr>InviteCode = zero_key, GameListenPort = 0\<rparr>)
      | None \<Rightarrow>
          do { (e1, k) \<leftarrow>
                 (if f ''invite-code'' = [] then Some ([Leaf (Opaque ''invite code is required'')], zero_key)
                  else map_option (\<lambda>r. case r of Inl e \<Rightarrow> ([Wrap ''invalid invite code'' e], zero_key) | Inr k \<Rightarrow> ([], k))
                    (ParseKey up (ascii (f ''invite-code''))));
               (let (e2, p) = (if f ''game-listen-port'' = [] then ([], 0)
                               else case form_port (f ''game-listen-port'') of Inl e \<Rightarrow> ([e], 0) | Inr p \<Rightarrow> ([], p))
                in Some (e1 @ e2, \<lparr>InviteCode = k, GameListenPort = p\<rparr>)) })"

section \<open>session.go and the state of the server\<close>

datatype session_kind = HostSession | PeerSession

record activeSession =
  s_id :: nat
  s_kind :: session_kind
  s_key :: key              \<comment> \<open>invite code of a host\<close>
  s_addr :: string          \<comment> \<open>address shown to the user\<close>

record web =
  w_session :: "activeSession option"
  w_fresh :: nat
  w_open :: "nat set"       \<comment> \<open>sessions whose \<open>done\<close> is open: their goroutines run\<close>
  w_stopping :: "nat set"   \<comment> \<open>taken by a stop handler that has yet to close \<open>done\<close>\<close>
  w_shared :: sharedConfig
  w_cache :: "string \<rightharpoonup> form"
  w_log :: sse

definition web_New :: web where
  "web_New =
     \<lparr>w_session = None, w_fresh = 0, w_open = {}, w_stopping = {}, w_shared = sharedConfig0,
      w_cache = Map.empty, w_log = NewSSEHandler 100\<rparr>"

datatype web_response = Redirect string | Page string "err list" | Status int

definition session_stop :: "nat \<Rightarrow> web \<Rightarrow> web" where
  "session_stop i w = w\<lparr>w_open := w_open w - {i}\<rparr>"

text \<open>
  The three places that stop a session, \<open>Stop\<close>, \<open>handleHostStop\<close> and \<open>handlePeerStop\<close>, take it
  under the mutex and stop it afterwards.
\<close>

definition take_session :: "web \<Rightarrow> activeSession option \<times> web" where
  "take_session w =
     (w_session w,
      case w_session w of
        None \<Rightarrow> w
      | Some x \<Rightarrow> w\<lparr>w_session := None, w_stopping := insert (s_id x) (w_stopping w)\<rparr>)"

definition finish_stop :: "nat \<Rightarrow> nat list \<Rightarrow> web \<Rightarrow> web option" where
  "finish_stop i ord w =
     map_option (\<lambda>l. (session_stop i w)\<lparr>w_stopping := w_stopping w - {i}, w_log := l\<rparr>) (Reset ord (w_log w))"

definition session_route :: "session_kind \<Rightarrow> string" where
  "session_route k = (case k of HostSession \<Rightarrow> ''/host/running'' | PeerSession \<Rightarrow> ''/peer/connected'')"

definition redirectToSession :: "web \<Rightarrow> web_response option" where
  "redirectToSession w = map_option (\<lambda>x. Redirect (session_route (s_kind x))) (w_session w)"

text \<open>
  \<open>redirectIfSession\<close> reads the session twice, the second time without the mutex: \<open>w\<close> is the
  state at the first read and \<open>w'\<close> that at the second.
\<close>

definition redirectIfSession :: "web \<Rightarrow> web \<Rightarrow> web_response option option" where
  "redirectIfSession w w' =
     (if w_session w = None then Some None else map_option Some (redirectToSession w'))"

section \<open>Handlers\<close>

definition handleSetup ::
  "(bytes \<Rightarrow> err + cert) \<Rightarrow> (string \<Rightarrow> err + go_url) \<Rightarrow> error \<Rightarrow> upload \<Rightarrow> form \<Rightarrow> web \<Rightarrow> web_response \<times> web" where
  "handleSetup parse parseURL parseErr file f w =
     (case shared_UnmarshalHTTP parse parseURL parseErr file f sharedConfig0 of
        (e # es, _) \<Rightarrow> (Page ''index.html'' (e # es), w)
      | ([], cfg) \<Rightarrow>
          (Redirect (if f ''mode'' = ''host'' then ''/host'' else if f ''mode'' = ''peer'' then ''/peer'' else ''/''),
           w\<lparr>w_cache := (w_cache w)(''index'' \<mapsto> f), w_shared := cfg\<rparr>))"

text \<open>
  \<open>handleHostStart\<close> holds the mutex throughout. \<open>reg\<close> is what registering with the registar under
  a token would give; it dereferences the URL of the registar. The session gets the next number.
\<close>

definition handleHostStart ::
  "(nat \<Rightarrow> nat) \<Rightarrow> key \<Rightarrow> error \<Rightarrow> (go_url \<Rightarrow> bytes \<Rightarrow> err + unit) \<Rightarrow> (int \<Rightarrow> string) \<Rightarrow> form \<Rightarrow> web \<Rightarrow>
   (web_response \<times> web) option" where
  "handleHostStart up fresh parseErr reg itoa f w =
     (if w_session w \<noteq> None then map_option (\<lambda>r. (r, w)) (redirectToSession w)
      else do {
        (errs, cfg) \<leftarrow> host_UnmarshalHTTP up fresh parseErr f;
        if errs \<noteq> [] then Some (Page ''host.html'' errs, w)
        else do {
          base \<leftarrow> RegistarURL (w_shared w);
          Some (let w = w\<lparr>w_cache := (w_cache w)(''host'' \<mapsto> f)\<rparr> in
            case reg base (NewToken (GameKey cfg) (ascii (Secret (w_shared w)))) of
              Inl e \<Rightarrow> (Page ''host.html'' [Wrap ''register host'' e], w)
            | Inr _ \<Rightarrow>
                (Redirect ''/host/running'',
                 w\<lparr>w_session := Some \<lparr>s_id = w_fresh w, s_kind = HostSession, s_key = GameKey cfg,
                     s_addr = ''127.0.0.1:'' @ itoa (GamePort cfg)\<rparr>,
                   w_fresh := Suc (w_fresh w), w_open := insert (w_fresh w) (w_open w)\<rparr>)) } })"

definition handlePeerStart ::
  "(nat \<Rightarrow> nat) \<Rightarrow> error \<Rightarrow> (go_url \<Rightarrow> bytes \<Rightarrow> err + string) \<Rightarrow> form \<Rightarrow> web \<Rightarrow> (web_response \<times> web) option" where
  "handlePeerStart up parseErr joinHost f w =
     (if w_session w \<noteq> None then map_option (\<lambda>r. (r, w)) (redirectToSession w)
      else do {
        (errs, cfg) \<leftarrow> peer_UnmarshalHTTP up parseErr f;
        if errs \<noteq> [] then Some (Page ''peer.html'' errs, w)
        else do {
          base \<leftarrow> RegistarURL (w_shared w);
          Some (let w = w\<lparr>w_cache := (w_cache w)(''peer'' \<mapsto> f)\<rparr> in
            case joinHost base (NewToken (InviteCode cfg) (ascii (Secret (w_shared w)))) of
              Inl e \<Rightarrow> (Page ''peer.html'' [Wrap ''register peer'' e], w)
            | Inr addr \<Rightarrow>
                (Redirect ''/peer/connected'',
                 w\<lparr>w_session := Some \<lparr>s_id = w_fresh w, s_kind = PeerSession, s_key = zero_key, s_addr = addr\<rparr>,
                   w_fresh := Suc (w_fresh w), w_open := insert (w_fresh w) (w_open w)\<rparr>)) } })"

text \<open>The page of a running session; \<open>kind\<close> tells the two handlers apart.\<close>

definition handleRunning :: "session_kind \<Rightarrow> web \<Rightarrow> web_response" where
  "handleRunning kind w =
     (case w_session w of
        None \<Rightarrow> Redirect ''/''
      | Some x \<Rightarrow> if s_kind x \<noteq> kind then Redirect ''/''
                  else Page (case kind of HostSession \<Rightarrow> ''host-running.html'' | PeerSession \<Rightarrow> ''peer-connected.html'') [])"

text \<open>
  The forms: the redirect to a running session, or the page; \<open>w\<close> and \<open>w'\<close> as above.
\<close>

definition handleForm :: "string \<Rightarrow> web \<Rightarrow> web \<Rightarrow> web_response option" where
  "handleForm page w w' =
     map_option (\<lambda>r. case r of Some x \<Rightarrow> x | None \<Rightarrow> Page page []) (redirectIfSession w w')"

text \<open>What \<open>handleLogs\<close> writes for its history, and the channel it follows.\<close>

definition sse_event :: "string \<Rightarrow> bytes" where
  "sse_event line = ascii ''data: '' @ ascii line @ [10, 10]"

definition handleLogs_start :: "nat \<Rightarrow> web \<Rightarrow> (bytes list \<times> web) option" where
  "handleLogs_start c w =
     map_option (\<lambda>(es, _, l). (map sse_event es, w\<lparr>w_log := l\<rparr>)) (Subscribe c (w_log w))"

section \<open>Routes\<close>

datatype web_route = RIndex | RSetup | RHostForm | RHostStart | RHostRunning | RHostStop
  | RPeerForm | RPeerStart | RPeerConnected | RPeerStop | RLogs | RStatic

definition web_routes :: "(string \<times> string \<times> web_route) list" where
  "web_routes =
     [(''GET'', ''/'', RIndex), (''POST'', ''/setup'', RSetup), (''GET'', ''/host'', RHostForm),
      (''POST'', ''/host'', RHostStart), (''GET'', ''/host/running'', RHostRunning),
      (''POST'', ''/host/stop'', RHostStop), (''GET'', ''/peer'', RPeerForm), (''POST'', ''/peer'', RPeerStart),
      (''GET'', ''/peer/connected'', RPeerConnected), (''POST'', ''/peer/stop'', RPeerStop), (''GET'', ''/logs'', RLogs)]"

text \<open>A \<open>GET\<close> pattern also takes \<open>HEAD\<close>; a known path with another method is 405, any other 404.\<close>

definition web_route :: "string \<Rightarrow> string \<Rightarrow> int + web_route" where
  "web_route meth p =
     (let m = (if meth = ''HEAD'' then ''GET'' else meth) in
      if take 8 p = ''/static/'' then (if m = ''GET'' then Inr RStatic else Inl StatusMethodNotAllowed)
      else case List.find (\<lambda>(m', p', _). m' = m \<and> p' = p) web_routes of
             Some (_, _, r) \<Rightarrow> Inr r
           | None \<Rightarrow> if list_ex (\<lambda>(_, p', _). p' = p) web_routes then Inl StatusMethodNotAllowed
                     else Inl StatusNotFound)"

section \<open>Steps\<close>

text \<open>One step per critical section; what the log handler does in between is a step of its own.\<close>

inductive web_step :: "web \<Rightarrow> web \<Rightarrow> bool" where
  setup_form: "handleSetup parse parseURL parseErr file f w = (r, w') \<Longrightarrow> web_step w w'"
| host_start: "handleHostStart up fresh parseErr reg itoa f w = Some (r, w') \<Longrightarrow> web_step w w'"
| peer_start: "handlePeerStart up parseErr joinHost f w = Some (r, w') \<Longrightarrow> web_step w w'"
| take_stop: "take_session w = (x, w') \<Longrightarrow> web_step w w'"
| finish: "i \<in> w_stopping w \<Longrightarrow> range_order ord (sse_hub (w_log w)) \<Longrightarrow> finish_stop i ord w = Some w' \<Longrightarrow> web_step w w'"
| log_step: "sse_step (w_log w) l \<Longrightarrow> web_step w (w\<lparr>w_log := l\<rparr>)"

text \<open>A configuration that passed the checks of the form.\<close>

definition valid_shared :: "sharedConfig \<Rightarrow> bool" where
  "valid_shared cfg \<longleftrightarrow>
     (\<exists>u. RegistarURL cfg = Some u \<and> (url_scheme u = ''http'' \<or> url_scheme u = ''https'')) \<and>
     0 \<le> Port cfg \<and> Port cfg \<le> 65535"

lemma form_port_range: "form_port s = Inr p \<Longrightarrow> 0 < p \<and> p \<le> 65535"
  by (auto simp: form_port_def split: option.splits if_splits)

lemma shared_parts:
  "RegistarURL (snd (shared_cacert parse file cfg)) = RegistarURL cfg"
  "Port (snd (shared_cacert parse file cfg)) = Port cfg"
  "Port (snd (shared_url parseURL raw cfg)) = Port cfg"
  "RegistarURL (snd (shared_port portStr cfg)) = RegistarURL cfg"
  by (auto simp: shared_cacert_def shared_url_def shared_port_def split: upload.splits sum.splits)

lemma shared_url_ok:
  "fst (shared_url parseURL raw cfg) = [] \<Longrightarrow>
   \<exists>u. RegistarURL (snd (shared_url parseURL raw cfg)) = Some u \<and> (url_scheme u = ''http'' \<or> url_scheme u = ''https'')"
  by (auto simp: shared_url_def split: sum.splits if_splits)

lemma shared_port_ok:
  "0 \<le> Port cfg \<Longrightarrow> Port cfg \<le> 65535 \<Longrightarrow>
   0 \<le> Port (snd (shared_port portStr cfg)) \<and> Port (snd (shared_port portStr cfg)) \<le> 65535"
  using form_port_range by (fastforce simp: shared_port_def split: sum.splits)

lemma shared_UnmarshalHTTP_ok:
  assumes "shared_UnmarshalHTTP parse parseURL parseErr file f sharedConfig0 = ([], cfg)"
  shows "valid_shared cfg"
proof -
  let ?c1 = "snd (shared_cacert parse file sharedConfig0)"
  let ?c2 = "snd (shared_url parseURL (f ''registar-url'') ?c1)"
  let ?c3 = "?c2\<lparr>Secret := f ''secret''\<rparr>"
  have cfg: "cfg = snd (shared_port (f ''port'') ?c3)" and "fst (shared_url parseURL (f ''registar-url'') ?c1) = []"
    using assms by (auto simp: shared_UnmarshalHTTP_def case_prod_beta Let_def split: option.splits)
  then have "\<exists>u. RegistarURL cfg = Some u \<and> (url_scheme u = ''http'' \<or> url_scheme u = ''https'')"
    using shared_url_ok by (simp add: shared_parts)
  moreover have "Port ?c3 = 0" by (simp add: shared_parts sharedConfig0_def)
  ultimately show ?thesis using shared_port_ok [of ?c3] by (simp add: valid_shared_def cfg)
qed

definition session_ids :: "web \<Rightarrow> nat set" where
  "session_ids w = (case w_session w of Some x \<Rightarrow> {s_id x} | None \<Rightarrow> {})"

definition web_inv :: "web \<Rightarrow> bool" where
  [inv_defs]: "web_inv w \<longleftrightarrow>
     w_open w = session_ids w \<union> w_stopping w \<and> session_ids w \<inter> w_stopping w = {} \<and>
     (\<forall>i \<in> w_open w. i < w_fresh w) \<and>
     (w_shared w = sharedConfig0 \<or> valid_shared (w_shared w)) \<and> sse_ok (w_log w)"

text \<open>A start that goes through opens one session in a server that has none.\<close>

lemma start_session_inv:
  assumes "web_inv w" and "w_session w = None" and "s_id x = w_fresh w"
  shows "web_inv (w\<lparr>w_cache := c, w_session := Some x, w_fresh := Suc (w_fresh w),
    w_open := insert (w_fresh w) (w_open w)\<rparr>)"
  using assms by (auto simp: web_inv_def session_ids_def less_Suc_eq)

lemma web_inv_cache: "web_inv w \<Longrightarrow> web_inv (w\<lparr>w_cache := c\<rparr>)"
  by (simp add: web_inv_def session_ids_def)

lemma handleHostStart_inv:
  assumes "web_inv w" and "handleHostStart up fresh parseErr reg itoa f w = Some (r, w')"
  shows "web_inv w'"
proof (cases "w_session w")
  case None
  then obtain errs cfg where u: "host_UnmarshalHTTP up fresh parseErr f = Some (errs, cfg)"
    using assms(2) by (auto simp: handleHostStart_def bind_eq_Some_conv)
  show ?thesis
  proof (cases errs)
    case Nil
    then obtain base where base: "RegistarURL (w_shared w) = Some base"
      using assms(2) None u by (auto simp: handleHostStart_def bind_eq_Some_conv)
    show ?thesis
      by (cases "reg base (NewToken (GameKey cfg) (ascii (Secret (w_shared w))))")
        (use assms None u Nil base start_session_inv [OF assms(1) None] web_inv_cache [OF assms(1)]
          in \<open>auto simp: handleHostStart_def Let_def\<close>)
  qed (use assms None u in \<open>auto simp: handleHostStart_def\<close>)
qed (use assms in \<open>auto simp: handleHostStart_def\<close>)

lemma handlePeerStart_inv:
  assumes "web_inv w" and "handlePeerStart up parseErr joinHost f w = Some (r, w')"
  shows "web_inv w'"
proof (cases "w_session w")
  case None
  then obtain errs cfg where u: "peer_UnmarshalHTTP up parseErr f = Some (errs, cfg)"
    using assms(2) by (auto simp: handlePeerStart_def bind_eq_Some_conv)
  show ?thesis
  proof (cases errs)
    case Nil
    then obtain base where base: "RegistarURL (w_shared w) = Some base"
      using assms(2) None u by (auto simp: handlePeerStart_def bind_eq_Some_conv)
    show ?thesis
      by (cases "joinHost base (NewToken (InviteCode cfg) (ascii (Secret (w_shared w))))")
        (use assms None u Nil base start_session_inv [OF assms(1) None] web_inv_cache [OF assms(1)]
          in \<open>auto simp: handlePeerStart_def Let_def\<close>)
  qed (use assms None u in \<open>auto simp: handlePeerStart_def\<close>)
qed (use assms in \<open>auto simp: handlePeerStart_def\<close>)

lemma handleSetup_inv:
  assumes "web_inv w" and "handleSetup parse parseURL parseErr file f w = (r, w')"
  shows "web_inv w'"
proof (cases "shared_UnmarshalHTTP parse parseURL parseErr file f sharedConfig0")
  case (Pair errs cfg)
  then show ?thesis
  proof (cases errs)
    case Nil
    then have "valid_shared cfg" using Pair shared_UnmarshalHTTP_ok by blast
    then show ?thesis using assms Pair Nil by (auto simp: handleSetup_def web_inv_def session_ids_def)
  qed (use assms in \<open>auto simp: handleSetup_def\<close>)
qed

lemma finish_stop_ok:
  assumes "web_inv w" and "i \<in> w_stopping w" and "range_order ord (sse_hub (w_log w))"
  shows "\<exists>w'. finish_stop i ord w = Some w' \<and> web_inv w'"
proof -
  obtain l where "Reset ord (w_log w) = Some l" "sse_ok l"
    using Reset_ok [of "w_log w" ord] assms by (auto simp: web_inv_def)
  then show ?thesis using assms
    by (auto simp: finish_stop_def session_stop_def web_inv_def session_ids_def split: option.splits)
qed

interpretation web: inductive_invariant "\<lambda>w. w = web_New" web_step web_inv
proof unfold_locales
  fix w assume "w = web_New"
  then show "web_inv w"
    by (simp add: web_New_def web_inv_def session_ids_def sse_ok_def NewSSEHandler_def newRingBuffer_ok)
next
  fix w w' assume inv: "web_inv w" and "web_step w w'"
  from this(2) show "web_inv w'"
  proof cases
    case (take_stop x)
    then show ?thesis using inv
      by (auto simp: take_session_def web_inv_def session_ids_def split: option.splits)
  next
    case (finish i ord)
    then show ?thesis using finish_stop_ok [OF inv] by force
  next
    case (log_step l)
    then show ?thesis using inv sse.inv_step by (auto simp: web_inv_def session_ids_def)
  qed (use inv in \<open>auto intro: handleSetup_inv handleHostStart_inv handlePeerStart_inv\<close>)
qed

abbreviation web_reach :: "web \<Rightarrow> bool" where
  "web_reach \<equiv> reach (\<lambda>w. w = web_New) web_step"

section \<open>Properties\<close>


lemma web_reach_New: "web_reach web_New"
  by (rule reach_init) simp


text \<open>
  C37. The configuration the forms leave is valid, with an \<open>http\<close> or \<open>https\<close> URL and a port in range,
  or it is still the empty one; in the latter case, when nobody has posted the set-up form, a valid
  host form makes the handler dereference the missing URL and panic.
\<close>

theorem web_config_checked:
  assumes "web_reach w" and "w_session w = None" and "host_UnmarshalHTTP up fresh parseErr f = Some ([], cfg)"
  shows "(w_shared w = sharedConfig0 \<or> valid_shared (w_shared w)) \<and>
    (handleHostStart up fresh parseErr reg itoa f w = None \<longleftrightarrow> w_shared w = sharedConfig0)"
proof -
  have shared: "w_shared w = sharedConfig0 \<or> valid_shared (w_shared w)"
    using web.inv_reach [OF assms(1)] by (simp add: web_inv_def)
  then have "RegistarURL (w_shared w) = None \<longleftrightarrow> w_shared w = sharedConfig0"
    by (auto simp: valid_shared_def sharedConfig0_def)
  with shared show ?thesis
    using assms(2,3) by (cases "RegistarURL (w_shared w)") (auto simp: handleHostStart_def)
qed

definition sample_form :: form where
  "sample_form x = (if x = ''game-port'' then ''7777'' else [])"

theorem web_config_checked_witness:
  "handleHostStart id zero_key None (\<lambda>_ _. Inr ()) (\<lambda>_. []) sample_form web_New = None"
proof -
  have "host_UnmarshalHTTP id zero_key None sample_form = Some ([], \<lparr>GamePort = 7777, GameKey = zero_key\<rparr>)"
    by (simp add: host_UnmarshalHTTP_def sample_form_def form_port_def Atoi_def digits_value_def is_digit_def)
  from web_config_checked [OF web_reach_New _ this] show ?thesis by (simp add: web_New_def)
qed

text \<open>
  A form page reads the session a second time without the mutex: it panics exactly when a stop
  handler took the session between the two reads.
\<close>

lemma redirect_race: "handleForm page w w' = None \<longleftrightarrow> w_session w \<noteq> None \<and> w_session w' = None"
  by (auto simp: handleForm_def redirectIfSession_def redirectToSession_def)

lemma redirect_race_take:
  assumes "w_session w = Some x"
  shows "handleForm page w (snd (take_session w)) = None"
  using assms by (simp add: redirect_race take_session_def)

end
