(* ===== verification/Web_Pages.thy ===== *)
theory Web_Pages
  imports Web_Server Registar_Models
begin

text \<open>
  The web interface as a whole: templates and rendering, the form cache, the stop handlers, the
  log stream and the dispatch of a request to its handler, in
  \<^verbatim>\<open>internal/webserver/server.go\<close> and \<open>models.go\<close>. A template is the function from its data to what it
  writes before it ends or fails.
\<close>

section \<open>Pages\<close>

type_synonym GameEntry = "string \<times> int"

definition DefaultGames :: "GameEntry list" where
  "DefaultGames =
     [(''Stardew Valley'', 24642), (''Terraria'', 7777), (''Factorio'', 34197), (''Minecraft (Bedrock)'', 19132),
      (''Valheim'', 2456)]"

datatype page_data =
    IndexData "err list" "form option"
  | HostFormData "GameEntry list" "err list" "form option"
  | HostRunningData key string
  | PeerFormData "err list" "form option"
  | PeerConnectedData string

type_synonym tmpl = "page_data \<Rightarrow> bytes \<times> bool"   \<comment> \<open>the output and whether it failed\<close>

definition page_names :: "string list" where
  "page_names = [''index.html'', ''host.html'', ''host-running.html'', ''peer.html'', ''peer-connected.html'', ''error.html'']"

text \<open>\<open>parseTemplates\<close>: the base first, then each page on a copy of it.\<close>

fun parse_pages :: "(string \<Rightarrow> err + tmpl) \<Rightarrow> string list \<Rightarrow> (string \<rightharpoonup> tmpl) \<Rightarrow> err + (string \<rightharpoonup> tmpl)" where
  "parse_pages parseFS [] ts = Inr ts"
| "parse_pages parseFS (p # ps) ts =
     (case parseFS (''templates/'' @ p) of
        Inl e \<Rightarrow> Inl (Wrap (''parse template '' @ p) e)
      | Inr t \<Rightarrow> parse_pages parseFS ps (ts(p \<mapsto> t)))"

definition parseTemplates :: "(string \<Rightarrow> err + tmpl) \<Rightarrow> err + (string \<rightharpoonup> tmpl)" where
  "parseTemplates parseFS =
     (case parseFS ''templates/base.html'' of
        Inl e \<Rightarrow> Inl e
      | Inr _ \<Rightarrow> parse_pages parseFS page_names Map.empty)"

definition render :: "(string \<rightharpoonup> tmpl) \<Rightarrow> string \<Rightarrow> page_data \<Rightarrow> rw_call list" where
  "render ts nm dat =
     (case ts nm of
        None \<Rightarrow> http_Error (ascii ''template not found'') StatusInternalServerError
      | Some t \<Rightarrow>
          (let (out, failed) = t dat in
           [SetHeader ''Content-Type'' ''text/html; charset=utf-8'', Write out] @
           (if failed then http_Error (ascii ''internal error'') StatusInternalServerError else [])))"

definition cacheForm :: "string \<Rightarrow> form \<Rightarrow> web \<Rightarrow> web" where
  "cacheForm k f w = w\<lparr>w_cache := (w_cache w)(k \<mapsto> f)\<rparr>"

definition cachedForm :: "string \<Rightarrow> web \<Rightarrow> form option" where
  "cachedForm k w = w_cache w k"

text \<open>The data of the pages that handlers render without an error.\<close>

definition form_page :: "web_route \<Rightarrow> web \<Rightarrow> (string \<times> page_data) option" where
  "form_page rt w =
     (case rt of
        RIndex \<Rightarrow> Some (''index.html'', IndexData [] (cachedForm ''index'' w))
      | RHostForm \<Rightarrow> Some (''host.html'', HostFormData DefaultGames [] (cachedForm ''host'' w))
      | RPeerForm \<Rightarrow> Some (''peer.html'', PeerFormData [] (cachedForm ''peer'' w))
      | _ \<Rightarrow> None)"

definition running_page :: "activeSession \<Rightarrow> string \<times> page_data" where
  "running_page x =
     (case s_kind x of
        HostSession \<Rightarrow> (''host-running.html'', HostRunningData (s_key x) (s_addr x))
      | PeerSession \<Rightarrow> (''peer-connected.html'', PeerConnectedData (s_addr x)))"

section \<open>models.go\<close>

record web_tls =
  wt_roots :: "cert list option"
  wt_NextProtos :: "string list"

definition shared_tlsConfig :: "sharedConfig \<Rightarrow> web_tls" where
  "shared_tlsConfig cfg =
     (case CACert cfg of
        None \<Rightarrow> \<lparr>wt_roots = None, wt_NextProtos = [''h3'']\<rparr>
      | Some c \<Rightarrow> \<lparr>wt_roots = Some [c], wt_NextProtos = [''h3'']\<rparr>)"

definition parseCACert :: "pem_api \<Rightarrow> (bytes \<Rightarrow> err + cert) \<Rightarrow> bytes \<Rightarrow> err + cert" where
  "parseCACert api parse dat =
     (case pem_Decode api dat of
        None \<Rightarrow> Inl (Leaf (Opaque ''invalid CA certificate''))
      | Some (ty, raw) \<Rightarrow>
          if ty \<noteq> ''CERTIFICATE'' then Inl (Leaf (Opaque ''invalid CA certificate''))
          else (case parse raw of Inl e \<Rightarrow> Inl (Wrap ''parse CA certificate'' e) | Inr c \<Rightarrow> Inr c))"

section \<open>Stopping and logs\<close>

text \<open>The handlers \<open>handleHostStop\<close> and \<open>handlePeerStop\<close>; \<open>Stop\<close> does the same without a response and then waits.\<close>

definition web_Stop :: "nat list \<Rightarrow> web \<Rightarrow> web option" where
  "web_Stop ord w =
     (case take_session w of
        (None, w') \<Rightarrow> Some w'
      | (Some x, w') \<Rightarrow> finish_stop (s_id x) ord w')"

definition handleStop :: "nat list \<Rightarrow> web \<Rightarrow> (web_response \<times> web) option" where
  "handleStop ord w = map_option (\<lambda>w'. (Redirect ''/'', w')) (web_Stop ord w)"

text \<open>
  The loop of \<open>handleLogs\<close>: each turn receives a line, finds the channel closed or the request
  done; the writes are flushed one by one.
\<close>

datatype log_event = Line string | ChannelClosed | RequestDone

fun logs_loop :: "log_event list \<Rightarrow> bytes list" where
  "logs_loop [] = []"
| "logs_loop (Line l # evs) = sse_event l # logs_loop evs"
| "logs_loop (_ # evs) = []"

definition handleLogs :: "bool \<Rightarrow> nat \<Rightarrow> log_event list \<Rightarrow> web \<Rightarrow> (rw_call list \<times> web) option" where
  "handleLogs flusher c evs w =
     (let hs = [SetHeader ''Content-Type'' ''text/event-stream'', SetHeader ''Cache-Control'' ''no-cache'',
                SetHeader ''Connection'' ''keep-alive''] in
      if \<not> flusher then Some (hs @ http_Error (ascii ''streaming not supported'') StatusInternalServerError, w)
      else do {
        (old, w) \<leftarrow> handleLogs_start c w;
        l \<leftarrow> Unsubscribe c (w_log w);
        Some (hs @ map Write (old @ logs_loop evs), w\<lparr>w_log := l\<rparr>) })"

section \<open>One request\<close>

record web_env =
  we_upper :: "nat \<Rightarrow> nat"
  we_fresh :: key
  we_form :: form
  we_parseErr :: error
  we_register :: "go_url \<Rightarrow> bytes \<Rightarrow> err + unit"
  we_join :: "go_url \<Rightarrow> bytes \<Rightarrow> err + string"
  we_itoa :: "int \<Rightarrow> string"
  we_parseCert :: "bytes \<Rightarrow> err + cert"
  we_parseURL :: "string \<Rightarrow> err + go_url"
  we_file :: upload
  we_order :: "nat list"
  we_chan :: nat

text \<open>The handlers of \<open>NewRouter\<close> when no other request runs in between.\<close>

definition web_handle :: "web_env \<Rightarrow> web_route \<Rightarrow> web \<Rightarrow> (web_response \<times> web) option" where
  "web_handle env rt w =
     (case rt of
        RIndex \<Rightarrow> map_option (\<lambda>r. (r, w)) (handleForm ''index.html'' w w)
      | RSetup \<Rightarrow>
          (case redirectIfSession w w of
             None \<Rightarrow> None
           | Some (Some r) \<Rightarrow> Some (r, w)
           | Some None \<Rightarrow> Some (handleSetup (we_parseCert env) (we_parseURL env) (we_parseErr env) (we_file env) (we_form env) w))
      | RHostForm \<Rightarrow> map_option (\<lambda>r. (r, w)) (handleForm ''host.html'' w w)
      | RHostStart \<Rightarrow> handleHostStart (we_upper env) (we_fresh env) (we_parseErr env) (we_register env) (we_itoa env) (we_form env) w
      | RHostRunning \<Rightarrow> Some (handleRunning HostSession w, w)
      | RHostStop \<Rightarrow> handleStop (we_order env) w
      | RPeerForm \<Rightarrow> map_option (\<lambda>r. (r, w)) (handleForm ''peer.html'' w w)
      | RPeerStart \<Rightarrow> handlePeerStart (we_upper env) (we_parseErr env) (we_join env) (we_form env) w
      | RPeerConnected \<Rightarrow> Some (handleRunning PeerSession w, w)
      | RPeerStop \<Rightarrow> handleStop (we_order env) w
      | RLogs \<Rightarrow> map_option (\<lambda>(_, w'). (Status StatusOK, w')) (handleLogs_start (we_chan env) w)
      | RStatic \<Rightarrow> Some (Status StatusOK, w))"

section \<open>Templates\<close>

lemma parse_pages_dom:
  "parse_pages parseFS ps ts = Inr ts' \<Longrightarrow> dom ts' = dom ts \<union> set ps"
  by (induction ps arbitrary: ts) (auto split: sum.splits)

lemma parseTemplates_dom: "parseTemplates parseFS = Inr ts \<Longrightarrow> dom ts = set page_names"
  by (auto simp: parseTemplates_def dest!: parse_pages_dom split: sum.splits)

text \<open>A page of the list is found, and its response is 200 with whatever the template wrote.\<close>

lemma render_found:
  assumes "parseTemplates parseFS = Inr ts" and "p \<in> set page_names"
  shows "resp_status (std_respond (render ts p dat)) = 200 \<and>
    (\<exists>t rest. ts p = Some t \<and> resp_body (std_respond (render ts p dat)) = fst (t dat) @ rest)"
proof -
  obtain t where "ts p = Some t" using parseTemplates_dom [OF assms(1)] assms(2) by auto
  then show ?thesis
    by (auto simp: render_def case_prod_beta Let_def std_respond_def std_run_def std_writer0_def http_Error_def status_defs)
qed

section \<open>Requests are answered\<close>

definition good_response :: "web_response \<Rightarrow> bool" where
  "good_response r =
     (case r of Redirect p \<Rightarrow> (\<exists>rt. web_route ''GET'' p = Inr rt) | Page p _ \<Rightarrow> p \<in> set page_names | Status st \<Rightarrow> st = 200)"

lemma good_redirects:
  "good_response (Redirect ''/'')" "good_response (Redirect ''/host'')" "good_response (Redirect ''/peer'')"
  "good_response (Redirect (session_route k))"
  by (cases k; simp add: good_response_def web_route_def web_routes_def session_route_def)+

lemma good_pages:
  "good_response (Page ''index.html'' es)" "good_response (Page ''host.html'' es)" "good_response (Page ''peer.html'' es)"
  "good_response (Page ''host-running.html'' es)" "good_response (Page ''peer-connected.html'' es)"
  by (simp_all add: good_response_def page_names_def)

lemma good_Status: "good_response (Status StatusOK)"
  by (simp add: good_response_def StatusOK_def)

lemmas good_intros = good_redirects good_pages good_Status

lemma redirect_now:
  "redirectIfSession w w = Some (map_option (\<lambda>x. Redirect (session_route (s_kind x))) (w_session w))"
  by (cases "w_session w") (simp_all add: redirectIfSession_def redirectToSession_def)

lemma handleForm_good: "good_response (Page p []) \<Longrightarrow> \<exists>r. handleForm p w w = Some r \<and> good_response r"
  by (cases "w_session w") (simp_all add: handleForm_def redirect_now good_intros)

lemma handleRunning_good: "good_response (handleRunning k w)"
  by (cases k; cases "w_session w") (simp_all add: handleRunning_def good_intros)

lemma handleSetup_good: "good_response (fst (handleSetup parse parseURL parseErr file f w))"
proof (cases "shared_UnmarshalHTTP parse parseURL parseErr file f sharedConfig0")
  case (Pair errs cfg)
  then show ?thesis by (cases errs) (simp_all add: handleSetup_def good_intros)
qed

lemma host_form_parses: "\<exists>errs cfg. host_UnmarshalHTTP up fresh parseErr f = Some (errs, cfg)"
  using key_parse_never_panics [of up "ascii (f ''game-key'')"]
  by (cases parseErr; cases "f ''game-key'' = []")
    (auto simp: host_UnmarshalHTTP_def Let_def case_prod_beta split: sum.splits)

lemma peer_form_parses: "\<exists>errs cfg. peer_UnmarshalHTTP up parseErr f = Some (errs, cfg)"
  using key_parse_never_panics [of up "ascii (f ''invite-code'')"]
  by (cases parseErr; cases "f ''invite-code'' = []")
    (auto simp: peer_UnmarshalHTTP_def Let_def case_prod_beta)

lemma handleHostStart_good:
  assumes "valid_shared (w_shared w)"
  shows "\<exists>r w'. handleHostStart up fresh parseErr reg itoa f w = Some (r, w') \<and> good_response r"
proof (cases "w_session w")
  case None
  obtain errs cfg where u: "host_UnmarshalHTTP up fresh parseErr f = Some (errs, cfg)"
    using host_form_parses by blast
  obtain u where "RegistarURL (w_shared w) = Some u" using assms by (auto simp: valid_shared_def)
  then show ?thesis using None u good_redirects(4) [of HostSession]
    by (cases "reg u (NewToken (GameKey cfg) (ascii (Secret (w_shared w))))")
      (simp_all add: handleHostStart_def good_pages session_route_def)
qed (simp add: handleHostStart_def redirectToSession_def good_intros)

lemma handlePeerStart_good:
  assumes "valid_shared (w_shared w)"
  shows "\<exists>r w'. handlePeerStart up parseErr jn f w = Some (r, w') \<and> good_response r"
proof (cases "w_session w")
  case None
  obtain errs cfg where u: "peer_UnmarshalHTTP up parseErr f = Some (errs, cfg)"
    using peer_form_parses by blast
  obtain u where "RegistarURL (w_shared w) = Some u" using assms by (auto simp: valid_shared_def)
  then show ?thesis using None u good_redirects(4) [of PeerSession]
    by (cases "jn u (NewToken (InviteCode cfg) (ascii (Secret (w_shared w))))")
      (simp_all add: handlePeerStart_def good_pages session_route_def)
qed (simp add: handlePeerStart_def redirectToSession_def good_intros)

lemma web_Stop_steps:
  assumes "web_reach w" and "range_order ord (sse_hub (w_log w))"
  shows "\<exists>w'. web_Stop ord w = Some w' \<and> web_reach w' \<and> w_session w' = None"
proof (cases "w_session w")
  case None
  then show ?thesis using assms(1) by (simp add: web_Stop_def take_session_def)
next
  case (Some x)
  let ?t = "snd (take_session w)"
  have step: "web_step w ?t" by (rule take_stop) (rule prod.collapse [symmetric])
  then have t: "web_reach ?t" using assms(1) by (rule reach_step [rotated])
  have i: "s_id x \<in> w_stopping ?t" "range_order ord (sse_hub (w_log ?t))" "w_session ?t = None"
    using Some assms(2) by (simp_all add: take_session_def)
  from finish_stop_ok [OF web.inv_reach [OF t] i(1,2)] obtain w' where w': "finish_stop (s_id x) ord ?t = Some w'" by blast
  moreover have "web_reach w'" by (rule reach_step [OF t finish [OF i(1,2) w']])
  moreover have "w_session w' = None"
    using w' i(3) by (auto simp: finish_stop_def session_stop_def)
  ultimately show ?thesis using Some by (simp add: web_Stop_def take_session_def)
qed

lemma handleLogs_start_steps:
  assumes "web_reach w" and "chans (sse_hub (w_log w)) c = None"
  shows "\<exists>es w'. handleLogs_start c w = Some (es, w') \<and> web_reach w'"
proof -
  have "sse_ok (w_log w)" using web.inv_reach [OF assms(1)] by (simp add: web_inv_def)
  from Subscribe_ok [OF this, of c] obtain es l where l: "Subscribe c (w_log w) = Some (es, c, l)" by blast
  have "web_step w (w\<lparr>w_log := l\<rparr>)" by (rule log_step [OF sub [OF assms(2) l]])
  then have "web_reach (w\<lparr>w_log := l\<rparr>)" using assms(1) by (rule reach_step [rotated])
  then show ?thesis using l by (simp add: handleLogs_start_def)
qed


text \<open>A server whose set-up form was posted.\<close>

definition setup_url :: go_url where "setup_url = \<lparr>url_scheme = ''https'', url_host = ''star.example''\<rparr>"

definition some_env :: web_env where
  "some_env = \<lparr>we_upper = id, we_fresh = zero_key,
     we_form = (\<lambda>x. if x = ''registar-url'' then ''https://star.example'' else []), we_parseErr = None,
     we_register = (\<lambda>_ _. Inr ()), we_join = (\<lambda>_ _. Inr []), we_itoa = (\<lambda>_. []),
     we_parseCert = (\<lambda>_. Inl (Leaf (Opaque []))), we_parseURL = (\<lambda>_. Inr setup_url), we_file = MissingFile,
     we_order = [], we_chan = 0\<rparr>"

definition set_up :: web where
  "set_up = web_New\<lparr>w_cache := [''index'' \<mapsto> we_form some_env], w_shared := sharedConfig0\<lparr>RegistarURL := Some setup_url\<rparr>\<rparr>"

lemma reach_set_up: "web_reach set_up"
proof -
  have "handleSetup (we_parseCert some_env) (we_parseURL some_env) None MissingFile (we_form some_env) web_New =
      (Redirect ''/'', set_up)"
    by (simp add: handleSetup_def shared_UnmarshalHTTP_def shared_cacert_def shared_url_def shared_port_def
        some_env_def setup_url_def set_up_def web_New_def sharedConfig0_def)
  then show ?thesis by (rule reach_step [OF web_reach_New setup_form])
qed


section \<open>The log stream\<close>

text \<open>The browser gets the lines up to the point where the channel is closed or the request ends.\<close>

fun is_Line :: "log_event \<Rightarrow> bool" where
  "is_Line (Line _) = True" | "is_Line _ = False"

fun line_of :: "log_event \<Rightarrow> string" where
  "line_of (Line l) = l" | "line_of _ = []"

lemma logs_loop_lines: "logs_loop evs = map (sse_event \<circ> line_of) (takeWhile is_Line evs)"
  by (induction evs rule: logs_loop.induct) simp_all

lemma handleLogs_output:
  assumes "web_reach w"
  shows "\<exists>es l. rb_entries (history (w_log w)) = Some es \<and>
    handleLogs True c evs w =
      Some ([SetHeader ''Content-Type'' ''text/event-stream'', SetHeader ''Cache-Control'' ''no-cache'',
             SetHeader ''Connection'' ''keep-alive''] @
            map (Write \<circ> sse_event) (es @ map line_of (takeWhile is_Line evs)), w\<lparr>w_log := l\<rparr>)"
proof -
  have "sse_ok (w_log w)" using web.inv_reach [OF assms] by (simp add: web_inv_def)
  define l where "l = (w_log w)\<lparr>sse_hub := subscribe 100 c (sse_hub (w_log w))\<rparr>"
  from Subscribe_ok [OF \<open>sse_ok (w_log w)\<close>, of c] obtain es where
    es: "rb_entries (history (w_log w)) = Some es" and sub: "Subscribe c (w_log w) = Some (es, c, l)" and "sse_ok l"
    unfolding l_def by blast
  from Unsubscribe_ok [OF this(3), of c] obtain l' where "Unsubscribe c l = Some l'" by blast
  with es sub show ?thesis
    by (intro exI [of _ es] exI [of _ l']) (simp add: handleLogs_def handleLogs_start_def logs_loop_lines comp_def)
qed

end
