(* ===== verification/Peer_Setup.thy ===== *)
theory Peer_Setup
  imports Registar_Client P2P_Connector
begin

text \<open>
  The parts put together: the registar runs \<open>peer_setup\<close> over the control streams of a host and a
  peer, whose agents call the callbacks of \<^verbatim>\<open>client.go\<close> (\<open>newControlAgent\<close>), which run the
  connectors of \<^verbatim>\<open>p2p/connector.go\<close> against each other or open a relay stream.
\<close>

section \<open>The agent of a client\<close>

text \<open>
  What is particular to one client: its configuration, whether its channel has room when each of
  the two callbacks delivers, and what its relay request meets.
\<close>

record client =
  disableP2P :: bool
  p2p_room :: "unit + err"
  relay_call :: "string \<Rightarrow> relay_env"
  relay_room :: "unit + err"

definition newControlAgent :: "(err \<Rightarrow> bytes) \<Rightarrow> client \<Rightarrow> (ConnectCommand \<Rightarrow> (err + bool)) \<Rightarrow> agent" where
  "newControlAgent errText cl connect =
     OnConnectViaRelay (\<lambda>sid. map_option errText (fst (onConnectViaRelay (relay_call cl sid) (relay_room cl))))
       (OnConnectTo (\<lambda>cmd. map_sum errText id (connect cmd)) NewAgent)"

text \<open>
  The control stream of a client whose connector's \<open>Connect\<close> gives \<open>connected\<close>. A panic of the
  callback ends the client: reading its responses fails with some error \<open>lost\<close>, now and later.
\<close>

definition client_stream :: "(err \<Rightarrow> bytes) \<Rightarrow> err \<Rightarrow> client \<Rightarrow> error + nat \<Rightarrow> ctl" where
  "client_stream errText lost cl connected r =
     (case onConnectTo (disableP2P cl) connected (p2p_room cl) of
        None \<Rightarrow> ReadFails lost
      | Some (res, _) \<Rightarrow> Answer (serve_one (newControlAgent errText cl (\<lambda>_. res)) r))"

text \<open>The connections the callbacks deliver to the channel.\<close>

definition p2p_conn :: "client \<Rightarrow> error + nat \<Rightarrow> dconn option" where
  "p2p_conn cl connected = Option.bind (onConnectTo (disableP2P cl) connected (p2p_room cl)) snd"

definition relay_conn :: "client \<Rightarrow> error + nat \<Rightarrow> string \<Rightarrow> dconn option" where
  "relay_conn cl connected sid =
     (case onConnectTo (disableP2P cl) connected (p2p_room cl) of
        None \<Rightarrow> None
      | Some _ \<Rightarrow> snd (onConnectViaRelay (relay_call cl sid) (relay_room cl)))"

text \<open>A direct attempt that counts as failed: switched off, or no answer from the other end.\<close>

definition p2p_timed_out :: "client \<Rightarrow> error + nat \<Rightarrow> bool" where
  "p2p_timed_out cl connected \<longleftrightarrow> onConnectTo (disableP2P cl) connected (p2p_room cl) = Some (Inr False, None)"

section \<open>What the registar learns from a client\<close>

lemma ConnectTo_newControlAgent:
  "ConnectTo (\<lambda>r. Answer (serve_one (newControlAgent errText cl connect) r)) x y =
     connect_outcome (map_sum errText id (connect \<lparr>PublicAddress = x, PrivateAddress = y\<rparr>))"
  using ConnectTo_agent [of "\<lambda>cmd. map_sum errText id (connect cmd)"
      "\<lambda>sid. map_option errText (fst (onConnectViaRelay (relay_call cl sid) (relay_room cl)))" x y]
  by (simp add: agent_stream_swap newControlAgent_def)

lemma ConnectTo_client:
  "ConnectTo (client_stream errText lost cl connected) x y =
     (case onConnectTo (disableP2P cl) connected (p2p_room cl) of
        None \<Rightarrow> errorf ''read response'' lost
      | Some (res, _) \<Rightarrow> connect_outcome (map_sum errText id res))"
  using ConnectTo_newControlAgent [of errText cl]
  by (auto simp: ConnectTo_def client_stream_def split: option.split)

lemma onConnectTo_cases:
  obtains (panic) "onConnectTo d r room = None"
  | (error) e where "onConnectTo d r room = Some (Inl e, None)"
  | (timeout) "onConnectTo d r room = Some (Inr False, None)"
  | (delivered) c where "onConnectTo d r room = Some (Inr True, Some (P2PConn c))" and "r = Inr c"
proof (cases r)
  case (Inl e)
  then show thesis
    using panic error timeout
    by (cases d; cases e; cases "errorsAs e is_IdleTimeoutError") (auto simp: onConnectTo_def)
next
  case (Inr c)
  then show thesis using error timeout delivered by (cases d; cases room) (auto simp: onConnectTo_def)
qed

lemma ConnectTo_client_ok:
  "ConnectTo (client_stream errText lost cl r) x y = None \<longleftrightarrow> p2p_conn cl r \<noteq> None"
  by (rule onConnectTo_cases [of "disableP2P cl" r "p2p_room cl"])
    (auto simp: ConnectTo_client p2p_conn_def connect_outcome_simps errorf_def)

lemma ConnectTo_client_timeout:
  "\<not> errorsIs (Some lost) ErrConnectFailed \<Longrightarrow>
     errorsIs (ConnectTo (client_stream errText lost cl r) x y) ErrConnectFailed \<longleftrightarrow> p2p_timed_out cl r"
  by (rule onConnectTo_cases [of "disableP2P cl" r "p2p_room cl"])
    (auto simp: ConnectTo_client p2p_timed_out_def connect_outcome_simps)

lemma ConnectViaRelay_client:
  assumes "sid \<noteq> []" and "CHR ''/'' \<notin> set sid"
  shows "ConnectViaRelay (client_stream errText lost cl r) sid = None \<longleftrightarrow> relay_conn cl r sid \<noteq> None"
proof (cases "onConnectTo (disableP2P cl) r (p2p_room cl)")
  case None
  then show ?thesis by (simp add: ConnectViaRelay_def client_stream_def relay_conn_def errorf_def)
next
  case (Some p)
  let ?g = "\<lambda>sid. map_option errText (fst (onConnectViaRelay (relay_call cl sid) (relay_room cl)))"
  have "ConnectViaRelay (client_stream errText lost cl r) sid = relay_outcome (?g sid)"
    using ConnectViaRelay_agent [OF assms, of "\<lambda>cmd. map_sum errText id (fst p)" ?g] Some
    by (simp add: agent_stream_swap newControlAgent_def ConnectViaRelay_def client_stream_def case_prod_beta)
  then show ?thesis using Some
    by (auto simp: relay_outcome_None relay_conn_def onConnectViaRelay_def errorf_def
        split: option.splits sum.splits)
qed

lemma peer_setup_clients:
  fixes h p :: client and hres pres :: "error + nat" and ha pa :: AddrPair and errText :: "err \<Rightarrow> bytes"
  assumes "rnd \<noteq> []" and "\<not> errorsIs (Some lost) ErrConnectFailed"
  defines "out \<equiv> peer_setup (client_stream errText lost h hres) ha (client_stream errText lost p pres) pa rnd"
    and "sid \<equiv> newSessionID rnd"
  shows "out = P2PSetup \<longleftrightarrow> p2p_conn h hres \<noteq> None \<and> p2p_conn p pres \<noteq> None"
    and "out = RelaySetup \<longleftrightarrow> (p2p_timed_out h hres \<or> p2p_timed_out p pres) \<and>
      relay_conn h hres sid \<noteq> None \<and> relay_conn p pres sid \<noteq> None"
proof -
  let ?i = "initP2P (client_stream errText lost h hres) ha (client_stream errText lost p pres) pa"
  let ?r = "initRelay (client_stream errText lost h hres) (client_stream errText lost p pres) sid"
  have i: "?i = None \<longleftrightarrow> p2p_conn h hres \<noteq> None \<and> p2p_conn p pres \<noteq> None"
      "errorsIs ?i ErrConnectFailed \<longleftrightarrow> p2p_timed_out h hres \<or> p2p_timed_out p pres"
    using assms(2)
    by (simp_all add: initP2P_def p2p_result_None p2p_result_Is ConnectTo_client_ok ConnectTo_client_timeout)
  have r: "?r = None \<longleftrightarrow> relay_conn h hres sid \<noteq> None \<and> relay_conn p pres sid \<noteq> None"
    using newSessionID_segment [OF assms(1)]
    by (simp add: initRelay_def joinErrors_None ConnectViaRelay_client sid_def)
  show "out = P2PSetup \<longleftrightarrow> p2p_conn h hres \<noteq> None \<and> p2p_conn p pres \<noteq> None"
    unfolding i(1) [symmetric] out_def by (auto simp: peer_setup_def split: option.split)
  show "out = RelaySetup \<longleftrightarrow> (p2p_timed_out h hres \<or> p2p_timed_out p pres) \<and>
      relay_conn h hres sid \<noteq> None \<and> relay_conn p pres sid \<noteq> None"
    unfolding i(2) [symmetric] r [symmetric] out_def
    by (auto simp: peer_setup_def sid_def split: option.split)
qed

lemma relay_conn_RelayConn: "relay_conn cl r sid = Some c \<Longrightarrow> \<exists>d. c = RelayConn d"
  by (auto simp: relay_conn_def onConnectViaRelay_def split: option.splits sum.splits if_splits)

lemma p2p_conn_chosen:
  assumes "Connect_result st = Some r" and "p2p_conn cl r = Some c"
  shows "\<exists>d. c = P2PConn d \<and> main st = MChosen d"
  using assms
  by (auto simp: p2p_conn_def onConnectTo_def Connect_result_def
      split: if_splits sum.splits option.splits main.splits bind_splits)

section \<open>Both ends hold the same connection\<close>


text \<open>
  Two clients whose connectors agreed on a connection, and the same two with the attempt switched
  off at the peer.
\<close>

definition relay_ok :: relay_env where
  "relay_ok = \<lparr>rl_newreq = None, rl_open = Inr 3, rl_header = None, rl_response = Inr (StatusOK, [])\<rparr>"

definition some_client :: "bool \<Rightarrow> client" where
  "some_client d = \<lparr>disableP2P = d, p2p_room = Inl (), relay_call = (\<lambda>_. relay_ok), relay_room = Inl ()\<rparr>"

definition agreed_returned :: net where
  "agreed_returned = agreed\<lparr>ends := settled \<circ> ends agreed\<rparr>"

lemma reach_agreed_returned: "p2p_reach agreed_returned"
proof -
  have "cancelled (ends agreed x)" for x by (cases x) (simp_all add: agreed_def)
  then show ?thesis unfolding agreed_returned_def by (rule reach_settled [OF reach_agreed])
qed

lemma agreed_returned_ends:
  "cid (ends agreed_returned False) = con_id (NewConnector [10] (connectorOpts [] 0))"
  "cid (ends agreed_returned True) = con_id (NewConnector [11] (connectorOpts [] 0))"
  "Connect_result (ends agreed_returned x) = Some (Inr 0)"
  by (cases x; simp add: agreed_returned_def agreed_def NewConnector_client hex_EncodeToString_def
      hex_byte_def hex_digit_def Connect_result_def)+


end
