(* ===== verification/Admin_Panel.thy ===== *)
theory Admin_Panel
  imports Window Subscribers Registar_Server
begin

text \<open>
  \<^verbatim>\<open>internal/registar/admin/admin.go\<close>: the admin page of the registar. It follows the server's
  callbacks to know the active hosts, samples the relayed bytes into a ring of buckets, streams
  events to the browser and guards all of it with a password. A \<open>float64\<close> is a type variable:
  the conversion and division the scraper does on it are the parameter \<open>fdiv\<close>. JSON encoding,
  the page template and the text of an address are parameters too.
\<close>

section \<open>State\<close>

record 'f bwBucket =
  bw_T :: int
  bw_BPS :: 'f

record 'f admin =
  adm_secret :: bytes
  activeHosts :: "key \<rightharpoonup> AddrPair"
  adm_hub :: "bytes hub"
  bwRing :: "'f bwBucket list"
  bwInterval :: int      \<comment> \<open>nanoseconds\<close>
  bwHead :: nat
  bwCount :: nat
  bwLast :: u64
  adm_stopped :: bool

definition bwWindow :: int where
  "bwWindow = 24 * 60 * 60 * 1000000000"

text \<open>\<open>int(bwWindow / scrapeInterval)\<close>: division truncates and panics on zero.\<close>

definition bw_size :: "int \<Rightarrow> int option" where
  "bw_size interval =
     (if interval = 0 then None
      else Some (if interval < 0 then - (bwWindow div (- interval)) else bwWindow div interval))"

text \<open>
  A negative length panics in \<open>make\<close>, and the ticker of the scraper panics on an interval
  that is not positive. \<open>zero\<close> is the \<open>float64\<close> 0.
\<close>

definition NewAdmin :: "'f \<Rightarrow> bytes \<Rightarrow> int \<Rightarrow> 'f admin option" where
  "NewAdmin zero secret interval =
     do { size \<leftarrow> bw_size interval;
          if size < 0 \<or> interval \<le> 0 then None
          else Some
            \<lparr>adm_secret = secret, activeHosts = Map.empty, adm_hub = empty_hub,
             bwRing = replicate (nat size) \<lparr>bw_T = 0, bw_BPS = zero\<rparr>, bwInterval = interval,
             bwHead = 0, bwCount = 0, bwLast = 0, adm_stopped = False\<rparr> }"

text \<open>\<open>Stop\<close>: a second call closes a closed channel.\<close>

definition Admin_Stop :: "'f admin \<Rightarrow> 'f admin option" where
  "Admin_Stop a = (if adm_stopped a then None else Some (a\<lparr>adm_stopped := True\<rparr>))"

section \<open>Bandwidth\<close>

text \<open>One tick of \<open>runBandwidthScraper\<close> at time \<open>t\<close>, with \<open>current\<close> bytes relayed so far.\<close>

definition bw_push :: "'f bwBucket \<Rightarrow> 'f admin \<Rightarrow> 'f admin option" where
  "bw_push b a =
     (let size = length (bwRing a)
      in do { ring \<leftarrow> go_store (bwRing a) (bwHead a) b;
              head \<leftarrow> go_mod (bwHead a + 1) size;
              Some (a\<lparr>bwRing := ring, bwHead := head,
                bwCount := (if bwCount a < size then bwCount a + 1 else bwCount a)\<rparr>) })"

definition scrape :: "(u64 \<Rightarrow> int \<Rightarrow> 'f) \<Rightarrow> int \<Rightarrow> u64 \<Rightarrow> 'f admin \<Rightarrow> 'f admin option" where
  "scrape fdiv t current a =
     (let delta = current - bwLast a
      in bw_push \<lparr>bw_T = t, bw_BPS = fdiv delta (bwInterval a)\<rparr> (a\<lparr>bwLast := current\<rparr>))"

text \<open>
  \<open>handleBandwidth\<close> copies count and head under the lock; the slice it copies shares the
  array of the ring, so element \<open>i\<close> of the answer is read from the ring as it is when the loop
  gets there.
\<close>

definition bw_read :: "nat \<Rightarrow> nat \<Rightarrow> 'f bwBucket list \<Rightarrow> nat \<Rightarrow> 'f bwBucket option" where
  "bw_read count head ring i =
     do { start \<leftarrow> go_mod (head + length ring - count) (length ring);
          j \<leftarrow> go_mod (start + i) (length ring);
          go_index ring j }"

fun bw_loop :: "nat \<Rightarrow> nat \<Rightarrow> nat \<Rightarrow> 'f bwBucket list list \<Rightarrow> 'f bwBucket list option" where
  "bw_loop count head i [] = Some []"
| "bw_loop count head i (ring # rings) =
     do { b \<leftarrow> bw_read count head ring i;
          bs \<leftarrow> bw_loop count head (Suc i) rings;
          Some (b # bs) }"

text \<open>The buckets of an answer, when no tick falls into the loop; an empty ring panics.\<close>

definition bw_buckets :: "'f admin \<Rightarrow> 'f bwBucket list option" where
  "bw_buckets a =
     (if bwRing a = [] then None
      else bw_loop (bwCount a) (bwHead a) 0 (replicate (bwCount a) (bwRing a)))"

definition handleBandwidth :: "('f bwBucket list \<Rightarrow> bytes) \<Rightarrow> 'f admin \<Rightarrow> rw_call list option" where
  "handleBandwidth json a =
     map_option (\<lambda>bs. [SetHeader ''Content-Type'' ''application/json'', Write (json bs)]) (bw_buckets a)"

section \<open>Events\<close>

definition broadcast :: "bytes \<Rightarrow> nat list \<Rightarrow> 'f admin \<Rightarrow> 'f admin option" where
  "broadcast msg ord a = map_option (\<lambda>hub. a\<lparr>adm_hub := hub\<rparr>) (send_subs msg ord (adm_hub a))"

definition connected_text :: "(addr_port \<Rightarrow> bytes) \<Rightarrow> string \<Rightarrow> key \<Rightarrow> AddrPair \<Rightarrow> bytes" where
  "connected_text addrText who key addrs =
     ascii who @ ascii '' connected key='' @ Key_String key @ ascii '' public='' @
     addrText (Public addrs) @ ascii '' private='' @ addrText (Private addrs)"

definition HostConnected :: "(addr_port \<Rightarrow> bytes) \<Rightarrow> key \<Rightarrow> AddrPair \<Rightarrow> nat list \<Rightarrow> 'f admin \<Rightarrow> 'f admin option" where
  "HostConnected addrText key addrs ord a =
     broadcast (connected_text addrText ''host'' key addrs) ord
       (a\<lparr>activeHosts := (activeHosts a)(key \<mapsto> addrs)\<rparr>)"

definition HostDisconnected :: "key \<Rightarrow> nat list \<Rightarrow> 'f admin \<Rightarrow> 'f admin option" where
  "HostDisconnected key ord a =
     broadcast (ascii ''host disconnected key='' @ Key_String key) ord
       (a\<lparr>activeHosts := (activeHosts a)(key := None)\<rparr>)"

definition PeerConnected :: "(addr_port \<Rightarrow> bytes) \<Rightarrow> key \<Rightarrow> AddrPair \<Rightarrow> nat list \<Rightarrow> 'f admin \<Rightarrow> 'f admin option" where
  "PeerConnected addrText key addrs ord a =
     broadcast (connected_text addrText ''peer'' key addrs) ord a"

text \<open>
  \<open>handleEvents\<close>: the subscription after a successful flush, what one received message writes,
  and the deferred clean-up. A failed flush answers 500 and subscribes nothing.
\<close>

definition events_header :: "rw_call list" where
  "events_header =
     [SetHeader ''Content-Type'' ''text/event-stream'', SetHeader ''Cache-Control'' ''no-cache'',
      SetHeader ''Connection'' ''keep-alive'']"

definition handleEvents_start :: "error \<Rightarrow> nat \<Rightarrow> 'f admin \<Rightarrow> rw_call list \<times> 'f admin" where
  "handleEvents_start flushErr c a =
     (case flushErr of
        Some _ \<Rightarrow> (events_header @ http_Error (ascii ''failed to flush response'') StatusInternalServerError, a)
      | None \<Rightarrow> (events_header, a\<lparr>adm_hub := subscribe 10 c (adm_hub a)\<rparr>))"

text \<open>
  One turn of the loop: which case of the \<open>select\<close> is taken when several are ready is not
  specified, so the turn takes it as an argument.
\<close>

datatype ev_case = EvMsg | EvGone | EvStopped

definition handleEvents_turn ::
  "ev_case \<Rightarrow> nat \<Rightarrow> 'f admin \<Rightarrow> (rw_call list \<times> bool \<times> 'f admin) option" where
  "handleEvents_turn sel c a =
     (case sel of
        EvMsg \<Rightarrow>
          (case receive_sub c (adm_hub a) of
             Some (Msg m, hub) \<Rightarrow>
               Some ([Write (ascii ''data: '' @ m @ [10, 10])], False, a\<lparr>adm_hub := hub\<rparr>)
           | Some (ChanClosed, hub) \<Rightarrow> Some ([], True, a)
           | _ \<Rightarrow> None)
      | EvGone \<Rightarrow> Some ([], True, a)
      | EvStopped \<Rightarrow> if adm_stopped a then Some ([], True, a) else None)"

definition handleEvents_leave :: "nat \<Rightarrow> 'f admin \<Rightarrow> 'f admin option" where
  "handleEvents_leave c a = map_option (\<lambda>hub. a\<lparr>adm_hub := hub\<rparr>) (drop_sub c (adm_hub a))"

section \<open>Pages\<close>

record hostInfo =
  hi_Key :: bytes
  hi_Public :: bytes
  hi_Private :: bytes

record statsResponse = server_stats +
  ActiveHosts :: "hostInfo list"

definition hostInfo_of :: "(addr_port \<Rightarrow> bytes) \<Rightarrow> key \<Rightarrow> AddrPair \<Rightarrow> hostInfo" where
  "hostInfo_of addrText key addrs =
     \<lparr>hi_Key = Key_String key, hi_Public = addrText (Public addrs), hi_Private = addrText (Private addrs)\<rparr>"

text \<open>\<open>ord\<close> is the order in which the loop meets the keys of the map.\<close>

definition stats_hosts :: "(addr_port \<Rightarrow> bytes) \<Rightarrow> key list \<Rightarrow> 'f admin \<Rightarrow> hostInfo list" where
  "stats_hosts addrText ord a =
     map (\<lambda>k. hostInfo_of addrText k (the (activeHosts a k))) (filter (\<lambda>k. k \<in> dom (activeHosts a)) ord)"

definition handleStats ::
  "(addr_port \<Rightarrow> bytes) \<Rightarrow> (statsResponse \<Rightarrow> bytes) \<Rightarrow> key list \<Rightarrow> server_stats \<Rightarrow> 'f admin \<Rightarrow> rw_call list" where
  "handleStats addrText json ord stats a =
     [SetHeader ''Content-Type'' ''application/json'',
      Write (json (server_stats.extend stats (statsResponse.fields (stats_hosts addrText ord a))))]"

text \<open>The template writes as it runs: what it wrote before an error stays written.\<close>

definition handleIndex :: "bytes \<times> bytes option \<Rightarrow> rw_call list" where
  "handleIndex tmpl =
     Write (fst tmpl) #
     (case snd tmpl of None \<Rightarrow> [] | Some msg \<Rightarrow> http_Error msg StatusInternalServerError)"

section \<open>Password\<close>

definition std_alphabet :: bytes where
  "std_alphabet = ascii ''ABCDEFGHIJKLMNOPQRSTUVWXYZabcdefghijklmnopqrstuvwxyz0123456789+/''"

definition ascii_lower :: "u8 \<Rightarrow> u8" where
  "ascii_lower b = (if 65 \<le> b \<and> b \<le> 90 then b + 32 else b)"

text \<open>\<open>strings.Cut(s, ":")\<close>.\<close>

fun cut_colon :: "bytes \<Rightarrow> (bytes \<times> bytes) option" where
  "cut_colon [] = None"
| "cut_colon (b # bs) =
     (if b = 58 then Some ([], bs) else map_option (\<lambda>(u, p). (b # u, p)) (cut_colon bs))"

text \<open>\<open>Request.BasicAuth\<close>.\<close>

definition BasicAuth :: "http_request \<Rightarrow> (bytes \<times> bytes) option" where
  "BasicAuth r =
     (let auth = ascii (http_header r ''Authorization'')
      in if length auth < 6 \<or> map ascii_lower (take 6 auth) \<noteq> ascii ''basic '' then None
         else case b64_decode std_alphabet (drop 6 auth) of
                Inl _ \<Rightarrow> None
              | Inr c \<Rightarrow> cut_colon c)"

definition unauthorized :: "rw_call list" where
  "unauthorized =
     SetHeader ''WWW-Authenticate'' ''Basic realm=\"admin\"'' #
     http_Error (ascii ''Unauthorized'') StatusUnauthorized"

text \<open>The result of a page is left open: some pages change the state.\<close>

definition basicAuth :: "bytes \<Rightarrow> (rw_call list \<Rightarrow> 'x) \<Rightarrow> (http_request \<Rightarrow> 'x) \<Rightarrow> http_request \<Rightarrow> 'x" where
  "basicAuth secret refuse next r =
     (if secret = [] then next r
      else case BasicAuth r of
             None \<Rightarrow> refuse unauthorized
           | Some (_, password) \<Rightarrow>
               if password \<noteq> secret then refuse unauthorized else next r)"

datatype admin_page = IndexPage | EventsPage | StatsPage | BandwidthPage

text \<open>
  \<open>AdminRoutes\<close>: the pattern \<open>GET /\<close> takes every path without a pattern of its own, and \<open>GET\<close>
  also admits \<open>HEAD\<close>. \<open>refuse\<close> makes a result of the calls of an error response.
\<close>

definition AdminRoutes ::
  "bytes \<Rightarrow> (rw_call list \<Rightarrow> 'x) \<Rightarrow> (admin_page \<Rightarrow> http_request \<Rightarrow> 'x) \<Rightarrow> http_request \<Rightarrow> 'x" where
  "AdminRoutes secret refuse page r =
     (if http_method r \<noteq> ''GET'' \<and> http_method r \<noteq> ''HEAD''
      then refuse (SetHeader ''Allow'' ''GET, HEAD'' #
        http_Error (ascii ''Method Not Allowed'') StatusMethodNotAllowed)
      else basicAuth secret refuse
        (page (if url_path r = ''/events'' then EventsPage
               else if url_path r = ''/stats'' then StatsPage
               else if url_path r = ''/bandwidth'' then BandwidthPage
               else IndexPage)) r)"

section \<open>The ring of buckets is a window on the samples\<close>

definition bw_ok :: "'f admin \<Rightarrow> bool" where
  [inv_defs]: "bw_ok a \<longleftrightarrow> bwHead a < length (bwRing a) \<and> bwCount a \<le> length (bwRing a)"

lemma bw_read_view:
  assumes "ring \<noteq> []" and "count \<le> length ring"
  shows "bw_read count head ring i = Some (ring ! ((ring_start (length ring) head count + i) mod length ring))"
  using assms by (simp add: bw_read_def go_simps ring_start_def)

lemma bw_loop_view:
  assumes "ring \<noteq> []" and "count \<le> length ring"
  shows "bw_loop count head i (replicate n ring) =
    Some (map (\<lambda>j. ring ! ((ring_start (length ring) head count + j) mod length ring)) [i..<i + n])"
proof (induction n arbitrary: i)
  case (Suc n)
  then show ?case
    using bw_read_view [OF assms] by (simp add: upt_conv_Cons del: upt_Suc)
qed simp

lemma bw_loop_ring_view:
  assumes "ring \<noteq> []" and "count \<le> length ring"
  shows "bw_loop count head 0 (replicate count ring) = Some (ring_view ring head count)"
  using bw_loop_view [OF assms, of head 0 count] by (simp add: ring_view_def)

lemma bw_buckets_view: "bw_ok a \<Longrightarrow> bw_buckets a = Some (ring_view (bwRing a) (bwHead a) (bwCount a))"
  by (auto simp: bw_ok_def bw_buckets_def bw_loop_ring_view)

lemma bw_push_ok:
  assumes "bw_ok a"
  shows "bw_push b a = Some (a\<lparr>bwRing := (bwRing a)[bwHead a := b], bwHead := Suc (bwHead a) mod length (bwRing a),
    bwCount := ring_count (length (bwRing a)) (bwCount a)\<rparr>)"
proof -
  have "length (bwRing a) \<noteq> 0" using assms by (auto simp: bw_ok_def)
  then show ?thesis using assms
    by (auto simp: bw_ok_def bw_push_def go_simps ring_count_def simp del: length_0_conv)
qed

interpretation bw: window bw_push bw_buckets "\<lambda>a. length (bwRing a)" bw_ok
proof unfold_locales
  fix a :: "'f admin" assume "bw_ok a"
  then show "\<exists>es. bw_buckets a = Some es \<and> length es \<le> length (bwRing a)"
    by (simp add: bw_buckets_view bw_ok_def)
next
  fix a :: "'f admin" and es b assume ok: "bw_ok a" and es: "bw_buckets a = Some es"
  let ?a = "a\<lparr>bwRing := (bwRing a)[bwHead a := b], bwHead := Suc (bwHead a) mod length (bwRing a),
    bwCount := ring_count (length (bwRing a)) (bwCount a)\<rparr>"
  have "0 < length (bwRing a)" using ok by (auto simp: bw_ok_def)
  then have ok': "bw_ok ?a" using ok by (auto simp: bw_ok_def ring_count_def)
  moreover have "bw_buckets ?a = Some (lastn (length (bwRing a)) (es @ [b]))"
    using ring_view_add [of "bwHead a" "bwRing a" "bwCount a" b] ok es
    by (simp add: bw_buckets_view [OF ok'] bw_buckets_view [OF ok] bw_ok_def)
  ultimately show "\<exists>t. bw_push b a = Some t \<and> bw_ok t \<and> length (bwRing t) = length (bwRing a) \<and>
      bw_buckets t = Some (lastn (length (bwRing a)) (es @ [b]))"
    by (simp add: bw_push_ok [OF ok])
qed

text \<open>A run of ticks, and the buckets its samples stand for.\<close>

fun scrapes :: "(u64 \<Rightarrow> int \<Rightarrow> 'f) \<Rightarrow> (int \<times> u64) list \<Rightarrow> 'f admin \<Rightarrow> 'f admin option" where
  "scrapes fdiv [] a = Some a"
| "scrapes fdiv ((t, current) # ss) a = Option.bind (scrape fdiv t current a) (scrapes fdiv ss)"

fun sample_buckets :: "(u64 \<Rightarrow> int \<Rightarrow> 'f) \<Rightarrow> int \<Rightarrow> u64 \<Rightarrow> (int \<times> u64) list \<Rightarrow> 'f bwBucket list" where
  "sample_buckets fdiv interval prev [] = []"
| "sample_buckets fdiv interval prev ((t, current) # ss) =
     \<lparr>bw_T = t, bw_BPS = fdiv (current - prev) interval\<rparr> # sample_buckets fdiv interval current ss"

lemma bw_ok_last [simp]: "bw_ok (a\<lparr>bwLast := l\<rparr>) = bw_ok a"
  by (simp add: bw_ok_def)

lemma bw_buckets_last [simp]: "bw_buckets (a\<lparr>bwLast := l\<rparr>) = bw_buckets a"
  by (simp add: bw_buckets_def)

lemma scrape_ok:
  assumes "bw_ok a" and "bw_buckets a = Some es"
  shows "\<exists>a'. scrape fdiv t current a = Some a' \<and> bw_ok a' \<and> length (bwRing a') = length (bwRing a) \<and>
    bwInterval a' = bwInterval a \<and> bwLast a' = current \<and>
    bw_buckets a' = Some (lastn (length (bwRing a))
      (es @ [\<lparr>bw_T = t, bw_BPS = fdiv (current - bwLast a) (bwInterval a)\<rparr>]))"
proof -
  let ?a = "a\<lparr>bwLast := current\<rparr>"
  let ?b = "\<lparr>bw_T = t, bw_BPS = fdiv (current - bwLast a) (bwInterval a)\<rparr>"
  have "bw_ok ?a" "bw_buckets ?a = Some es" using assms by simp_all
  from bw.add_total [OF this, of ?b] obtain a' where a': "bw_push ?b ?a = Some a'" "bw_ok a'"
    "length (bwRing a') = length (bwRing ?a)" "bw_buckets a' = Some (lastn (length (bwRing ?a)) (es @ [?b]))"
    by blast
  have "bwInterval a' = bwInterval a" "bwLast a' = current"
    using a'(1) bw_push_ok [OF \<open>bw_ok ?a\<close>, of ?b] by auto
  with a' show ?thesis by (simp add: scrape_def)
qed

lemma scrapes_ok:
  "bw_ok a \<Longrightarrow> bw_buckets a = Some es \<Longrightarrow>
   \<exists>a'. scrapes fdiv ss a = Some a' \<and> bw_ok a' \<and>
     bw_buckets a' = Some (lastn (length (bwRing a)) (es @ sample_buckets fdiv (bwInterval a) (bwLast a) ss))"
proof (induction ss arbitrary: a es)
  case Nil
  then show ?case using bw.entries_total [of a] by simp
next
  case (Cons s ss)
  obtain t current where s: "s = (t, current)" by (cases s)
  from scrape_ok [OF Cons.prems, of fdiv t current] obtain a1 where
    a1: "scrape fdiv t current a = Some a1" "bw_ok a1" "length (bwRing a1) = length (bwRing a)"
      "bwInterval a1 = bwInterval a" "bwLast a1 = current"
      "bw_buckets a1 = Some (lastn (length (bwRing a))
        (es @ [\<lparr>bw_T = t, bw_BPS = fdiv (current - bwLast a) (bwInterval a)\<rparr>]))"
    by blast
  from Cons.IH [OF a1(2,6)] show ?case by (auto simp: s a1 lastn_lastn_append)
qed

lemma NewAdmin_window:
  assumes "0 < interval" and "interval \<le> bwWindow"
  shows "\<exists>a. NewAdmin zero secret interval = Some a \<and> bw_ok a \<and> bw_buckets a = Some [] \<and>
    length (bwRing a) = nat (bwWindow div interval) \<and> bwInterval a = interval \<and> bwLast a = 0"
proof -
  have "0 < bwWindow div interval" using assms by (simp add: pos_imp_zdiv_pos_iff)
  then show ?thesis using assms
    by (simp add: NewAdmin_def bw_size_def bw_ok_def bw_buckets_def)
qed

section \<open>Properties\<close>



text \<open>
  A scrape interval above 24 hours is accepted by \<open>NewAdmin\<close> and gives a ring without
  buckets: the first tick of the scraper panics, in a goroutine of its own, and so does every
  request for the bandwidth page.
\<close>

theorem scrape_interval_panics:
  assumes "bwWindow < interval"
  shows "\<exists>a. NewAdmin zero secret interval = Some a \<and> scrape fdiv t current a = None \<and>
    handleBandwidth json a = None"
proof -
  have "bwWindow div interval = 0" and "0 < interval" using assms by (simp_all add: bwWindow_def div_pos_pos_trivial)
  then show ?thesis
    by (simp add: NewAdmin_def bw_size_def scrape_def bw_push_def go_store_def handleBandwidth_def bw_buckets_def)
qed

theorem scrape_interval_panics_witness:
  "\<exists>a. NewAdmin (0 :: nat) [] (2 * bwWindow) = Some a \<and> scrape (\<lambda>d i. unat d) 1 5 a = None \<and>
     handleBandwidth (\<lambda>bs. []) a = None"
  by (rule scrape_interval_panics) (simp add: bwWindow_def)

text \<open>
  The bandwidth page reads the ring after it has released the lock. When the ring is full
  and a tick falls between the copy of the counters and the loop, the answer starts with the
  newest sample in the place of the oldest: its buckets are out of order.
\<close>

theorem bandwidth_torn_read:
  assumes "bw_ok a" and "bwCount a = length (bwRing a)" and "bw_buckets a = Some (b # bs)"
    and "scrape fdiv t current a = Some a'"
  shows "bw_loop (bwCount a) (bwHead a) 0 (replicate (bwCount a) (bwRing a')) =
    Some (\<lparr>bw_T = t, bw_BPS = fdiv (current - bwLast a) (bwInterval a)\<rparr> # bs)"
proof -
  let ?n = "length (bwRing a)" and ?h = "bwHead a"
  let ?x = "\<lparr>bw_T = t, bw_BPS = fdiv (current - bwLast a) (bwInterval a)\<rparr>"
  have n: "?h < ?n" "bwRing a \<noteq> []" using assms(1) by (auto simp: bw_ok_def)
  have ring': "bwRing a' = (bwRing a)[?h := ?x]"
    using assms(4) bw_push_ok [of "a\<lparr>bwLast := current\<rparr>"] assms(1) by (auto simp: scrape_def)
  have "b # bs = ring_view (bwRing a) ?h ?n" using assms(1-3) by (simp add: bw_buckets_view)
  moreover have "ring_view (bwRing a') ?h ?n = ?x # tl (ring_view (bwRing a) ?h ?n)"
  proof (rule nth_equalityI)
    fix i assume i: "i < length (ring_view (bwRing a') ?h ?n)"
    have "(?h + i) mod ?n \<noteq> (?h + 0) mod ?n" if "i \<noteq> 0" using ring_slot_inj [of ?h i ?n 0] that i n by auto
    then show "ring_view (bwRing a') ?h ?n ! i = (?x # tl (ring_view (bwRing a) ?h ?n)) ! i"
      using i n by (cases i) (auto simp: ring_view_nth ring' nth_tl)
  qed (use n in simp)
  ultimately have "ring_view (bwRing a') ?h ?n = ?x # bs" by (metis list.sel(3))
  then show ?thesis using n assms(2) bw_loop_ring_view [of "bwRing a'" ?n ?h] by (simp add: ring')
qed

theorem bandwidth_torn_read_witness:
  fixes a :: "nat admin"
  defines "a \<equiv> \<lparr>adm_secret = [], activeHosts = Map.empty, adm_hub = empty_hub,
    bwRing = [\<lparr>bw_T = 1, bw_BPS = 1\<rparr>, \<lparr>bw_T = 2, bw_BPS = 1\<rparr>], bwInterval = 1, bwHead = 0,
    bwCount = 2, bwLast = 2, adm_stopped = False\<rparr>"
  shows "bw_loop 2 0 0 (replicate 2 (bwRing (the (scrape (\<lambda>d i. unat d) 3 7 a)))) =
    Some [\<lparr>bw_T = 3, bw_BPS = 5\<rparr>, \<lparr>bw_T = 2, bw_BPS = 1\<rparr>]"
  using bandwidth_torn_read [of a "\<lparr>bw_T = 1, bw_BPS = 1\<rparr>" "[\<lparr>bw_T = 2, bw_BPS = 1\<rparr>]" "\<lambda>d i. unat d" 3 7
      "the (scrape (\<lambda>d i. unat d) 3 7 a)"]
  by (simp add: a_def bw_ok_def bw_buckets_view ring_view_def ring_start_def scrape_def bw_push_def go_simps
      upt_conv_Cons)

text \<open>
  With a password set, a page of the admin server runs only for a request whose basic
  authentication carries that password; every other request gets the refusal of the
  middleware or of the router, and no page sees it. Without a password every \<open>GET\<close> runs.
\<close>

theorem admin_pages_guarded:
  "(\<exists>p. AdminRoutes secret Inl (\<lambda>p r. Inr p) r = Inr p) \<longleftrightarrow>
     (http_method r = ''GET'' \<or> http_method r = ''HEAD'') \<and>
     (secret = [] \<or> (\<exists>user. BasicAuth r = Some (user, secret)))"
  by (cases "BasicAuth r") (auto simp: AdminRoutes_def basicAuth_def split: if_splits)

section \<open>Active hosts\<close>

lemma broadcast_admin:
  assumes "hub_ok (adm_hub a)" and "range_order ord (adm_hub a)"
  shows "broadcast msg ord a = Some (a\<lparr>adm_hub := offer_all msg (subscribers (adm_hub a)) (adm_hub a)\<rparr>)"
  using assms by (simp add: broadcast_def broadcast_offer)

text \<open>
  The order of the two callbacks of a host matters. The server starts to watch the stream
  before it calls \<open>HostConnected\<close>, so for a stream that is already gone \<open>HostDisconnected\<close> may
  run first; the host then stays on the page for good.
\<close>

lemma host_callbacks_in_order:
  assumes "hub_ok (adm_hub a)" and "range_order ord (adm_hub a)"
  shows "\<exists>a' a''. HostConnected addrText key addrs ord a = Some a' \<and> HostDisconnected key ord a' = Some a'' \<and>
    activeHosts a'' key = None"
  using assms
  by (auto simp: HostConnected_def HostDisconnected_def broadcast_admin hub_ok_offer_all range_order_def)

lemma host_callbacks_swapped:
  assumes "hub_ok (adm_hub a)" and "range_order ord (adm_hub a)"
  shows "\<exists>a' a''. HostDisconnected key ord a = Some a' \<and> HostConnected addrText key addrs ord a' = Some a'' \<and>
    activeHosts a'' key = Some addrs"
  using assms
  by (auto simp: HostConnected_def HostDisconnected_def broadcast_admin hub_ok_offer_all range_order_def)

end
