(* ===== verification/Http_Static.thy ===== *)
theory Http_Static
  imports Http_Middleware
begin

text \<open>
  The middleware of \<^verbatim>\<open>internal/platform/httpplatform/middleware.go\<close> that changes responses, and the
  redirect to HTTPS of \<open>redirect.go\<close>. The compressor of \<open>compress/gzip\<close> is a parameter: for the
  data of each write the bytes it passes on, and those it passes on when it is closed.
\<close>

section \<open>Paths and headers\<close>

text \<open>\<open>filepath.Ext\<close>: from the last dot of the last element of the path.\<close>

fun ext_scan :: "string \<Rightarrow> string \<Rightarrow> string" where
  "ext_scan [] acc = []"
| "ext_scan (c # cs) acc =
     (if c = CHR ''/'' then [] else if c = CHR ''.'' then c # acc else ext_scan cs (c # acc))"

definition filepath_Ext :: "string \<Rightarrow> string" where
  "filepath_Ext p = ext_scan (rev p) []"

text \<open>\<open>strings.Contains\<close>.\<close>

definition contains :: "string \<Rightarrow> string \<Rightarrow> bool" where
  "contains s sub \<longleftrightarrow> list_ex (\<lambda>i. take (length sub) (drop i s) = sub) [0..<Suc (length s)]"

section \<open>CacheStaticFiles and Gzip\<close>

definition CacheStaticFiles :: middleware where
  "CacheStaticFiles handler r ctx =
     (if filepath_Ext (url_path r) \<in> {''.css'', ''.js'', ''.svg'', ''.png''}
      then [SetHeader ''Cache-Control'' ''public, max-age=3600''] else []) @ handler r ctx"

type_synonym compressor = "bytes list \<Rightarrow> bytes list \<times> bytes"

fun writes :: "rw_call list \<Rightarrow> bytes list" where
  "writes [] = []"
| "writes (Write b # cs) = b # writes cs"
| "writes (_ # cs) = writes cs"

text \<open>The writer \<open>gzipResponseWriter\<close>: data goes through the compressor, the rest passes.\<close>

fun through_gzip :: "rw_call list \<Rightarrow> bytes list \<Rightarrow> rw_call list" where
  "through_gzip [] outs = []"
| "through_gzip (c # cs) outs =
     (case c of
        Write b \<Rightarrow> Write (case outs of out # _ \<Rightarrow> out | [] \<Rightarrow> []) # through_gzip cs (tl outs)
      | _ \<Rightarrow> c # through_gzip cs outs)"

definition gzip_writer :: "compressor \<Rightarrow> rw_call list \<Rightarrow> rw_call list" where
  "gzip_writer gz cs = (let (outs, last) = gz (writes cs) in through_gzip cs outs @ [Write last])"

definition compressible :: "string \<Rightarrow> bool" where
  "compressible p \<longleftrightarrow>
     filepath_Ext p \<in> {[], ''.html'', ''.css'', ''.js'', ''.json'', ''.xml'', ''.svg''}"

definition Gzip :: "compressor \<Rightarrow> middleware" where
  "Gzip gz handler r ctx =
     (if \<not> contains (http_header r ''Accept-Encoding'') ''gzip'' then handler r ctx
      else if compressible (url_path r) then
        [SetHeader ''Content-Encoding'' ''gzip'', SetHeader ''Vary'' ''Accept-Encoding'', DelHeader ''Content-Length''] @
        gzip_writer gz (handler r ctx)
      else handler r ctx)"

section \<open>The status that is logged\<close>

text \<open>\<open>responseWriterWithStatus\<close> keeps the last status it is given, and counts none as 200.\<close>

fun logged_status :: "rw_call list \<Rightarrow> int \<Rightarrow> int" where
  "logged_status [] st = (if st = 0 then StatusOK else st)"
| "logged_status (WriteHeader s # cs) st = logged_status cs s"
| "logged_status (_ # cs) st = logged_status cs st"

section \<open>redirect.go\<close>

text \<open>\<open>net.JoinHostPort\<close>: a host with a colon is put in brackets. \<open>itoa\<close> prints the port.\<close>

definition JoinHostPort :: "string \<Rightarrow> string \<Rightarrow> string" where
  "JoinHostPort host port =
     (if CHR '':'' \<in> set host then ''['' @ host @ '']:'' @ port else host @ '':'' @ port)"

definition targetHost :: "(int \<Rightarrow> string) \<Rightarrow> int \<Rightarrow> string \<Rightarrow> string" where
  "targetHost itoa redirectPort host =
     (let reqHost = (if split_host host = [] then host else split_host host)
      in if redirectPort = 443 then reqHost else JoinHostPort reqHost (itoa redirectPort))"

section \<open>http3platform\<close>

text \<open>
  A response writer as \<open>ResponseController\<close> sees it: one with an HTTP/3 stream, a wrapper that
  can be unwrapped, or neither.
\<close>

datatype 's rw_shape = Streamer 's | Unwrapper "'s rw_shape" | PlainWriter

fun HTTPStream :: "'s rw_shape \<Rightarrow> err + 's" where
  "HTTPStream (Streamer str) = Inr str"
| "HTTPStream (Unwrapper rw) = HTTPStream rw"
| "HTTPStream PlainWriter = Inl (Leaf (Sentinel ''feature not supported''))"

text \<open>However many middlewares wrapped the writer, the stream is found.\<close>

lemma HTTPStream_wrapped: "HTTPStream ((Unwrapper ^^ n) (Streamer str)) = Inr str"
  by (induction n) auto

text \<open>\<open>AdvertiseHTTP3\<close>; a request over HTTP/3 gets an empty answer.\<close>

definition AdvertiseHTTP3 :: "(int \<Rightarrow> string) \<Rightarrow> int \<Rightarrow> (http_request \<Rightarrow> int) \<Rightarrow> middleware" where
  "AdvertiseHTTP3 itoa port protoMajor handler r ctx =
     (if protoMajor r < 3
      then SetHeader ''Alt-Svc'' (''h3='' @ [CHR 0x22] @ '':'' @ itoa port @ [CHR 0x22] @ ''; ma=2592000'') # handler r ctx
      else [])"

section \<open>Compression is transparent\<close>

lemma std_body: "w_body (foldl std_call w cs) = w_body w @ concat (writes cs)"
proof (induction cs arbitrary: w)
  case (Cons c cs)
  then show ?case by (cases c) (auto simp: Let_def)
qed simp

lemma std_respond_body: "resp_body (std_respond cs) = concat (writes cs)"
proof -
  have "w_status (foldl std_call w cs) = 0 \<Longrightarrow> writes cs = []" for w
  proof (induction cs arbitrary: w)
    case (Cons c cs)
    show ?case
    proof (cases c)
      case (Write b)
      have "w_status (std_call w (Write b)) \<noteq> 0" by (simp add: Let_def StatusOK_def)
      then have "w_status (foldl std_call (std_call w (Write b)) cs) \<noteq> 0"
        using std_status_stable [of "std_call w (Write b)" cs] by metis
      then show ?thesis using Cons.prems Write by simp
    qed (use Cons in auto)
  qed simp
  then show ?thesis
    using std_body [of std_writer0 cs] by (auto simp: std_respond_def Let_def std_run_def std_writer0_def)
qed

lemma writes_through:
  "length outs = length (writes cs) \<Longrightarrow> writes (through_gzip cs outs) = outs"
proof (induction cs arbitrary: outs)
  case (Cons c cs)
  then show ?case by (cases c; cases outs) auto
qed simp

lemma writes_append [simp]: "writes (cs @ ds) = writes cs @ writes ds"
  by (induction cs rule: writes.induct) auto

text \<open>The status depends on where calls are made, not on the data they write.\<close>

lemma status_through:
  "w_status w = w_status w' \<Longrightarrow>
   w_status (foldl std_call w (through_gzip cs outs)) = w_status (foldl std_call w' cs)"
proof (induction cs arbitrary: outs w w')
  case (Cons c cs)
  show ?case
  proof (cases c)
    case (Write b)
    let ?out = "case outs of out # _ \<Rightarrow> out | [] \<Rightarrow> []"
    have "w_status (std_call w (Write ?out)) = w_status (std_call w' (Write b))"
      using Cons.prems by (simp add: Let_def)
    from Cons.IH [OF this] show ?thesis using Write by simp
  next
    case (SetHeader k v)
    then show ?thesis using Cons.IH [of "std_call w c" "std_call w' c"] Cons.prems by simp
  next
    case (DelHeader k)
    then show ?thesis using Cons.IH [of "std_call w c" "std_call w' c"] Cons.prems by simp
  next
    case (WriteHeader s)
    then show ?thesis using Cons.IH [of "std_call w c" "std_call w' c"] Cons.prems by simp
  qed
qed simp

text \<open>
  A client that decompresses what it gets sees the body the handler wrote, with the same status,
  whatever the handler does.
\<close>

lemma gzip_transparent:
  assumes "gz (writes cs) = (outs, fin)" and "length outs = length (writes cs)"
    and "gunzip (concat outs @ fin) = concat (writes cs)"
  shows "gunzip (resp_body (std_respond (gzip_writer gz cs))) = resp_body (std_respond cs) \<and>
    resp_status (std_respond (gzip_writer gz cs)) = resp_status (std_respond cs)"
proof
  show "gunzip (resp_body (std_respond (gzip_writer gz cs))) = resp_body (std_respond cs)"
    using assms by (simp add: std_respond_body gzip_writer_def writes_through)
  have "w_status (std_run (through_gzip cs outs)) = w_status (std_run cs)"
    unfolding std_run_def by (rule status_through) simp
  then show "resp_status (std_respond (gzip_writer gz cs)) = resp_status (std_respond cs)"
    using assms(1) by (simp add: std_respond_def gzip_writer_def std_run_append Let_def)
qed

text \<open>
  The log agrees with the response when a handler sets one status, before it writes; a page
  whose template fails half way is sent as 200 and logged as 500.
\<close>

lemma logged_status_agrees:
  assumes "\<And>s. WriteHeader s \<notin> set cs" and "st \<noteq> 0"
  shows "logged_status (WriteHeader st # cs) 0 = resp_status (std_respond (WriteHeader st # cs))"
proof -
  have "logged_status cs st = st"
    using assms by (induction cs st rule: logged_status.induct) auto
  moreover have "w_status (std_run (WriteHeader st # cs)) = st"
    using std_status_stable [of "std_call std_writer0 (WriteHeader st)" cs] assms(2)
    by (simp add: std_run_def std_writer0_def)
  ultimately show ?thesis using assms(2) by (simp add: std_respond_def Let_def)
qed

lemma logged_status_differs:
  "logged_status (Write b # http_Error m 500) 0 = 500 \<and> resp_status (std_respond (Write b # http_Error m 500)) = 200"
  by (simp add: http_Error_def std_respond_def std_run_def std_writer0_def Let_def StatusOK_def)

end
