(* ===== verification/TTL_Map.thy ===== *)
theory TTL_Map
  imports Http_Model Netip
begin

text \<open>
  \<^verbatim>\<open>internal/platform/ttlmap.go\<close> and its client, the rate limiter of
  \<^verbatim>\<open>internal/platform/httpplatform/middleware.go\<close>. The elements of \<open>container/list\<close> are cells
  named by numbers, with the list as the sequence of the names it holds; a removed element keeps
  its value. Every call reads the clock several times: \<open>clock i\<close> is the reading number \<open>i\<close> of
  the call. Looking into a cell that was never made would be a nil dereference, \<open>None\<close>.
\<close>

section \<open>ttlmap.go\<close>

record ('k, 'v) item =
  it_key :: 'k
  it_value :: 'v
  it_t :: int

record ('k, 'v) ttl_map =
  ttl :: int
  ttl_list :: "nat list"
  ttl_elems :: "nat \<rightharpoonup> ('k, 'v) item"
  ttl_items :: "'k \<rightharpoonup> nat"
  ttl_fresh :: nat     \<comment> \<open>name of the next element\<close>

definition NewTTLMap :: "int \<Rightarrow> ('k, 'v) ttl_map" where
  "NewTTLMap d = \<lparr>ttl = d, ttl_list = [], ttl_elems = Map.empty, ttl_items = Map.empty, ttl_fresh = 0\<rparr>"

text \<open>
  The loop that drops expired items, from the element \<open>front\<close> on; \<open>es\<close> are the elements from
  there to the end. It returns the number of the next clock reading.
\<close>

fun drop_expired :: "(nat \<Rightarrow> int) \<Rightarrow> nat \<Rightarrow> nat list \<Rightarrow> ('k, 'v) ttl_map \<Rightarrow> (('k, 'v) ttl_map \<times> nat) option" where
  "drop_expired clock i [] m = Some (m, i)"
| "drop_expired clock i (front # es) m =
     do { it \<leftarrow> ttl_elems m front;
          if clock i - it_t it < ttl m then Some (m, Suc i)
          else drop_expired clock (Suc i) es
            (m\<lparr>ttl_list := remove1 front (ttl_list m), ttl_items := (ttl_items m)(it_key it := None)\<rparr>) }"

definition TTL_get :: "int \<Rightarrow> 'k \<Rightarrow> ('k, 'v) ttl_map \<Rightarrow> ('v option \<times> ('k, 'v) ttl_map) option" where
  "TTL_get now key m =
     (case ttl_items m key of
        None \<Rightarrow> Some (None, m)
      | Some elem \<Rightarrow>
          do { it \<leftarrow> ttl_elems m elem;
               Some (Some (it_value it),
                 m\<lparr>ttl_elems := (ttl_elems m)(elem \<mapsto> it\<lparr>it_t := now\<rparr>),
                   ttl_list := (if elem \<in> set (ttl_list m) then remove1 elem (ttl_list m) @ [elem]
                                else ttl_list m)\<rparr>) })"

definition TTL_set :: "int \<Rightarrow> 'k \<Rightarrow> 'v \<Rightarrow> ('k, 'v) ttl_map \<Rightarrow> ('k, 'v) ttl_map" where
  "TTL_set now k v m =
     m\<lparr>ttl_elems := (ttl_elems m)(ttl_fresh m \<mapsto> \<lparr>it_key = k, it_value = v, it_t = now\<rparr>),
       ttl_list := ttl_list m @ [ttl_fresh m],
       ttl_items := (ttl_items m)(k \<mapsto> ttl_fresh m),
       ttl_fresh := Suc (ttl_fresh m)\<rparr>"

text \<open>\<open>newV\<close> is what the function of that name would return; it is called for a missing key only.\<close>

definition GetOrSet :: "(nat \<Rightarrow> int) \<Rightarrow> 'k \<Rightarrow> 'v \<Rightarrow> ('k, 'v) ttl_map \<Rightarrow> ('v \<times> ('k, 'v) ttl_map) option" where
  "GetOrSet clock k newV m =
     do { (m1, i) \<leftarrow> drop_expired clock 0 (ttl_list m) m;
          (found, m2) \<leftarrow> TTL_get (clock i) k m1;
          Some (case found of Some v \<Rightarrow> (v, m2) | None \<Rightarrow> (newV, TTL_set (clock i) k newV m2)) }"

section \<open>Abstraction and invariant\<close>

text \<open>What the map promises: a value and the time of its last access for every key.\<close>

definition ttl_abs :: "('k, 'v) ttl_map \<Rightarrow> 'k \<rightharpoonup> 'v \<times> int" where
  "ttl_abs m k = Option.bind (ttl_items m k) (\<lambda>e. map_option (\<lambda>it. (it_value it, it_t it)) (ttl_elems m e))"

definition live :: "int \<Rightarrow> int \<Rightarrow> ('k \<rightharpoonup> 'v \<times> int) \<Rightarrow> 'k \<rightharpoonup> 'v \<times> int" where
  "live d now f k = (case f k of Some (v, t) \<Rightarrow> if now - t < d then Some (v, t) else None | None \<Rightarrow> None)"

definition elem_t :: "('k, 'v) ttl_map \<Rightarrow> nat \<Rightarrow> int" where
  "elem_t m e = (case ttl_elems m e of Some it \<Rightarrow> it_t it | None \<Rightarrow> 0)"

text \<open>
  The list holds the elements of the table, each once, by the time of their last access.
\<close>

definition ttl_ok :: "int \<Rightarrow> ('k, 'v) ttl_map \<Rightarrow> bool" where
  [inv_defs]: "ttl_ok now m \<longleftrightarrow>
     distinct (ttl_list m) \<and>
     (\<forall>e \<in> set (ttl_list m). \<exists>it. ttl_elems m e = Some it \<and> ttl_items m (it_key it) = Some e) \<and>
     (\<forall>k e. ttl_items m k = Some e \<longrightarrow> e \<in> set (ttl_list m) \<and> (\<exists>it. ttl_elems m e = Some it \<and> it_key it = k)) \<and>
     sorted (map (elem_t m) (ttl_list m)) \<and>
     (\<forall>e \<in> set (ttl_list m). elem_t m e \<le> now) \<and>
     (\<forall>e \<in> dom (ttl_elems m). e < ttl_fresh m)"

lemma ttl_okD:
  assumes "ttl_ok now m"
  shows "distinct (ttl_list m)"
    and "e \<in> set (ttl_list m) \<Longrightarrow> \<exists>it. ttl_elems m e = Some it \<and> ttl_items m (it_key it) = Some e"
    and "ttl_items m k = Some e \<Longrightarrow> e \<in> set (ttl_list m)"
    and "ttl_items m k = Some e \<Longrightarrow> \<exists>it. ttl_elems m e = Some it \<and> it_key it = k"
    and "sorted (map (elem_t m) (ttl_list m))"
    and "e \<in> set (ttl_list m) \<Longrightarrow> elem_t m e \<le> now"
    and "ttl_elems m e \<noteq> None \<Longrightarrow> e < ttl_fresh m"
  using assms unfolding ttl_ok_def by blast+

lemma ttl_ok_new [simp]: "ttl_ok now (NewTTLMap d)"
  by (simp add: ttl_ok_def NewTTLMap_def)

lemma NewTTLMap_simps [simp]: "ttl_abs (NewTTLMap d) = Map.empty" "ttl (NewTTLMap d) = d"
  by (auto simp: ttl_abs_def NewTTLMap_def fun_eq_iff)

lemma ttl_ok_mono: "ttl_ok now m \<Longrightarrow> now \<le> now' \<Longrightarrow> ttl_ok now' m"
  unfolding ttl_ok_def by (meson order_trans)

lemma ttl_abs_elem:
  "ttl_ok now m \<Longrightarrow> ttl_items m k = Some e \<Longrightarrow> ttl_elems m e = Some it \<Longrightarrow>
   ttl_abs m k = Some (it_value it, it_t it)"
  by (simp add: ttl_abs_def)

lemma live_idem: "(\<And>k v t. f k = Some (v, t) \<Longrightarrow> now - t < d) \<Longrightarrow> live d now f = f"
  by (auto simp: live_def fun_eq_iff split: option.splits)

lemma live_drop: "f k = Some (v, t) \<Longrightarrow> \<not> now - t < d \<Longrightarrow> live d now (f(k := None)) = live d now f"
  by (auto simp: live_def fun_eq_iff)

section \<open>Every operation keeps the invariant\<close>

lemma drop_front:
  assumes ok: "ttl_ok now m" and l: "ttl_list m = e # es" and it: "ttl_elems m e = Some it"
  defines "m' \<equiv> m\<lparr>ttl_list := remove1 e (ttl_list m), ttl_items := (ttl_items m)(it_key it := None)\<rparr>"
  shows "ttl_ok now m'" and "ttl_list m' = es" and "ttl_abs m' = (ttl_abs m)(it_key it := None)"
proof -
  note D = ttl_okD [OF ok]
  have e: "ttl_items m (it_key it) = Some e" using D(2) [of e] it l by auto
  have keys: "it_key it' \<noteq> it_key it" if "x \<in> set es" "ttl_elems m x = Some it'" for x it'
    using D(1) D(2) [of x] that e l by auto
  have names: "x \<in> set es" if "ttl_items m k = Some x" "k \<noteq> it_key it" for k x
    using D(3) [OF that(1)] D(4) [OF that(1)] that it l by auto
  have "\<exists>it. ttl_elems m' x = Some it \<and> ttl_items m' (it_key it) = Some x" if "x \<in> set es" for x
    using D(2) [of x] keys [OF that] that l by (auto simp: m'_def)
  moreover have "x \<in> set es \<and> (\<exists>it. ttl_elems m' x = Some it \<and> it_key it = k)" if "ttl_items m' k = Some x" for k x
    using names [of k x] D(4) [of k x] that by (auto simp: m'_def split: if_splits)
  moreover have "elem_t m' = elem_t m" by (simp add: elem_t_def m'_def fun_eq_iff)
  ultimately show "ttl_ok now m'"
    using D(1,5,6,7) l unfolding ttl_ok_def by (auto simp: m'_def)
  show "ttl_list m' = es" by (simp add: m'_def l)
  show "ttl_abs m' = (ttl_abs m)(it_key it := None)" by (auto simp: ttl_abs_def m'_def fun_eq_iff)
qed

lemma front_fresh:
  assumes ok: "ttl_ok now m" and l: "ttl_list m = e # es" and it: "ttl_elems m e = Some it"
    and "c - it_t it < d" and "ttl_abs m k = Some (v, t)"
  shows "c - t < d"
proof -
  note D = ttl_okD [OF ok]
  obtain x it' where x: "ttl_items m k = Some x" "ttl_elems m x = Some it'" "t = it_t it'"
    using assms(5) by (auto simp: ttl_abs_def bind_eq_Some_conv)
  then have "x \<in> set (e # es)" using D(3) l by metis
  moreover have "sorted (map (elem_t m) (e # es))" using D(5) l by simp
  ultimately have "elem_t m e \<le> elem_t m x" by auto
  then show ?thesis using assms(4) it x by (simp add: elem_t_def)
qed

lemma drop_expired_ok:
  assumes "mono clock"
  shows "ttl_ok (clock i) m \<Longrightarrow> ttl_list m = es \<Longrightarrow>
    \<exists>m' c j. drop_expired clock i es m = Some (m', j) \<and> i \<le> c \<and> c \<le> j \<and> ttl m' = ttl m \<and>
      ttl_ok (clock j) m' \<and> ttl_abs m' = live (ttl m) (clock c) (ttl_abs m)"
proof (induction es arbitrary: i m)
  case Nil
  then have "ttl_items m = Map.empty" using ttl_okD(3) [OF Nil.prems(1)] by (auto intro!: ext) (metis empty_iff list.set(1) not_None_eq)
  then have "ttl_abs m = Map.empty" by (auto simp: ttl_abs_def)
  then show ?case using Nil by (auto simp: live_def)
next
  case (Cons e es)
  obtain it where it: "ttl_elems m e = Some it" "ttl_items m (it_key it) = Some e"
    using ttl_okD(2) [OF Cons.prems(1), of e] Cons.prems(2) by auto
  have step: "clock i \<le> clock (Suc i)" using assms by (simp add: monoD)
  show ?case
  proof (cases "clock i - it_t it < ttl m")
    case True
    then have "live (ttl m) (clock i) (ttl_abs m) = ttl_abs m"
      using front_fresh [OF Cons.prems it(1) True] by (intro live_idem)
    then show ?thesis using True it ttl_ok_mono [OF Cons.prems(1) step]
      by (auto intro!: exI [of _ i])
  next
    case False
    let ?m = "m\<lparr>ttl_list := remove1 e (ttl_list m), ttl_items := (ttl_items m)(it_key it := None)\<rparr>"
    note d = drop_front [OF Cons.prems it(1)]
    from Cons.IH [OF ttl_ok_mono [OF d(1) step] d(2)] obtain m' c j where
      r: "drop_expired clock (Suc i) es ?m = Some (m', j)" "Suc i \<le> c" "c \<le> j" "ttl m' = ttl ?m"
        "ttl_ok (clock j) m'" "ttl_abs m' = live (ttl ?m) (clock c) (ttl_abs ?m)" by blast
    have "clock i \<le> clock c" using assms r(2) by (simp add: monoD)
    then have "ttl_abs m' = live (ttl m) (clock c) (ttl_abs m)"
      using False r(6) d(3) live_drop [of "ttl_abs m" "it_key it" "it_value it" "it_t it" "clock c" "ttl m"]
        ttl_abs_elem [OF Cons.prems(1) it(2,1)] by simp
    then show ?thesis using False it r by (auto intro!: exI [of _ c])
  qed
qed

lemma TTL_get_found:
  assumes ok: "ttl_ok now m" and e: "ttl_items m k = Some e"
  shows "\<exists>v t m'. ttl_abs m k = Some (v, t) \<and> TTL_get now k m = Some (Some v, m') \<and> ttl m' = ttl m \<and>
    ttl_ok now m' \<and> ttl_abs m' = (ttl_abs m)(k \<mapsto> (v, now))"
proof -
  note D = ttl_okD [OF ok]
  obtain it where it: "ttl_elems m e = Some it" "it_key it = k" using D(4) e by blast
  have in_l: "e \<in> set (ttl_list m)" using D(3) e by blast
  let ?m = "m\<lparr>ttl_elems := (ttl_elems m)(e \<mapsto> it\<lparr>it_t := now\<rparr>), ttl_list := remove1 e (ttl_list m) @ [e]\<rparr>"
  have get: "TTL_get now k m = Some (Some (it_value it), ?m)" by (simp add: TTL_get_def e it in_l)
  have others: "elem_t ?m x = elem_t m x" if "x \<noteq> e" for x using that by (simp add: elem_t_def)
  have times: "map (elem_t ?m) (ttl_list ?m) = map (elem_t m) (remove1 e (ttl_list m)) @ [now]"
    using D(1) by (auto simp: set_remove1_eq others) (simp add: elem_t_def)
  have "sorted (map (elem_t m) (remove1 e (ttl_list m)))"
    using D(1,5) by (simp add: distinct_remove1_removeAll removeAll_filter_not_eq sorted_filter)
  then have sorted: "sorted (map (elem_t ?m) (ttl_list ?m))"
    unfolding times using D(1,6) by (auto simp: sorted_append set_remove1_eq)
  have keys: "it_key it' = k \<longleftrightarrow> x = e" if "x \<in> set (ttl_list m)" "ttl_elems m x = Some it'" for x it'
    using D(2) [OF that(1)] that e it by auto
  have "\<forall>x \<in> set (ttl_list ?m). \<exists>it. ttl_elems ?m x = Some it \<and> ttl_items ?m (it_key it) = Some x"
    using D(1,2) e it by (auto simp: set_remove1_eq)
  moreover have "\<forall>k x. ttl_items ?m k = Some x \<longrightarrow> x \<in> set (ttl_list ?m) \<and> (\<exists>it. ttl_elems ?m x = Some it \<and> it_key it = k)"
    using D(1,3,4) it by (fastforce simp: set_remove1_eq)
  moreover have "\<forall>x \<in> set (ttl_list ?m). elem_t ?m x \<le> now"
    using D(1,6) others by (auto simp: set_remove1_eq) (auto simp: elem_t_def)
  moreover have "\<forall>x \<in> dom (ttl_elems ?m). x < ttl_fresh ?m" using D(7) it by auto
  ultimately have "ttl_ok now ?m"
    using D(1) sorted unfolding ttl_ok_def by (auto simp: set_remove1_eq)
  moreover have "ttl_abs ?m = (ttl_abs m)(k \<mapsto> (it_value it, now))"
  proof
    fix k'
    show "ttl_abs ?m k' = ((ttl_abs m)(k \<mapsto> (it_value it, now))) k'"
      using D(4) [of k'] e it by (cases "ttl_items m k'") (auto simp: ttl_abs_def)
  qed
  ultimately show ?thesis using get ttl_abs_elem [OF ok e it(1)] by auto
qed

lemma TTL_set_ok:
  assumes ok: "ttl_ok now m" and k: "ttl_items m k = None"
  shows "ttl_ok now (TTL_set now k v m) \<and> ttl_abs (TTL_set now k v m) = (ttl_abs m)(k \<mapsto> (v, now))"
proof
  note D = ttl_okD [OF ok]
  let ?m = "TTL_set now k v m" and ?e = "ttl_fresh m"
  have fresh: "ttl_elems m ?e = None" using D(7) [of ?e] by (cases "ttl_elems m ?e") auto
  then have new: "?e \<notin> set (ttl_list m)" using D(2) [of ?e] by auto
  have others: "elem_t ?m x = elem_t m x" if "x \<noteq> ?e" for x using that by (simp add: elem_t_def TTL_set_def)
  have self: "elem_t ?m ?e = now" by (simp add: elem_t_def TTL_set_def)
  have set: "set (ttl_list ?m) = insert ?e (set (ttl_list m))" by (simp add: TTL_set_def)
  have "map (elem_t ?m) (ttl_list m) = map (elem_t m) (ttl_list m)"
    by (rule map_cong [OF refl], rule others) (use new in auto)
  then have times: "map (elem_t ?m) (ttl_list ?m) = map (elem_t m) (ttl_list m) @ [now]"
    using self unfolding TTL_set_def by (simp del: map_eq_conv)
  have "sorted (map (elem_t ?m) (ttl_list ?m))"
    unfolding times using D(5,6) by (auto simp: sorted_append)
  moreover have "\<forall>x \<in> set (ttl_list ?m). \<exists>it. ttl_elems ?m x = Some it \<and> ttl_items ?m (it_key it) = Some x"
    using D(2) new k by (fastforce simp: TTL_set_def)
  moreover have "\<forall>k x. ttl_items ?m k = Some x \<longrightarrow> x \<in> set (ttl_list ?m) \<and> (\<exists>it. ttl_elems ?m x = Some it \<and> it_key it = k)"
    using D(3,4) new by (auto simp: TTL_set_def)
  moreover have "\<forall>x \<in> set (ttl_list ?m). elem_t ?m x \<le> now"
    unfolding set using D(6) others self by (metis insertE order_refl)
  moreover have "\<forall>x \<in> dom (ttl_elems ?m). x < ttl_fresh ?m" using D(7) by (auto simp: TTL_set_def less_Suc_eq)
  ultimately show "ttl_ok now ?m" using D(1) new unfolding ttl_ok_def by (auto simp: TTL_set_def)
  show "ttl_abs ?m = (ttl_abs m)(k \<mapsto> (v, now))"
  proof
    fix k'
    show "ttl_abs ?m k' = ((ttl_abs m)(k \<mapsto> (v, now))) k'"
      using D(4) [of k'] fresh by (cases "ttl_items m k'") (auto simp: ttl_abs_def TTL_set_def)
  qed
qed

section \<open>Refinement\<close>

lemma GetOrSet_live:
  assumes "mono clock" and "ttl_ok (clock 0) m"
  shows "\<exists>v m' c j. GetOrSet clock k newV m = Some (v, m') \<and> c \<le> j \<and> ttl m' = ttl m \<and> ttl_ok (clock j) m' \<and>
    v = (case live (ttl m) (clock c) (ttl_abs m) k of Some (w, _) \<Rightarrow> w | None \<Rightarrow> newV) \<and>
    ttl_abs m' = (live (ttl m) (clock c) (ttl_abs m))(k \<mapsto> (v, clock j))"
proof -
  from drop_expired_ok [OF assms(1), of 0 m "ttl_list m"] assms(2) obtain m1 c j where
    m1: "drop_expired clock 0 (ttl_list m) m = Some (m1, j)" "c \<le> j" "ttl m1 = ttl m" "ttl_ok (clock j) m1"
      "ttl_abs m1 = live (ttl m) (clock c) (ttl_abs m)" by blast
  have wit: ?thesis
    if "GetOrSet clock k newV m = Some (v, m')" "ttl m' = ttl m" "ttl_ok (clock j) m'"
      "v = (case live (ttl m) (clock c) (ttl_abs m) k of Some (w, _) \<Rightarrow> w | None \<Rightarrow> newV)"
      "ttl_abs m' = (live (ttl m) (clock c) (ttl_abs m))(k \<mapsto> (v, clock j))" for v m'
    using that m1(2) by blast
  show ?thesis
  proof (cases "ttl_items m1 k")
    case None
    then have "live (ttl m) (clock c) (ttl_abs m) k = None" unfolding m1(5) [symmetric] by (simp add: ttl_abs_def)
    moreover have "ttl (TTL_set (clock j) k newV m1) = ttl m" using m1(3) by (simp add: TTL_set_def)
    ultimately show ?thesis
      using None m1 TTL_set_ok [OF m1(4) None, of newV]
      by (intro wit [of newV "TTL_set (clock j) k newV m1"]) (auto simp: GetOrSet_def TTL_get_def)
  next
    case (Some e)
    from TTL_get_found [OF m1(4) Some] obtain v t m' where
      g: "ttl_abs m1 k = Some (v, t)" "TTL_get (clock j) k m1 = Some (Some v, m')" "ttl m' = ttl m1"
        "ttl_ok (clock j) m'" "ttl_abs m' = (ttl_abs m1)(k \<mapsto> (v, clock j))" by blast
    show ?thesis using g m1 by (intro wit [of v m']) (auto simp: GetOrSet_def)
  qed
qed

text \<open>Calls one after the other, each with its own readings of the clock.\<close>

fun GetOrSets :: "((nat \<Rightarrow> int) \<times> 'k \<times> 'v) list \<Rightarrow> ('k, 'v) ttl_map \<Rightarrow> ('v list \<times> ('k, 'v) ttl_map) option" where
  "GetOrSets [] m = Some ([], m)"
| "GetOrSets ((clock, k, newV) # cs) m =
     do { (v, m') \<leftarrow> GetOrSet clock k newV m;
          (vs, m'') \<leftarrow> GetOrSets cs m';
          Some (v # vs, m'') }"

text \<open>
  The promise of the map, without lists and elements: a call first forgets the entries whose last
  access is at least the time to live ago, then answers with the entry or makes one, and marks it
  as accessed now.
\<close>

inductive ttl_spec :: "int \<Rightarrow> ((nat \<Rightarrow> int) \<times> 'k \<times> 'v) list \<Rightarrow> ('k \<rightharpoonup> 'v \<times> int) \<Rightarrow> 'v list \<Rightarrow> ('k \<rightharpoonup> 'v \<times> int) \<Rightarrow> bool"
  for d :: int where
  spec_nil: "ttl_spec d [] f [] f"
| spec_call: "v = (case live d (clock c) f k of Some (w, _) \<Rightarrow> w | None \<Rightarrow> newV) \<Longrightarrow> c \<le> j \<Longrightarrow>
     ttl_spec d cs ((live d (clock c) f)(k \<mapsto> (v, clock j))) vs g \<Longrightarrow>
     ttl_spec d ((clock, k, newV) # cs) f (v # vs) g"

text \<open>Time does not run backwards, neither within a call nor from one call to the next.\<close>

fun clocks_ok :: "int \<Rightarrow> ((nat \<Rightarrow> int) \<times> 'k \<times> 'v) list \<Rightarrow> bool" where
  "clocks_ok now [] = True"
| "clocks_ok now ((clock, k, v) # cs) \<longleftrightarrow> now \<le> clock 0 \<and> mono clock \<and> (\<forall>j. clocks_ok (clock j) cs)"

lemma clocks_ok_mono: "clocks_ok now cs \<Longrightarrow> now' \<le> now \<Longrightarrow> clocks_ok now' cs"
  by (cases cs) auto

lemma GetOrSets_spec:
  "ttl_ok now m \<Longrightarrow> clocks_ok now cs \<Longrightarrow>
   \<exists>vs m'. GetOrSets cs m = Some (vs, m') \<and> ttl_spec (ttl m) cs (ttl_abs m) vs (ttl_abs m')"
proof (induction cs arbitrary: now m)
  case Nil
  then show ?case by (auto intro: spec_nil)
next
  case (Cons x cs)
  obtain clock k newV where x: "x = (clock, k, newV)" by (cases x)
  have clk: "mono clock" "ttl_ok (clock 0) m" "clocks_ok (clock j) cs" for j
    using Cons.prems x ttl_ok_mono [of now m "clock 0"] by auto
  from GetOrSet_live [OF clk(1,2), of k newV] obtain v m1 c j where
    m1: "GetOrSet clock k newV m = Some (v, m1)" "c \<le> j" "ttl m1 = ttl m" "ttl_ok (clock j) m1"
      "v = (case live (ttl m) (clock c) (ttl_abs m) k of Some (w, _) \<Rightarrow> w | None \<Rightarrow> newV)"
      "ttl_abs m1 = (live (ttl m) (clock c) (ttl_abs m))(k \<mapsto> (v, clock j))" by blast
  from Cons.IH [OF m1(4) clk(3)] obtain vs m' where
    r: "GetOrSets cs m1 = Some (vs, m')" "ttl_spec (ttl m) cs (ttl_abs m1) vs (ttl_abs m')"
    using m1(3) by auto
  have "ttl_spec (ttl m) (x # cs) (ttl_abs m) (v # vs) (ttl_abs m')"
    unfolding x using r(2) unfolding m1(6) by (rule spec_call [where clock = clock and c = c and j = j, OF m1(5,2)])
  then show ?case using m1(1) r(1) by (auto simp: x)
qed

text \<open>
  C33. The TTL map does what it promises: any sequence of \<open>GetOrSet\<close> calls on a new map returns,
  without ever meeting a dangling element, the values of an abstract map in which a call first
  forgets the entries not accessed for the time to live. The list order that lets eviction stop
  at the first fresh element, and the table that points into the list, never disagree with it.
\<close>

theorem ttl_map_refines:
  assumes "clocks_ok now cs"
  shows "\<exists>vs m'. GetOrSets cs (NewTTLMap d) = Some (vs, m') \<and> ttl_spec d cs Map.empty vs (ttl_abs m')"
  using GetOrSets_spec [of now "NewTTLMap d" cs] assms by simp

definition at :: "int \<Rightarrow> nat \<Rightarrow> int" where "at t i = t"

text \<open>Time to live 5: the second call finds the value of the first, the third comes too late.\<close>

theorem ttl_map_refines_witness:
  "map_option fst (GetOrSets [(at 0, ''a'', 1), (at 3, ''a'', 2), (at 9, ''a'', 3)] (NewTTLMap 5)) =
     Some [1 :: nat, 1, 3] \<and>
   (\<exists>vs m'. GetOrSets [(at 0, ''a'', 1), (at 3, ''a'', 2), (at 9, ''a'', 3)] (NewTTLMap 5) = Some (vs, m') \<and>
     ttl_spec 5 [(at 0, ''a'', 1), (at 3, ''a'', 2), (at 9, ''a'', 3 :: nat)] Map.empty vs (ttl_abs m'))"
proof
  show "map_option fst (GetOrSets [(at 0, ''a'', 1), (at 3, ''a'', 2), (at 9, ''a'', 3)] (NewTTLMap 5)) =
     Some [1 :: nat, 1, 3]"
    by (simp add: GetOrSet_def NewTTLMap_def TTL_get_def TTL_set_def at_def)
  show "\<exists>vs m'. GetOrSets [(at 0, ''a'', 1), (at 3, ''a'', 2), (at 9, ''a'', 3)] (NewTTLMap 5) = Some (vs, m') \<and>
     ttl_spec 5 [(at 0, ''a'', 1), (at 3, ''a'', 2), (at 9, ''a'', 3 :: nat)] Map.empty vs (ttl_abs m')"
    by (rule ttl_map_refines [of 0]) (auto simp: at_def mono_def)
qed

section \<open>RateLimit\<close>

text \<open>
  The limiter of \<open>golang.org/x/time/rate\<close> is a parameter: a new one, \<open>Reserve\<close> with the delay of
  its reservation (\<open>None\<close> is \<open>InfDuration\<close>) and \<open>Cancel\<close>. The map holds pointers to limiters, which
  \<open>rl_lims\<close> resolves. Durations are in nanoseconds.
\<close>

record 'l rate_api =
  NewLimiter :: 'l
  Reserve :: "int \<Rightarrow> 'l \<Rightarrow> int option \<times> 'l"
  Cancel :: "int \<Rightarrow> 'l \<Rightarrow> 'l"

record 'l rate_state =
  ipLimiterMap :: "(ip_addr, nat) ttl_map"
  rl_lims :: "nat \<rightharpoonup> 'l"
  rl_fresh :: nat

definition RateLimit_ttl :: "int \<Rightarrow> int \<Rightarrow> int" where
  "RateLimit_ttl every burst = (if burst > 1 then burst * every else every)"

definition RateLimit_new :: "int \<Rightarrow> int \<Rightarrow> 'l rate_state" where
  "RateLimit_new every burst =
     \<lparr>ipLimiterMap = NewTTLMap (RateLimit_ttl every burst), rl_lims = Map.empty, rl_fresh = 0\<rparr>"

text \<open>\<open>itoa\<close> prints an integer; the seconds are rounded up.\<close>

definition retry_after :: "int \<Rightarrow> int" where
  "retry_after delay = - ((- delay) div 1000000000)"

definition too_many :: "(int \<Rightarrow> string) \<Rightarrow> int option \<Rightarrow> rw_call list" where
  "too_many itoa delay =
     (case delay of Some d \<Rightarrow> [SetHeader ''Retry-After'' (itoa (retry_after d))] | None \<Rightarrow> []) @
     http_Error (ascii ''rate limit exceeded'') StatusTooManyRequests"

text \<open>
  One request: the calls of the refusal, or \<open>None\<close> when the wrapped handler runs; \<open>now\<close> is the
  time at which the reservation is made and \<open>later\<close> that of its cancellation.
\<close>

definition RateLimit_request ::
  "'l rate_api \<Rightarrow> (int \<Rightarrow> string) \<Rightarrow> (nat \<Rightarrow> int) \<Rightarrow> int \<Rightarrow> int \<Rightarrow> ip_addr \<Rightarrow> 'l rate_state \<Rightarrow>
   (rw_call list option \<times> nat \<times> 'l rate_state) option" where
  "RateLimit_request api itoa clock now later ip s =
     do { (p, m) \<leftarrow> GetOrSet clock ip (rl_fresh s) (ipLimiterMap s);
          let s = (if p = rl_fresh s
                   then s\<lparr>rl_lims := (rl_lims s)(p \<mapsto> NewLimiter api), rl_fresh := Suc (rl_fresh s)\<rparr> else s)
                  \<lparr>ipLimiterMap := m\<rparr>;
          l \<leftarrow> rl_lims s p;
          (let (delay, l') = Reserve api now l
           in if delay = None \<or> 0 < the delay
              then Some (Some (too_many itoa delay), p, s\<lparr>rl_lims := (rl_lims s)(p \<mapsto> Cancel api later l')\<rparr>)
              else Some (None, p, s\<lparr>rl_lims := (rl_lims s)(p \<mapsto> l')\<rparr>)) }"

text \<open>
  A limiter is forgotten only after the time to live: as long as the clock has not moved that
  far past the last request of an address, a request of any address leaves its limiter in the
  map, and a request of its own uses it.
\<close>

lemma RateLimit_keeps_limiter:
  assumes "mono clock" and "ttl_ok (clock 0) (ipLimiterMap s)"
    and "ttl_abs (ipLimiterMap s) ip = Some (p, t)" and "\<And>j. clock j - t < ttl (ipLimiterMap s)"
    and "RateLimit_request api itoa clock now later ip' s = Some (resp, p', s')"
  shows "(ip' = ip \<longrightarrow> p' = p) \<and> (\<exists>t'. ttl_abs (ipLimiterMap s') ip = Some (p, t'))"
proof -
  from GetOrSet_live [OF assms(1,2), of ip' "rl_fresh s"] obtain v m c j where
    g: "GetOrSet clock ip' (rl_fresh s) (ipLimiterMap s) = Some (v, m)"
      "v = (case live (ttl (ipLimiterMap s)) (clock c) (ttl_abs (ipLimiterMap s)) ip' of Some (w, _) \<Rightarrow> w | None \<Rightarrow> rl_fresh s)"
      "ttl_abs m = (live (ttl (ipLimiterMap s)) (clock c) (ttl_abs (ipLimiterMap s)))(ip' \<mapsto> (v, clock j))" by blast
  have kept: "live (ttl (ipLimiterMap s)) (clock c) (ttl_abs (ipLimiterMap s)) ip = Some (p, t)"
    using assms(3) assms(4) [of c] by (simp add: live_def)
  have "p' = v \<and> ipLimiterMap s' = m"
    using assms(5) g(1)
    by (auto simp: RateLimit_request_def Let_def bind_eq_Some_conv case_prod_beta split: if_splits)
  then show ?thesis using g(2,3) kept by auto
qed

end
