(* ===== verification/Registar_Main.thy ===== *)
theory Registar_Main
  imports Admin_Panel Http_Static TTL_Map
begin

text \<open>
  How the registar is put together: the router of \<^verbatim>\<open>internal/registar/server.go\<close>, the configuration
  and the routes of \<^verbatim>\<open>cmd/registar/main.go\<close>, and the certificates of \<^verbatim>\<open>internal/cert/\<close> that it serves with
  when it signs its own. Reading the environment is a parameter, as are the pages behind the routes.
\<close>

section \<open>Router of the registar\<close>

definition headerToken :: string where "headerToken = ''Token''"

datatype endpoint = HostEndpoint | JoinEndpoint | RelayEndpoint string

text \<open>The path of an endpoint; a relay path has one non-empty segment.\<close>

definition endpoint_of :: "string \<Rightarrow> endpoint option" where
  "endpoint_of p =
     (if p = ''/host'' then Some HostEndpoint
      else if p = ''/join'' then Some JoinEndpoint
      else map_option RelayEndpoint (relay_segment p))"

text \<open>
  \<open>run\<close> stands for the handlers of the server with the key they take from the context; \<open>other\<close>
  for what the surrounding router does with requests that no pattern of this one matches.
\<close>

definition NewRouter ::
  "(endpoint \<Rightarrow> key \<Rightarrow> http_request \<Rightarrow> rw_call list) \<Rightarrow> (err \<Rightarrow> bytes) \<Rightarrow> bytes \<Rightarrow> http_handler \<Rightarrow> http_handler" where
  "NewRouter run errText secret other r ctx =
     (case (if http_method r = ''POST'' then endpoint_of (url_path r) else None) of
        None \<Rightarrow> other r ctx
      | Some ep \<Rightarrow>
          Wrap_mw (\<lambda>r ctx. run ep (fst (KeyFromContext ctx)) r)
            [Some (Authenticate errText secret (TokenFromHeader headerToken))] r ctx)"

lemma NewRouter_runs:
  assumes "http_method r = ''POST''" and "endpoint_of (url_path r) = Some ep"
    and "ParseToken (ascii (http_header r headerToken)) = Inr tok" and "VerifyToken secret tok"
  shows "NewRouter run errText secret other r ctx = run ep (Token_Key tok) r"
  using assms by (simp add: NewRouter_def Authenticate_def TokenFromHeader_def KeyFromContext_def ContextWithKey_def)

section \<open>Configuration\<close>

text \<open>\<open>strings.TrimSpace\<close> on code points below 256.\<close>

definition is_space :: "char \<Rightarrow> bool" where
  "is_space c \<longleftrightarrow> (of_char c :: nat) \<in> {9, 10, 11, 12, 13, 32, 133, 160}"

definition TrimSpace :: "string \<Rightarrow> string" where
  "TrimSpace s = rev (dropWhile is_space (rev (dropWhile is_space s)))"

record config =
  SecretFromFile :: string
  cfg_Secret :: string
  Admin_SecretFromFile :: string
  Admin_Secret :: string
  Admin_ScrapeInterval :: int
  RateLimit_Every :: int
  RateLimit_Burst :: int
  Cert_Domains :: "string list"
  Cert_SelfSigned :: bool
  Cert_Dir :: string
  HTTP_Listen :: string
  HTTPS_Listen :: string
  AdvertiseHTTP3Port :: int
  RedirectPort :: int
  LogLevel :: int

text \<open>\<open>parseConfig\<close>: \<open>raw\<close> is what \<open>env.Parse\<close> gives; the program ends where the result is \<open>None\<close>.\<close>

definition parseConfig :: "config option \<Rightarrow> config option" where
  "parseConfig raw =
     do { cfg \<leftarrow> raw;
          (let cfg = cfg\<lparr>SecretFromFile := TrimSpace (SecretFromFile cfg), cfg_Secret := TrimSpace (cfg_Secret cfg)\<rparr>;
               cfg = (if SecretFromFile cfg \<noteq> [] then cfg\<lparr>cfg_Secret := SecretFromFile cfg\<rparr> else cfg);
               cfg = cfg\<lparr>Admin_SecretFromFile := TrimSpace (Admin_SecretFromFile cfg),
                         Admin_Secret := TrimSpace (Admin_Secret cfg)\<rparr>
           in if Admin_SecretFromFile cfg = [] \<and> Admin_Secret cfg = [] then None
              else Some (if Admin_SecretFromFile cfg \<noteq> []
                         then cfg\<lparr>Admin_Secret := Admin_SecretFromFile cfg\<rparr> else cfg)) }"

lemma parseConfig_admin_secret: "parseConfig raw = Some cfg \<Longrightarrow> Admin_Secret cfg \<noteq> []"
  by (auto simp: parseConfig_def Let_def bind_eq_Some_conv split: if_splits)

section \<open>Routes of the registar\<close>

datatype main_page = HealthPage | StaticFile string | AdminP admin_page | LandingP

definition healthCheck :: "rw_call list" where
  "healthCheck =
     [SetHeader ''Cache-Control'' ''no-store'', SetHeader ''Content-Type'' ''text/plain; charset=utf-8'',
      WriteHeader StatusOK]"

definition moved_to :: "string \<Rightarrow> rw_call list" where
  "moved_to p = [SetHeader ''Location'' p, WriteHeader 301]"

text \<open>
  \<open>addHealthCheck\<close> and \<open>addAdmin\<close> on one mux: the most specific pattern decides; a subtree
  pattern redirects the path without its last slash; \<open>StripPrefix\<close> takes the prefix off.
\<close>

definition addAdmin :: "bytes \<Rightarrow> http_request \<Rightarrow> rw_call list + main_page" where
  "addAdmin secret r =
     (let p = url_path r; get = (http_method r = ''GET'' \<or> http_method r = ''HEAD'')
      in if p = ''/-/health'' \<and> get then Inr HealthPage
         else if take 8 p = ''/static/'' \<and> get then Inr (StaticFile (drop 7 p))
         else if p = ''/static'' \<and> get then Inl (moved_to ''/static/'')
         else if take 9 p = ''/-/admin/'' then
           AdminRoutes secret Inl (\<lambda>pg _. Inr (AdminP pg)) (r\<lparr>url_path := drop 8 p\<rparr>)
         else if p = ''/-/admin'' then Inl (moved_to ''/-/admin/'')
         else if get then Inr LandingP
         else Inl (SetHeader ''Allow'' ''GET, HEAD'' # http_Error (ascii ''Method Not Allowed'') StatusMethodNotAllowed))"

text \<open>
  The handler of the HTTP/3 server, \<open>Wrap(router, RateLimit, LogRequests, AllowHosts)\<close>, from the
  point where the rate limiter lets a request through; logging changes no response.
\<close>

definition registar_handler ::
  "(endpoint \<Rightarrow> key \<Rightarrow> http_request \<Rightarrow> rw_call list) \<Rightarrow> (err \<Rightarrow> bytes) \<Rightarrow> (main_page \<Rightarrow> http_request \<Rightarrow> rw_call list) \<Rightarrow>
   config \<Rightarrow> (http_request \<Rightarrow> string) \<Rightarrow> http_handler" where
  "registar_handler run errText page cfg hostOf =
     Wrap_mw
       (NewRouter run errText (ascii (cfg_Secret cfg))
         (\<lambda>r _. case addAdmin (ascii (Admin_Secret cfg)) r of Inl cs \<Rightarrow> cs | Inr pg \<Rightarrow> page pg r))
       [None, None, Some (AllowHosts (Cert_Domains cfg) hostOf)]"

section \<open>Certificates of its own\<close>

text \<open>
  \<open>cert.NewCA\<close>, \<open>cert.NewCert\<close> and \<open>NewIPCert\<close>, with the certificates of the session authority;
  \<open>addYear\<close> is \<open>AddDate(1, 0, 0)\<close>.
\<close>

definition cert_NewCA :: "(int \<Rightarrow> int) \<Rightarrow> ca_env \<Rightarrow> err + (cert \<times> nat)" where
  "cert_NewCA addYear env =
     (case rand_serial env of
        Inl e \<Rightarrow> Inl (Wrap ''generate serial number'' e)
      | Inr ser \<Rightarrow>
          (case gen_key env of
             Inl e \<Rightarrow> Inl (Wrap ''generate private key'' e)
           | Inr k \<Rightarrow>
               (case create_err env of
                  Some e \<Rightarrow> Inl (Wrap ''create certificate'' e)
                | None \<Rightarrow>
                    (case parse_err env of
                       Some e \<Rightarrow> Inl (Wrap ''parse certificate'' e)
                     | None \<Rightarrow>
                         Inr (\<lparr>serial = ser, notBefore = now_before env, notAfter = addYear (now_after env),
                               certSign = True, extClientAuth = True, extServerAuth = True,
                               subject = ''Star Root CA'', sans = [], pub = k, issuer = ''Star Root CA'', signer = k\<rparr>, k)))))"

definition leaf_cert :: "cert \<Rightarrow> nat \<Rightarrow> nat \<Rightarrow> string \<Rightarrow> string list \<Rightarrow> nat \<Rightarrow> ca_env \<Rightarrow> cert" where
  "leaf_cert ca caKey ser subj names k env =
     \<lparr>serial = ser, notBefore = now_before env, notAfter = now_after env + 3 * hour, certSign = False,
      extClientAuth = True, extServerAuth = True, subject = subj, sans = names, pub = k,
      issuer = subject ca, signer = caKey\<rparr>"

definition cert_NewCert :: "cert \<Rightarrow> nat \<Rightarrow> csr \<Rightarrow> ca_env \<Rightarrow> err + cert" where
  "cert_NewCert ca caKey req env =
     (case csr_sig req of
        Some e \<Rightarrow> Inl (Wrap ''check signature'' e)
      | None \<Rightarrow>
          (case rand_serial env of
             Inl e \<Rightarrow> Inl (Wrap ''generate serial number'' e)
           | Inr ser \<Rightarrow>
               (case create_err env of
                  Some e \<Rightarrow> Inl (Wrap ''create certificate'' e)
                | None \<Rightarrow> Inr (leaf_cert ca caKey ser (csr_subject req) (csr_sans req) (csr_pub req) env))))"

definition cert_NewIPCert :: "cert \<Rightarrow> nat \<Rightarrow> nat \<Rightarrow> string list \<Rightarrow> ca_env \<Rightarrow> err + cert" where
  "cert_NewIPCert ca caKey pubKey ips env =
     (case rand_serial env of
        Inl e \<Rightarrow> Inl (Wrap ''generate serial number'' e)
      | Inr ser \<Rightarrow>
          (case create_err env of
             Some e \<Rightarrow> Inl (Wrap ''create certificate'' e)
           | None \<Rightarrow> Inr (leaf_cert ca caKey ser [] ips pubKey env)))"

text \<open>\<open>selfSigned\<close>: a CA, its certificate written out, a key and a request of its own.\<close>

record self_env =
  se_ca :: ca_env
  se_write :: error
  se_key :: "err + nat"
  se_request :: error
  se_parse :: error
  se_cert :: ca_env

definition selfSigned :: "(int \<Rightarrow> int) \<Rightarrow> string list \<Rightarrow> self_env \<Rightarrow> err + (cert \<times> cert)" where
  "selfSigned addYear domains env =
     (case cert_NewCA addYear (se_ca env) of
        Inl e \<Rightarrow> Inl (Wrap ''create CA'' e)
      | Inr (ca, caKey) \<Rightarrow>
          (case se_write env of Some e \<Rightarrow> Inl (Wrap ''write CA certificate'' e) | None \<Rightarrow>
           case se_key env of Inl e \<Rightarrow> Inl (Wrap ''create server private key'' e) | Inr k \<Rightarrow>
           case se_request env of Some e \<Rightarrow> Inl (Wrap ''create certificate request'' e) | None \<Rightarrow>
           case se_parse env of Some e \<Rightarrow> Inl (Wrap ''parse certificate request'' e) | None \<Rightarrow>
           (case cert_NewCert ca caKey \<lparr>csr_sig = None, csr_subject = ''Star'', csr_sans = domains, csr_pub = k\<rparr> (se_cert env) of
              Inl e \<Rightarrow> Inl (Wrap ''create server cert'' e)
            | Inr c \<Rightarrow> Inr (ca, c))))"

text \<open>
  The certificate of the server names its domains and is signed by the CA that was written out,
  but it expires three hours after the start, and nothing renews it.
\<close>

lemma selfSigned_cert:
  assumes "selfSigned addYear domains env = Inr (ca, c)"
  shows "sans c = domains \<and> signer c = pub ca \<and> issuer c = subject ca \<and> certSign ca \<and>
    notAfter c = now_after (se_cert env) + 3 * hour"
  using assms
  by (auto simp: selfSigned_def cert_NewCA_def cert_NewCert_def leaf_cert_def split: sum.splits option.splits)

section \<open>Properties\<close>

text \<open>
  C38. No admin page without the admin password: with every configuration the registar starts with,
  a request reaches a page below \<open>/-/admin/\<close> only when its basic authentication carries the
  configured secret, which is not empty. The routers above take no request away from this check.
\<close>

theorem registar_admin_guarded:
  assumes "parseConfig raw = Some cfg" and "addAdmin (ascii (Admin_Secret cfg)) r = Inr (AdminP pg)"
  shows "(\<exists>user. BasicAuth r = Some (user, ascii (Admin_Secret cfg))) \<and> Admin_Secret cfg \<noteq> [] \<and>
    take 9 (url_path r) = ''/-/admin/''"
proof -
  let ?s = "ascii (Admin_Secret cfg)" and ?r = "r\<lparr>url_path := drop 8 (url_path r)\<rparr>"
  have secret: "Admin_Secret cfg \<noteq> []" using assms(1) by (rule parseConfig_admin_secret)
  then have "?s \<noteq> []" by (simp add: ascii_def)
  have path: "take 9 (url_path r) = ''/-/admin/''"
    and run: "AdminRoutes ?s Inl (\<lambda>pg _. Inr (AdminP pg)) ?r = Inr (AdminP pg)"
    using assms(2) by (auto simp: addAdmin_def Let_def split: if_splits)
  have "BasicAuth ?r = BasicAuth r" by (simp add: BasicAuth_def)
  with run \<open>?s \<noteq> []\<close> have "\<exists>user. BasicAuth r = Some (user, ?s)"
    by (cases "BasicAuth r") (auto simp: AdminRoutes_def basicAuth_def split: if_splits)
  with secret path show ?thesis by blast
qed

definition sample_raw :: config where
  "sample_raw =
     \<lparr>SecretFromFile = [], cfg_Secret = ''s3cret'', Admin_SecretFromFile = [], Admin_Secret = '' pw '',
      Admin_ScrapeInterval = 5000000000, RateLimit_Every = 100000000, RateLimit_Burst = 10, Cert_Domains = [''localhost''],
      Cert_SelfSigned = False, Cert_Dir = ''certs'', HTTP_Listen = '':80'', HTTPS_Listen = '':443'',
      AdvertiseHTTP3Port = 443, RedirectPort = 443, LogLevel = 0\<rparr>"

text \<open>\<open>Basic eDpwdw==\<close> is the user \<open>x\<close> with the password \<open>pw\<close>.\<close>

definition sample_request :: http_request where
  "sample_request =
     \<lparr>http_method = ''GET'', url_path = ''/-/admin/stats'',
      http_header = (\<lambda>h. if h = ''Authorization'' then ''Basic eDpwdw=='' else [])\<rparr>"

lemma std_alphabet_list: "std_alphabet =
  [65, 66, 67, 68, 69, 70, 71, 72, 73, 74, 75, 76, 77, 78, 79, 80, 81, 82, 83, 84, 85, 86, 87, 88, 89, 90,
   97, 98, 99, 100, 101, 102, 103, 104, 105, 106, 107, 108, 109, 110, 111, 112, 113, 114, 115, 116, 117, 118,
   119, 120, 121, 122, 48, 49, 50, 51, 52, 53, 54, 55, 56, 57, 43, 47]"
  by (simp add: std_alphabet_def ascii_def)

lemma sample_decode: "b64_decode std_alphabet [101, 68, 112, 119, 100, 119, 61, 61] = Inr [120, 58, 112, 119]"
proof -
  have "digits 256 3 7879280 = [120, 58, 112]" "digits 256 3 7798784 = [119, 0, 0]"
    by (simp_all add: numeral_3_eq_3)
  moreover have "replicate 2 (0 :: nat) = [0, 0]" by (simp add: numeral_2_eq_2)
  ultimately show ?thesis unfolding std_alphabet_list
    by (simp add: b64_decode_def strip_newlines_def is_newline_def pad_char_def b64_pack_def undigits_def
        to_bytes_def)
qed

lemma sample_auth: "BasicAuth sample_request = Some (ascii ''x'', ascii ''pw'')"
proof -
  have "ascii ''Basic eDpwdw=='' = [66, 97, 115, 105, 99, 32, 101, 68, 112, 119, 100, 119, 61, 61]"
    by (simp add: ascii_def)
  then show ?thesis
    by (simp add: BasicAuth_def sample_request_def sample_decode ascii_lower_def) (simp add: ascii_def)
qed

theorem registar_admin_guarded_witness:
  "\<exists>cfg user. parseConfig (Some sample_raw) = Some cfg \<and> Admin_Secret cfg = ''pw'' \<and>
     BasicAuth sample_request = Some (user, ascii (Admin_Secret cfg))"
proof -
  let ?cfg = "sample_raw\<lparr>Admin_Secret := ''pw''\<rparr>"
  have cfg: "parseConfig (Some sample_raw) = Some ?cfg"
    by (simp add: parseConfig_def sample_raw_def TrimSpace_def is_space_def)
  have "BasicAuth (sample_request\<lparr>url_path := ''/stats''\<rparr>) = Some (ascii ''x'', ascii ''pw'')"
    using sample_auth by (simp add: BasicAuth_def)
  then have "addAdmin (ascii (Admin_Secret ?cfg)) sample_request = Inr (AdminP StatsPage)"
    by (simp add: addAdmin_def AdminRoutes_def basicAuth_def sample_request_def)
  from registar_admin_guarded [OF cfg this] show ?thesis using cfg by auto
qed

end
