(* ===== verification/Registar_Serve.thy ===== *)
theory Registar_Serve
  imports Registar_Main Registar_Client Registar_Properties
begin

text \<open>
  How requests reach the registar, in \<^verbatim>\<open>internal/registar/server.go\<close>: the gate of \<open>NewRouter\<close> and the
  handler \<open>Register\<close> from its first to its last line. What quic-go, http3 and the JSON decoder
  answer is an argument.
\<close>

section \<open>The gate\<close>

lemma Authenticate_issued:
  assumes "ParseToken (tokener r) = Inr (NewToken k secret)"
  shows "Authenticate errText secret tokener handler r ctx = handler r (ContextWithKey ctx k)"
  using assms by (simp add: Authenticate_def verify_NewToken Token_Key_NewToken)

lemma Authenticate_refused:
  assumes "\<And>k. ParseToken (tokener r) \<noteq> Inr (NewToken k secret)"
  shows "\<exists>m. Authenticate errText secret tokener handler r ctx = http_Error m StatusUnauthorized"
proof (cases "ParseToken (tokener r)")
  case (Inr t)
  then have "\<not> VerifyToken secret t"
    using assms VerifyToken_NewToken [OF ParseToken_length, of _ t secret] by metis
  with Inr show ?thesis by (auto simp: Authenticate_def)
qed (auto simp: Authenticate_def)

text \<open>
  C8. Who reaches the registar: a request to one of its endpoints runs the server exactly when its
  \<open>Token\<close> header reads as a token that \<open>NewToken\<close> issues with the server's secret, and then with the
  key of that token; any other request gets 401 and changes nothing. A client that sends the text
  of its token, as \<open>register\<close> does, gets in with its own key.
\<close>
theorem router_gate:
  assumes "http_method r = ''POST''" and "endpoint_of (url_path r) = Some ep"
  shows "((\<exists>k. ParseToken (ascii (http_header r headerToken)) = Inr (NewToken k secret) \<and>
        NewRouter run errText secret other r ctx = run ep k r) \<or>
      (\<forall>k. ParseToken (ascii (http_header r headerToken)) \<noteq> Inr (NewToken k secret)) \<and>
        (\<exists>m. NewRouter run errText secret other r ctx = http_Error m 401)) \<and>
    (\<forall>k. ascii (http_header r headerToken) = Token_String (NewToken k secret) \<longrightarrow>
        NewRouter run errText secret other r ctx = run ep k r)"
proof -
  have router: "NewRouter run errText secret other r ctx =
      Authenticate errText secret (TokenFromHeader headerToken) (\<lambda>r ctx. run ep (fst (KeyFromContext ctx)) r) r ctx"
    using assms by (simp add: NewRouter_def)
  have runs: "NewRouter run errText secret other r ctx = run ep k r"
    if "ParseToken (ascii (http_header r headerToken)) = Inr (NewToken k secret)" for k
    unfolding router using that
    by (subst Authenticate_issued [of _ _ k]) (simp_all add: TokenFromHeader_def KeyFromContext_def ContextWithKey_def)
  show ?thesis
  proof (cases "\<exists>k. ParseToken (ascii (http_header r headerToken)) = Inr (NewToken k secret)")
    case True
    then show ?thesis using runs parse_NewToken by metis
  next
    case False
    then have "\<exists>m. NewRouter run errText secret other r ctx = http_Error m StatusUnauthorized"
      unfolding router by (intro Authenticate_refused) (simp add: TokenFromHeader_def)
    then show ?thesis using False parse_NewToken by (metis StatusUnauthorized_def)
  qed
qed

definition byte_text :: "bytes \<Rightarrow> string" where
  "byte_text bs = map (\<lambda>b. char_of (unat b)) bs"

lemma ascii_byte_text: "ascii (byte_text bs) = bs"
proof -
  have "of_nat (of_char (char_of (unat b) :: char)) = b" for b :: u8
    by (simp add: unat_u8_bound)
  then show ?thesis by (simp add: ascii_def byte_text_def comp_def)
qed

definition host_request :: "key \<Rightarrow> bytes \<Rightarrow> http_request" where
  "host_request k secret = \<lparr>http_method = ''POST'', url_path = ''/host'',
     http_header = (\<lambda>_. byte_text (Token_String (NewToken k secret)))\<rparr>"

theorem router_gate_witness:
  "NewRouter (\<lambda>ep k r. [SetHeader ''X-Key'' (byte_text (Key_String k))]) (\<lambda>_. []) [1, 2] (\<lambda>_ _. [])
     (host_request (Key 1 2 3 4 5) [1, 2]) \<lparr>ctx_key = None\<rparr> =
   [SetHeader ''X-Key'' (byte_text (Key_String (Key 1 2 3 4 5)))]"
  using router_gate [of "host_request (Key 1 2 3 4 5) [1, 2]" HostEndpoint "[1, 2]"
      "\<lambda>ep k r. [SetHeader ''X-Key'' (byte_text (Key_String k))]" "\<lambda>_. []" "\<lambda>_ _. []" "\<lparr>ctx_key = None\<rparr>"]
  by (simp add: host_request_def endpoint_of_def ascii_byte_text)

section \<open>Register\<close>

text \<open>
  The whole handler, for a request on stream \<open>str\<close>. \<open>decoded\<close> is what the JSON decoder gives, with no
  certificate request when the field is missing; \<open>conn\<close> is the QUIC connection in the context of
  the request with its remote address; \<open>w\<close> the response writer. Writing the response sends 200, so
  an error after it no longer changes the status.
\<close>

datatype handler_result = Responded int | HandlerPanics | Overtaken

definition Register_handler ::
  "key \<Rightarrow> bool \<Rightarrow> err + csr option \<times> addr_port \<Rightarrow> error \<Rightarrow> (nat \<times> addr_port) option \<Rightarrow> stream rw_shape \<Rightarrow>
   ca_env \<Rightarrow> ca_env \<Rightarrow> stream \<Rightarrow> server \<Rightarrow> handler_result \<times> server" where
  "Register_handler key isHost decoded encodeErr conn w caenv env str s =
     (case decoded of
        Inl e \<Rightarrow> (Responded StatusBadRequest, s)
      | Inr (None, _) \<Rightarrow>
          (case sessionsCA (caAuthority s) key of
             Some _ \<Rightarrow> (HandlerPanics, s)
           | None \<Rightarrow>
               (case NewSessionCA (root (caAuthority s)) caenv of
                  Inl _ \<Rightarrow> (Responded StatusInternalServerError, s)
                | Inr sca \<Rightarrow> (HandlerPanics, s\<lparr>caAuthority := (caAuthority s)\<lparr>sessionsCA :=
                    (sessionsCA (caAuthority s))(key \<mapsto> sca)\<rparr>\<rparr>)))
      | Inr (Some csr, private) \<Rightarrow>
          (case conn of
             None \<Rightarrow>
               (case NewSessionCert key csr caenv env (caAuthority s) of
                  (Inl _, a) \<Rightarrow> (Responded StatusInternalServerError, s\<lparr>caAuthority := a\<rparr>)
                | (Inr _, a) \<Rightarrow>
                    (Responded (if encodeErr = None then StatusOK else StatusInternalServerError), s\<lparr>caAuthority := a\<rparr>))
           | Some (c, remote) \<Rightarrow>
               (case Register str key isHost c \<lparr>Public = remote, Private = private\<rparr> csr caenv env s of
                  (st, s1) \<Rightarrow>
                    if st \<noteq> StatusOK then (Responded st, s1)
                    else if encodeErr \<noteq> None then (Responded StatusInternalServerError, s\<lparr>caAuthority := caAuthority s1\<rparr>)
                    else
                      (let q = the (reqs s1 str); s2 = registerConn str q s1; q2 = the (reqs s2 str) in
                       case HTTPStream w of
                         Inl _ \<Rightarrow> (HandlerPanics, s2)
                       | Inr _ \<Rightarrow> (Overtaken, if isHost then registerHost str q2 s2 else connectPeer_lookup str q2 s2)))))"

text \<open>A request that gets no further than the session CA is a step of the server.\<close>

lemma refused_step:
  assumes "reqs s str = None" and "ParseToken txt = Inr tok" and "VerifyToken (srv_secret s) tok"
  shows "server_step s (s\<lparr>caAuthority := snd (NewSessionCert (Token_Key tok) csr caenv env (caAuthority s))\<rparr>)"
proof -
  let ?bad = "csr\<lparr>csr_sig := Some (Leaf (Opaque []))\<rparr>"
  obtain e where "NewSessionCert (Token_Key tok) ?bad caenv env (caAuthority s) =
      (Inl e, snd (NewSessionCert (Token_Key tok) csr caenv env (caAuthority s)))"
    by (cases "sessionsCA (caAuthority s) (Token_Key tok)"; cases "NewSessionCA (root (caAuthority s)) caenv")
      (auto simp: NewSessionCert_def issue_with_def NewCert_def)
  then have "Register str (Token_Key tok) True 0 a ?bad caenv env s =
      (StatusInternalServerError, s\<lparr>caAuthority := snd (NewSessionCert (Token_Key tok) csr caenv env (caAuthority s))\<rparr>)" for a
    by (simp add: Register_def)
  then show ?thesis by (rule server_step.request [OF assms])
qed

lemma nil_csr_step:
  assumes "reqs s str = None" and "ParseToken txt = Inr tok" and "VerifyToken (srv_secret s) tok"
    and "Register_handler (Token_Key tok) isHost (Inr (None, pa)) encodeErr conn w caenv env str s = (res, s')"
  shows "server_step\<^sup>*\<^sup>* s s' \<and> res \<noteq> Overtaken \<and> hosts s' = hosts s"
proof -
  let ?a = "snd (NewSessionCert (Token_Key tok) (undefined :: csr) caenv env (caAuthority s))"
  have "s' = s \<or> s' = s\<lparr>caAuthority := ?a\<rparr>" and "res \<noteq> Overtaken" and "hosts s' = hosts s"
    using assms(4) by (auto simp: Register_handler_def NewSessionCert_def split: option.splits sum.splits)
  then show ?thesis using refused_step [OF assms(1,2,3)] by blast
qed

text \<open>Where a registration stands after its handler took the stream over.\<close>

definition taken_over :: "key \<Rightarrow> bool \<Rightarrow> server \<Rightarrow> phase" where
  "taken_over key isHost s =
     (case hosts s key of
        None \<Rightarrow> if isHost then Hosting else Closed errCodeHostNotFound
      | Some h \<Rightarrow> if isHost then Closed errCodeHostAlreadyRegistered else Found h)"

lemma overtaken_steps:
  assumes "reqs s str = Some q" and "q_phase q = Issued"
  defines "s2 \<equiv> registerConn str q s"
  defines "q2 \<equiv> the (reqs s2 str)"
  defines "s3 \<equiv> (if q_host q then registerHost str q2 s2 else connectPeer_lookup str q2 s2)"
  shows "server_step\<^sup>*\<^sup>* s s3" and "q_conn q \<in> registeredConns s3"
    and "reqs s3 str = Some (q\<lparr>q_phase := taken_over (q_key q) (q_host q) s\<rparr>)"
proof -
  have q2: "reqs s2 str = Some q2" "q2 = q\<lparr>q_phase := Registered\<rparr>" "hosts s2 = hosts s"
    using assms(1) unfolding q2_def s2_def by (simp_all add: registerConn_def)
  have "server_step s s2" unfolding s2_def using assms(1,2) by (rule server_step.register_conn)
  moreover have "server_step s2 s3"
    unfolding s3_def using server_step.register_host [OF q2(1)] server_step.lookup [OF q2(1)] q2(2) by simp
  ultimately show "server_step\<^sup>*\<^sup>* s s3" by simp
  have "q_conn q \<in> registeredConns s2" by (simp add: s2_def registerConn_def)
  then show "q_conn q \<in> registeredConns s3"
    by (auto simp: s3_def registerHost_def connectPeer_lookup_def split: option.split)
  show "reqs s3 str = Some (q\<lparr>q_phase := taken_over (q_key q) (q_host q) s\<rparr>)"
    using q2 by (auto simp: s3_def registerHost_def connectPeer_lookup_def taken_over_def split: option.split)
qed

lemma register_issued_refines:
  assumes "reqs s str = None" and "ParseToken txt = Inr tok" and "VerifyToken (srv_secret s) tok"
    and "NewSessionCert (Token_Key tok) csr caenv env (caAuthority s) = (Inr p, a)"
    and "Register_handler (Token_Key tok) isHost (Inr (Some csr, pa)) None (Some (c, remote)) w caenv env str s = (res, s')"
  shows "server_step\<^sup>*\<^sup>* s s' \<and>
    (if res = Overtaken
     then \<exists>q. reqs s' str = Some q \<and> q_key q = Token_Key tok \<and> q_conn q \<in> registeredConns s' \<and>
       q_phase q = taken_over (Token_Key tok) isHost s
     else hosts s' = hosts s)"
proof -
  let ?addrs = "\<lparr>Public = remote, Private = pa\<rparr>"
  define q where "q = \<lparr>q_key = Token_Key tok, q_host = isHost, q_conn = c, q_addrs = ?addrs, q_ca = fst p,
    q_cert = snd p, q_phase = Issued\<rparr>"
  define s1 where "s1 = s\<lparr>caAuthority := a, reqs := (reqs s)(str \<mapsto> q)\<rparr>"
  have reg: "Register str (Token_Key tok) isHost c ?addrs csr caenv env s = (StatusOK, s1)"
    using assms(4) by (simp add: Register_def s1_def q_def case_prod_beta)
  have step1: "server_step s s1" by (rule server_step.request [OF assms(1,2,3) reg])
  have q: "reqs s1 str = Some q" "q_phase q = Issued" "q_host q = isHost" "hosts s1 = hosts s"
    by (simp_all add: s1_def q_def)
  show ?thesis
  proof (cases "HTTPStream w")
    case (Inl e)
    with assms(5) reg q have s': "res = HandlerPanics" "s' = registerConn str q s1"
      by (auto simp: Register_handler_def)
    have "server_step s1 s'" unfolding s' using q by (intro server_step.register_conn) simp_all
    then show ?thesis using step1 s' q(4) by (auto simp: registerConn_def)
  next
    case (Inr x)
    with assms(5) reg q have s': "res = Overtaken"
        "s' = (let s2 = registerConn str q s1; q2 = the (reqs s2 str) in
           if q_host q then registerHost str q2 s2 else connectPeer_lookup str q2 s2)"
      by (auto simp: Register_handler_def Let_def)
    have "server_step\<^sup>*\<^sup>* s s'"
      using overtaken_steps(1) [OF q(1,2)] step1 unfolding s' Let_def by simp
    moreover have "q_conn q \<in> registeredConns s'" "reqs s' str = Some (q\<lparr>q_phase := taken_over (q_key q) (q_host q) s1\<rparr>)"
      using overtaken_steps(2,3) [OF q(1,2)] unfolding s' Let_def by simp_all
    moreover have "taken_over (q_key q) (q_host q) s1 = taken_over (Token_Key tok) isHost s"
      by (simp add: taken_over_def s1_def q_def)
    ultimately show ?thesis using s'(1) by (simp add: q_def)
  qed
qed

lemma register_conn_refines:
  assumes "reqs s str = None" and "ParseToken txt = Inr tok" and "VerifyToken (srv_secret s) tok"
    and "Register_handler (Token_Key tok) isHost (Inr (Some csr, pa)) encodeErr (Some (c, remote)) w caenv env str s =
      (res, s')"
  shows "server_step\<^sup>*\<^sup>* s s' \<and>
    (if res = Overtaken
     then \<exists>q. reqs s' str = Some q \<and> q_key q = Token_Key tok \<and> q_conn q \<in> registeredConns s' \<and>
       q_phase q = taken_over (Token_Key tok) isHost s
     else hosts s' = hosts s)"
proof -
  note step = refused_step [OF assms(1,2,3), of csr caenv env]
  obtain r a where cert: "NewSessionCert (Token_Key tok) csr caenv env (caAuthority s) = (r, a)" by (meson surj_pair)
  show ?thesis
  proof (cases "encodeErr = None \<and> (\<exists>p. r = Inr p)")
    case True
    then show ?thesis using register_issued_refines [OF assms(1,2,3)] assms(4) cert by auto
  next
    case False
    with assms(4) cert have "res = Responded 500" "s' = s\<lparr>caAuthority := a\<rparr>"
      by (cases r; auto simp: Register_handler_def Register_def status_defs)+
    then show ?thesis using step cert by simp
  qed
qed

text \<open>
  C13. The handler \<open>Register\<close>, run for a request that passed the gate, is a sequence of steps of the
  server, whichever of its branches it takes. Unless it takes the stream over, the table of hosts
  is as before; when it does, the connection is registered, and the request stands as host, as
  refused (host already registered, host not found) or before the lock of the host it found, as
  the table decides.
\<close>
theorem register_handler_refines:
  assumes "reqs s str = None" and "ParseToken txt = Inr tok" and "VerifyToken (srv_secret s) tok"
    and "Register_handler (Token_Key tok) isHost decoded encodeErr conn w caenv env str s = (res, s')"
  shows "server_step\<^sup>*\<^sup>* s s' \<and>
    (if res = Overtaken
     then \<exists>q. reqs s' str = Some q \<and> q_key q = Token_Key tok \<and> q_conn q \<in> registeredConns s' \<and>
       q_phase q = taken_over (Token_Key tok) isHost s
     else hosts s' = hosts s)"
proof -
  note step = refused_step [OF assms(1,2,3)]
  consider (bad) e where "decoded = Inl e" | (nil) pa where "decoded = Inr (None, pa)"
    | (no_conn) csr pa where "decoded = Inr (Some csr, pa)" "conn = None"
    | (ok) csr pa c remote where "decoded = Inr (Some csr, pa)" "conn = Some (c, remote)"
    by (metis not_Some_eq sum.exhaust surj_pair)
  then show ?thesis
  proof cases
    case bad
    then show ?thesis using assms(4) by (auto simp: Register_handler_def)
  next
    case nil
    then show ?thesis using nil_csr_step [OF assms(1,2,3)] assms(4) by auto
  next
    case no_conn
    then have "s' = s\<lparr>caAuthority := snd (NewSessionCert (Token_Key tok) csr caenv env (caAuthority s))\<rparr>"
        "res \<noteq> Overtaken"
      using assms(4) by (auto simp: Register_handler_def split: prod.splits sum.splits)
    then show ?thesis using step by auto
  next
    case ok
    then show ?thesis using register_conn_refines [OF assms(1,2,3)] assms(4) by auto
  qed
qed

section \<open>Relay\<close>

text \<open>
  The whole handler \<open>Relay\<close> up to its wait, with the connection in the context of the request; where the
  stream cannot be taken over, the stream that is cancelled is nil.
\<close>

definition Relay_handler ::
  "nat option \<Rightarrow> stream rw_shape \<Rightarrow> string \<Rightarrow> stream \<Rightarrow> server \<Rightarrow> handler_result \<times> server" where
  "Relay_handler conn w sid str s =
     (case conn of
        None \<Rightarrow> (Responded StatusInternalServerError, s)
      | Some c \<Rightarrow>
          if c \<notin> registeredConns s then (Responded StatusUnauthorized, s)
          else (case HTTPStream w of
                  Inl _ \<Rightarrow> (HandlerPanics, s)
                | Inr _ \<Rightarrow> (Overtaken, s\<lparr>sessions := Relay_arrive sid str (sessions s)\<rparr>)))"

text \<open>
  It is a step of the server or changes nothing, and only a registered connection gets a stream
  into the relay.
\<close>
lemma relay_handler_refines:
  assumes "arrived (sessions s) str = None" and "Relay_handler conn w sid str s = (res, s')"
  shows "if res = Overtaken
    then server_step s s' \<and> arrived (sessions s') str = Some sid \<and> (\<exists>c. conn = Some c \<and> c \<in> registeredConns s)
    else s' = s"
proof (cases "res = Overtaken")
  case True
  then obtain c where c: "conn = Some c" "c \<in> registeredConns s" "s' = snd (Relay c sid str s)"
    using assms(2) by (auto simp: Relay_handler_def Relay_def split: option.splits if_splits sum.splits)
  have "server_step s s'" unfolding c(3) by (rule relay_request [OF assms(1)])
  then show ?thesis using True c by (auto simp: Relay_def Relay_arrive_def split: option.split)
next
  case False
  then show ?thesis using assms(2) by (auto simp: Relay_handler_def split: option.splits if_splits sum.splits)
qed

text \<open>A first host registers.\<close>

definition first_host :: "handler_result \<times> server" where
  "first_host = Register_handler gameA True (Inr (Some csr0, AddrPort (V4 2) 2)) None (Some (10, AddrPort (V4 1) 1))
     (Unwrapper (Streamer 0)) (env_at 2 0) (env_at 0 0) 0 (NewServer [1] (NewAuthority root0))"

lemma first_host_overtaken: "fst first_host = Overtaken"
  by (simp add: first_host_def Register_handler_def Register_def NewServer_def cert_first Let_def)

theorem register_handler_refines_witness:
  "server_step\<^sup>*\<^sup>* (NewServer [1] (NewAuthority root0)) (snd first_host) \<and>
   (\<exists>q. reqs (snd first_host) 0 = Some q \<and> q_phase q = Hosting)"
proof -
  let ?s = "NewServer [1] (NewAuthority root0)"
  have "Register_handler (Token_Key (NewToken gameA [1])) True (Inr (Some csr0, AddrPort (V4 2) 2)) None
      (Some (10, AddrPort (V4 1) 1)) (Unwrapper (Streamer 0)) (env_at 2 0) (env_at 0 0) 0 ?s =
    (Overtaken, snd first_host)"
    using first_host_overtaken by (simp add: first_host_def Token_Key_NewToken prod_eq_iff)
  from register_handler_refines [OF _ parse_NewToken _ this] show ?thesis
    by (auto simp: verify_NewToken NewServer_def taken_over_def)
qed

end
