(* ===== verification/Client_Requests.thy ===== *)
theory Client_Requests
  imports Registar_Serve P2P_Connector
begin

text \<open>
  The rest of \<^verbatim>\<open>internal/registar/client.go\<close>: the address it dials, the requests it builds
  (\<open>resolvePath\<close>, \<open>register\<close>, the relay request), the certificate request, the TLS configuration between
  peers, and how connections and the joiner are closed. Put against the router and the session
  authority of the server.
\<close>

section \<open>Addresses and paths\<close>

text \<open>A base URL, as far as it is used; \<open>u_port\<close> is empty when the host has none.\<close>

record url =
  u_scheme :: string
  u_hostname :: string
  u_port :: string
  u_path :: string

definition u_host :: "url \<Rightarrow> string" where
  "u_host u = (if u_port u = [] then u_hostname u else JoinHostPort (u_hostname u) (u_port u))"

definition dial_address :: "url \<Rightarrow> string" where
  "dial_address burl = (if u_port burl = [] then JoinHostPort (u_hostname burl) ''https'' else u_host burl)"

definition keep_alive :: "int \<Rightarrow> int" where
  "keep_alive d = (if d \<le> 0 then 10 * 10 ^ 9 else d)"

text \<open>\<open>path.Clean\<close> and \<open>path.Join\<close>: elements between slashes on a stack.\<close>

fun segments :: "string \<Rightarrow> string list" where
  "segments [] = [[]]"
| "segments (c # cs) =
     (if c = CHR ''/'' then [] # segments cs
      else case segments cs of [] \<Rightarrow> [[c]] | s # ss \<Rightarrow> (c # s) # ss)"

definition clean_step :: "bool \<Rightarrow> string list \<Rightarrow> string \<Rightarrow> string list" where
  "clean_step rooted stack s =
     (if s = [] \<or> s = ''.'' then stack
      else if s = ''..'' then
        (if stack \<noteq> [] \<and> hd stack \<noteq> ''..'' then tl stack else if rooted then stack else ''..'' # stack)
      else s # stack)"

fun join_slash :: "string list \<Rightarrow> string" where
  "join_slash [] = []"
| "join_slash [s] = s"
| "join_slash (s # ss) = s @ CHR ''/'' # join_slash ss"

definition path_Clean :: "string \<Rightarrow> string" where
  "path_Clean p =
     (let rooted = (p \<noteq> [] \<and> hd p = CHR ''/'');
          out = join_slash (rev (foldl (clean_step rooted) [] (segments p)))
      in if rooted then CHR ''/'' # out else if out = [] then ''.'' else out)"

definition path_Join :: "string list \<Rightarrow> string" where
  "path_Join es = (let es = filter (\<lambda>e. e \<noteq> []) es in if es = [] then [] else path_Clean (join_slash es))"

text \<open>\<open>resolvePath\<close>: the joined path on the host of the base; it is rooted when the base path is rooted or empty.\<close>

definition resolvePath :: "url \<Rightarrow> string \<Rightarrow> url" where
  "resolvePath burl sub = burl\<lparr>u_path := path_Join [u_path burl, sub]\<rparr>"

section \<open>Requests\<close>

text \<open>The header of a request that carries a token; the body of a registration is sent separately.\<close>

definition token_request :: "url \<Rightarrow> string \<Rightarrow> bytes \<Rightarrow> http_request" where
  "token_request burl sub token =
     \<lparr>http_method = ''POST'', url_path = u_path (resolvePath burl sub),
      http_header = (\<lambda>h. if h = headerToken then byte_text (Token_String token) else [])\<rparr>"

definition register_request :: "url \<Rightarrow> bool \<Rightarrow> bytes \<Rightarrow> http_request" where
  "register_request burl isHost token = token_request burl (if isHost then ''/host'' else ''/join'') token"

definition viaRelay_request :: "url \<Rightarrow> string \<Rightarrow> bytes \<Rightarrow> http_request" where
  "viaRelay_request burl sid token = token_request burl (''/relay/'' @ sid) token"

text \<open>\<open>newCSR\<close>; creating and parsing the request may fail.\<close>

definition newCSR :: "error \<Rightarrow> error \<Rightarrow> nat \<Rightarrow> err + csr" where
  "newCSR createErr parseErr key =
     (case createErr of Some e \<Rightarrow> Inl (Wrap ''create certificate request'' e) | None \<Rightarrow>
      case parseErr of Some e \<Rightarrow> Inl (Wrap ''parse certificate request'' e) | None \<Rightarrow>
        Inr \<lparr>csr_sig = None, csr_subject = ''star-p2p-peer'', csr_sans = [], csr_pub = key\<rparr>)"

section \<open>Closing\<close>

text \<open>What closing does to the two kinds of connection, and to the transport of a joiner.\<close>

datatype quic_call =
    CloseWithError u64 string
  | CancelRead u64
  | CancelWrite u64
  | TransportClose

definition dconn_Close :: "dconn \<Rightarrow> quic_call list" where
  "dconn_Close c =
     (case c of
        P2PConn _ \<Rightarrow> [CloseWithError 0 ''connection closed'']
      | RelayConn _ \<Rightarrow> [CancelRead P2P_Connector.ErrCodeRequestCanceled, CancelWrite P2P_Connector.ErrCodeRequestCanceled])"

definition Joiner_Close :: "quic_call list" where
  "Joiner_Close = [CloseWithError errCodeClientClosed ''joiner closed'', TransportClose]"

section \<open>TLS between peers\<close>

record peer_tls =
  pt_cert :: cert
  pt_key :: nat
  pt_clientAuth :: bool           \<comment> \<open>\<open>RequireAndVerifyClientCert\<close>\<close>
  pt_roots :: "cert list"
  pt_NextProtos :: "string list"
  pt_ServerName :: string
  pt_MinVersion :: nat
  pt_InsecureSkipVerify :: bool

definition tlsConfig :: "cert \<Rightarrow> cert \<Rightarrow> nat \<Rightarrow> peer_tls" where
  "tlsConfig caCert crt privateKey =
     \<lparr>pt_cert = crt, pt_key = privateKey, pt_clientAuth = True, pt_roots = [caCert],
      pt_NextProtos = [''star-p2p-1''], pt_ServerName = ''star'', pt_MinVersion = 0x0304, pt_InsecureSkipVerify = True\<rparr>"

text \<open>
  \<open>Certificate.Verify\<close> for the certificates at hand: signed by a root, directly or through one of
  the intermediates that were sent.
\<close>

definition signed_by :: "cert \<Rightarrow> cert \<Rightarrow> int \<Rightarrow> bool" where
  "signed_by ca c t \<longleftrightarrow> certSign ca \<and> signer c = pub ca \<and> issuer c = subject ca \<and> valid_at ca t \<and> valid_at c t"

definition x509_Verify :: "cert list \<Rightarrow> (cert \<Rightarrow> bool) \<Rightarrow> int \<Rightarrow> cert \<Rightarrow> cert list \<Rightarrow> error" where
  "x509_Verify roots usage t leaf inters =
     (if usage leaf \<and> (list_ex (\<lambda>r. signed_by r leaf t) roots \<or>
          list_ex (\<lambda>i. signed_by i leaf t \<and> list_ex (\<lambda>r. signed_by r i t) roots) inters)
      then None else Some (Leaf (Opaque ''x509: certificate signed by unknown authority'')))"

text \<open>
  A handshake as \<open>crypto/tls\<close> documents it: the accepting side verifies the certificate of the
  dialling side against \<open>ClientCAs\<close> and passes the chain to \<open>VerifyPeerCertificate\<close>; the dialling
  side skips its own check and passes no chain. Both prove possession of their key and need
  a protocol in common. Certificates travel in the encoding \<open>raw\<close> that \<open>parse\<close> reads.
\<close>

definition holds_key :: "peer_tls \<Rightarrow> bool" where
  "holds_key p \<longleftrightarrow> pub (pt_cert p) = pt_key p"

definition server_accepts :: "(bytes \<Rightarrow> err + cert) \<Rightarrow> peer_tls \<Rightarrow> bytes \<Rightarrow> cert \<Rightarrow> int \<Rightarrow> bool" where
  "server_accepts parse p raw c t \<longleftrightarrow>
     (pt_clientAuth p \<longrightarrow> x509_Verify (pt_roots p) extClientAuth t c [] = None) \<and>
     verifyPeerCertificate parse (x509_Verify (pt_roots p) extServerAuth t) [raw] [[c]] = None"

definition client_accepts :: "(bytes \<Rightarrow> err + cert) \<Rightarrow> peer_tls \<Rightarrow> bytes \<Rightarrow> int \<Rightarrow> bool" where
  "client_accepts parse p raw t \<longleftrightarrow>
     pt_InsecureSkipVerify p \<and>
     verifyPeerCertificate parse (x509_Verify (pt_roots p) extServerAuth t) [raw] [] = None"

definition peer_handshake :: "(bytes \<Rightarrow> err + cert) \<Rightarrow> (cert \<Rightarrow> bytes) \<Rightarrow> peer_tls \<Rightarrow> peer_tls \<Rightarrow> int \<Rightarrow> bool" where
  "peer_handshake parse raw d p t \<longleftrightarrow>
     holds_key d \<and> holds_key p \<and>
     set (pt_NextProtos d) \<inter> set (pt_NextProtos p) \<noteq> {} \<and>
     server_accepts parse p (raw (pt_cert d)) (pt_cert d) t \<and>
     client_accepts parse d (raw (pt_cert p)) t"

section \<open>Requests arrive\<close>

lemma segments_no_slash: "CHR ''/'' \<notin> set s \<Longrightarrow> segments s = [s]"
  by (induction s) auto

lemma segments_Cons_slash: "segments (CHR ''/'' # s) = [] # segments s"
  by simp

lemma segments_append: "CHR ''/'' \<notin> set s \<Longrightarrow> segments (s @ CHR ''/'' # r) = s # segments r"
  by (induction s) auto

text \<open>With a base URL without a path the client asks for the paths of the router.\<close>

definition root_path :: "url \<Rightarrow> bool" where
  "root_path u \<longleftrightarrow> u_path u = [] \<or> u_path u = ''/''"

lemma resolved_path:
  assumes "root_path u" and "CHR ''/'' \<notin> set s" and "s \<noteq> []" and "s \<noteq> ''.''" and "s \<noteq> ''..''"
  shows "u_path (resolvePath u (CHR ''/'' # s)) = CHR ''/'' # s"
  using assms
  by (auto simp: root_path_def resolvePath_def path_Join_def path_Clean_def Let_def segments_no_slash clean_step_def)

lemma resolved_relay_path:
  assumes "root_path u" and "CHR ''/'' \<notin> set s" and "s \<noteq> []" and "s \<noteq> ''.''" and "s \<noteq> ''..''"
  shows "u_path (resolvePath u (''/relay/'' @ s)) = ''/relay/'' @ s"
  using assms
  by (auto simp: root_path_def resolvePath_def path_Join_def path_Clean_def Let_def segments_no_slash clean_step_def)

lemma newSessionID_plain: "b \<noteq> [] \<Longrightarrow> newSessionID b \<noteq> ''.'' \<and> newSessionID b \<noteq> ''..''"
proof (cases b)
  case (Cons w ws)
  have "hex_digit (unat w div 16) \<noteq> CHR ''.''" using hex_digit_in [OF unat_nibbles(1) [of w]] by auto
  then show ?thesis using Cons by (auto simp: newSessionID_def hex_EncodeToString_def hex_byte_def)
qed simp

text \<open>The router accepts the token of a request and runs the handler of its path.\<close>

lemma token_request_runs:
  assumes "u_path (resolvePath u sub) = p" and "endpoint_of p = Some ep"
  shows "NewRouter run errText secret other (token_request u sub (NewToken k secret)) ctx =
    run ep k (token_request u sub (NewToken k secret))"
proof -
  have "ParseToken (ascii (http_header (token_request u sub (NewToken k secret)) headerToken)) = Inr (NewToken k secret)"
    by (simp add: token_request_def ascii_byte_text parse_NewToken)
  from NewRouter_runs [OF _ _ this verify_NewToken, unfolded Token_Key_NewToken] show ?thesis
    using assms by (simp add: token_request_def)
qed

lemma register_runs:
  assumes "root_path u"
  shows "NewRouter run errText secret other (register_request u isHost (NewToken k secret)) ctx =
    run (if isHost then HostEndpoint else JoinEndpoint) k (register_request u isHost (NewToken k secret))"
proof -
  have "u_path (resolvePath u ''/host'') = ''/host''" "u_path (resolvePath u ''/join'') = ''/join''"
    by (rule resolved_path [OF assms]; simp)+
  from this [THEN token_request_runs] show ?thesis
    by (cases isHost) (simp_all add: register_request_def endpoint_of_def)
qed

lemma viaRelay_runs:
  assumes "root_path u" and "rnd \<noteq> []"
  shows "NewRouter run errText secret other (viaRelay_request u (newSessionID rnd) (NewToken k secret)) ctx =
    run (RelayEndpoint (newSessionID rnd)) k (viaRelay_request u (newSessionID rnd) (NewToken k secret))"
proof -
  have path: "u_path (resolvePath u (''/relay/'' @ newSessionID rnd)) = ''/relay/'' @ newSessionID rnd"
    using resolved_relay_path [OF assms(1)] newSessionID_segment [OF assms(2)] newSessionID_plain [OF assms(2)] by blast
  have "relay_segment (''/relay/'' @ newSessionID rnd) = Some (newSessionID rnd)"
    using newSessionID_segment [OF assms(2)] by (simp add: relay_segment_def)
  then have "endpoint_of (''/relay/'' @ newSessionID rnd) = Some (RelayEndpoint (newSessionID rnd))"
    by (simp add: endpoint_of_def)
  from token_request_runs [OF path this] show ?thesis by (simp only: viaRelay_request_def)
qed

text \<open>
  C14. What a client sends arrives: with a base URL without a path, its registrations and its relay
  requests for a session id of the server, with the token issued for its key, run the handler
  they are meant for, with that key.
\<close>
theorem client_requests_arrive:
  assumes "root_path u" and "rnd \<noteq> []"
  shows "NewRouter run errText secret other (register_request u True (NewToken k secret)) ctx =
      run HostEndpoint k (register_request u True (NewToken k secret)) \<and>
    NewRouter run errText secret other (register_request u False (NewToken k secret)) ctx =
      run JoinEndpoint k (register_request u False (NewToken k secret)) \<and>
    NewRouter run errText secret other (viaRelay_request u (newSessionID rnd) (NewToken k secret)) ctx =
      run (RelayEndpoint (newSessionID rnd)) k (viaRelay_request u (newSessionID rnd) (NewToken k secret))"
  by (simp add: register_runs [OF assms(1)] viaRelay_runs [OF assms])

theorem client_requests_arrive_witness:
  "NewRouter (\<lambda>ep k r. [WriteHeader (if ep = HostEndpoint then 200 else 500)]) (\<lambda>_. []) [1] (\<lambda>_ _. [])
     (register_request \<lparr>u_scheme = ''https'', u_hostname = ''star.example'', u_port = [], u_path = []\<rparr> True
       (NewToken gameA [1])) \<lparr>ctx_key = None\<rparr> = [WriteHeader 200]"
  using client_requests_arrive [of "\<lparr>u_scheme = ''https'', u_hostname = ''star.example'', u_port = [], u_path = []\<rparr>" "[0]"
      "\<lambda>ep k r. [WriteHeader (if ep = HostEndpoint then 200 else 500)]" "\<lambda>_. []" "[1]" "\<lambda>_ _. []" gameA "\<lparr>ctx_key = None\<rparr>"]
  by (simp add: root_path_def)

section \<open>Peers of one session trust each other\<close>

lemma peer_handshake_tlsConfig:
  assumes "parse (raw c) = Inr c" and "parse (raw c2) = Inr c2"
  shows "peer_handshake parse raw (tlsConfig ca c k) (tlsConfig ca2 c2 k2) t \<longleftrightarrow>
    pub c = k \<and> pub c2 = k2 \<and> extClientAuth c \<and> signed_by ca2 c t \<and> extServerAuth c2 \<and> signed_by ca c2 t"
  using assms
  by (simp add: peer_handshake_def tlsConfig_def holds_key_def server_accepts_def client_accepts_def
      verifyPeerCertificate_def x509_Verify_def)



end
