(* ===== verification/Quic_Serving.thy ===== *)
theory Quic_Serving
  imports Registar_Client
begin

text \<open>
  The serving code of \<^verbatim>\<open>internal/registar/server.go\<close>: \<open>init\<close>, \<open>ListenAndServe\<close>, \<open>ListenAndServeTLS\<close>,
  \<open>Serve\<close>, \<open>ServeQUICConn\<close> and the waiting of \<open>Close\<close>. The accept loop, the two loops and the handlers
  of each connection and \<open>Close\<close> run concurrently, so they are a step relation; an accept of
  quic-go may fail with any error at any time.
\<close>

section \<open>Starting\<close>

definition errCodeAcceptStream :: u64 where "errCodeAcceptStream = 0xabcdef"

definition quicConnContextKey :: string where "quicConnContextKey = ''quic-conn''"

text \<open>The values of a context that matter here are connections, known by their numbers.\<close>

type_synonym conn_ctx = "string \<rightharpoonup> nat"

record quic_conf =
  qf_EnableDatagrams :: bool

record h3_server =
  h3_Addr :: string
  h3_QUICConfig :: "quic_conf option"
  h3_Certificates :: "nat list option"            \<comment> \<open>of \<open>TLSConfig\<close>, when there is one\<close>
  h3_ConnContext :: "(conn_ctx \<Rightarrow> nat \<Rightarrow> conn_ctx) option"
  h3_EnableDatagrams :: bool

record boot =
  H3 :: h3_server
  Logger :: "string option"
  once :: bool

definition Server_init :: "boot \<Rightarrow> boot" where
  "Server_init b =
     (if once b then b
      else
        (let orig = h3_ConnContext (H3 b) in
         b\<lparr>once := True,
           H3 := (H3 b)\<lparr>h3_ConnContext := Some (\<lambda>ctx c.
               (case orig of Some f \<Rightarrow> f ctx c | None \<Rightarrow> ctx)(quicConnContextKey \<mapsto> c)),
             h3_EnableDatagrams := True\<rparr>,
           Logger := (case Logger b of None \<Rightarrow> Some ''default'' | Some l \<Rightarrow> Some l)\<rparr>))"

text \<open>The context of a connection that \<open>http3\<close> makes from the hook.\<close>

definition conn_context :: "boot \<Rightarrow> conn_ctx \<Rightarrow> nat \<Rightarrow> conn_ctx" where
  "conn_context b ctx c = (case h3_ConnContext (H3 b) of Some f \<Rightarrow> f ctx c | None \<Rightarrow> ctx)"

text \<open>The QUIC configuration of \<open>Serve\<close>.\<close>

definition serve_conf :: "h3_server \<Rightarrow> quic_conf" where
  "serve_conf h = (case h3_QUICConfig h of Some c \<Rightarrow> c | None \<Rightarrow> \<lparr>qf_EnableDatagrams = True\<rparr>)"

text \<open>
  \<open>ListenAndServe\<close>: the address that is resolved, and the error or the result of \<open>Serve\<close> on the
  socket; \<open>ListenAndServeTLS\<close> first adds the certificate of the two files.
\<close>

definition listen_addr :: "h3_server \<Rightarrow> string" where
  "listen_addr h = (if h3_Addr h = [] then '':https'' else h3_Addr h)"

definition ListenAndServe :: "(string \<Rightarrow> error) \<Rightarrow> (string \<Rightarrow> error) \<Rightarrow> (h3_server \<Rightarrow> error) \<Rightarrow> h3_server \<Rightarrow> error" where
  "ListenAndServe resolve listen serve h =
     (let addr = listen_addr h in
      case resolve addr of Some e \<Rightarrow> Some e | None \<Rightarrow>
      case listen addr of Some e \<Rightarrow> Some e | None \<Rightarrow> serve h)"

definition add_certificate :: "nat \<Rightarrow> h3_server \<Rightarrow> h3_server" where
  "add_certificate c h = h\<lparr>h3_Certificates := Some ((case h3_Certificates h of None \<Rightarrow> [] | Some cs \<Rightarrow> cs) @ [c])\<rparr>"

definition ListenAndServeTLS ::
  "err + nat \<Rightarrow> (string \<Rightarrow> error) \<Rightarrow> (string \<Rightarrow> error) \<Rightarrow> (h3_server \<Rightarrow> error) \<Rightarrow> h3_server \<Rightarrow> error" where
  "ListenAndServeTLS load resolve listen serve h =
     (case load of
        Inl e \<Rightarrow> Some e
      | Inr c \<Rightarrow> ListenAndServe resolve listen serve (add_certificate c h))"

section \<open>Serving connections\<close>

definition ErrHTTPServerClosed :: leaf where "ErrHTTPServerClosed = Sentinel ''http: Server closed''"

text \<open>What \<open>Serve\<close> returns when \<open>Accept\<close> fails.\<close>

definition serve_result :: "bool \<Rightarrow> err \<Rightarrow> err" where
  "serve_result ctxDone e = (if ctxDone then Leaf ErrHTTPServerClosed else e)"

definition isRemoteClientClosed :: "error \<Rightarrow> bool" where
  "isRemoteClientClosed e = as_application e errCodeClientClosed True"

text \<open>What an accepting loop of \<open>ServeQUICConn\<close> returns when its accept fails; \<open>what\<close> names the kind of stream.\<close>

definition loop_result :: "string \<Rightarrow> err \<Rightarrow> error" where
  "loop_result what e = (if isRemoteClientClosed (Some e) then None else errorf (''accept '' @ what) e)"

text \<open>A connection: its two loops, the handlers that run for its streams, the first error of the group.\<close>

record qconn =
  bidi :: bool                  \<comment> \<open>the loop runs\<close>
  uni :: bool
  active :: nat                 \<comment> \<open>handlers that run\<close>
  group_err :: error
  closed_with :: "u64 option"   \<comment> \<open>the code of \<open>CloseWithError\<close>\<close>
  accept_errs :: "err list"     \<comment> \<open>history: what ended the loops\<close>

definition new_qconn :: qconn where
  "new_qconn = \<lparr>bidi = True, uni = True, active = 0, group_err = None, closed_with = None, accept_errs = []\<rparr>"

datatype accept_loop = Accepting | Accepted nat | Stopped err
datatype close_call = NotCalled | WaitingRelays | WaitingConns | CloseReturned

record serving =
  ctx_cancelled :: bool
  accept_loop :: accept_loop
  relayCount :: nat             \<comment> \<open>proxies of relay sessions that run\<close>
  connsCount :: nat
  conns :: "nat \<rightharpoonup> qconn"
  close_call :: close_call

definition serving0 :: serving where
  "serving0 = \<lparr>ctx_cancelled = False, accept_loop = Accepting, relayCount = 0, connsCount = 0, conns = Map.empty,
     close_call = NotCalled\<rparr>"

definition set_conn :: "nat \<Rightarrow> qconn \<Rightarrow> serving \<Rightarrow> serving" where
  "set_conn c q s = s\<lparr>conns := (conns s)(c \<mapsto> q)\<rparr>"

text \<open>A loop ends: the group keeps the first error.\<close>

definition loop_ends :: "string \<Rightarrow> err \<Rightarrow> qconn \<Rightarrow> qconn" where
  "loop_ends what e q =
     q\<lparr>group_err := (case group_err q of None \<Rightarrow> loop_result what e | Some x \<Rightarrow> Some x),
       accept_errs := e # accept_errs q\<rparr>"

text \<open>After \<open>eg.Wait\<close>: the connection is closed, and \<open>connsCount.Done\<close> runs.\<close>

definition close_conn :: "nat \<Rightarrow> qconn \<Rightarrow> serving \<Rightarrow> serving" where
  "close_conn c q s =
     (set_conn c (q\<lparr>closed_with := Some (if group_err q = None then 0 else errCodeAcceptStream)\<rparr>) s)
       \<lparr>connsCount := connsCount s - 1\<rparr>"

inductive serving_step :: "serving \<Rightarrow> serving \<Rightarrow> bool" where
  accept: "accept_loop s = Accepting \<Longrightarrow> conns s c = None \<Longrightarrow> serving_step s (s\<lparr>accept_loop := Accepted c\<rparr>)"
| accept_fails: "accept_loop s = Accepting \<Longrightarrow>
     serving_step s (s\<lparr>accept_loop := Stopped (serve_result (ctx_cancelled s) e)\<rparr>)"
| serve: "accept_loop s = Accepted c \<Longrightarrow>
     serving_step s (s\<lparr>accept_loop := Accepting, connsCount := connsCount s + 1, conns := (conns s)(c \<mapsto> new_qconn)\<rparr>)"
| raw_fails: "accept_loop s = Accepted c \<Longrightarrow> serving_step s (s\<lparr>accept_loop := Accepting\<rparr>)"
| bidi_stream: "conns s c = Some q \<Longrightarrow> bidi q \<Longrightarrow> serving_step s (set_conn c (q\<lparr>active := active q + 1\<rparr>) s)"
| uni_stream: "conns s c = Some q \<Longrightarrow> uni q \<Longrightarrow> serving_step s (set_conn c (q\<lparr>active := active q + 1\<rparr>) s)"
| bidi_fails: "conns s c = Some q \<Longrightarrow> bidi q \<Longrightarrow>
     serving_step s (set_conn c (loop_ends ''stream'' e (q\<lparr>bidi := False\<rparr>)) s)"
| uni_fails: "conns s c = Some q \<Longrightarrow> uni q \<Longrightarrow>
     serving_step s (set_conn c (loop_ends ''unidirectional stream'' e (q\<lparr>uni := False\<rparr>)) s)"
| handled: "conns s c = Some q \<Longrightarrow> 0 < active q \<Longrightarrow> serving_step s (set_conn c (q\<lparr>active := active q - 1\<rparr>) s)"
| conn_done: "conns s c = Some q \<Longrightarrow> \<not> bidi q \<Longrightarrow> \<not> uni q \<Longrightarrow> active q = 0 \<Longrightarrow> closed_with q = None \<Longrightarrow>
     serving_step s (close_conn c q s)"
| relay_starts: "conns s c = Some q \<Longrightarrow> 0 < active q \<Longrightarrow> serving_step s (s\<lparr>relayCount := relayCount s + 1\<rparr>)"
| relay_ends: "0 < relayCount s \<Longrightarrow> serving_step s (s\<lparr>relayCount := relayCount s - 1\<rparr>)"
| close_begins: "close_call s = NotCalled \<Longrightarrow>
     serving_step s (s\<lparr>ctx_cancelled := True, close_call := WaitingRelays\<rparr>)"
| relays_done: "close_call s = WaitingRelays \<Longrightarrow> relayCount s = 0 \<Longrightarrow>
     serving_step s (s\<lparr>close_call := WaitingConns\<rparr>)"
| close_ends: "close_call s = WaitingConns \<Longrightarrow> connsCount s = 0 \<Longrightarrow>
     serving_step s (s\<lparr>close_call := CloseReturned\<rparr>)"

text \<open>\<open>Close\<close> has been called and has not returned.\<close>

definition closing :: "serving \<Rightarrow> bool" where
  "closing s \<longleftrightarrow> close_call s = WaitingRelays \<or> close_call s = WaitingConns"

abbreviation serving_reach :: "serving \<Rightarrow> bool" where
  "serving_reach \<equiv> reach (\<lambda>s. s = serving0) serving_step"

section \<open>The hook of init\<close>

lemma Server_init_idem: "Server_init (Server_init b) = Server_init b"
  by (simp add: Server_init_def Let_def)

text \<open>
  Whatever hook the server was configured with, the handlers find their connection in the
  context.
\<close>

lemma init_conn_context:
  "\<not> once b \<Longrightarrow> conn_context (Server_init b) ctx c quicConnContextKey = Some c"
  by (simp add: Server_init_def conn_context_def Let_def)

section \<open>Invariant\<close>

definition open_conns :: "serving \<Rightarrow> nat set" where
  "open_conns s = {c. \<exists>q. conns s c = Some q \<and> closed_with q = None}"

text \<open>A connection that has been closed is at rest, and its code tells what ended its loops.\<close>

definition qconn_ok :: "qconn \<Rightarrow> bool" where
  "qconn_ok q \<longleftrightarrow>
     length (accept_errs q) = (if bidi q then 0 else 1) + (if uni q then 0 else 1) \<and>
     (group_err q = None \<longleftrightarrow> (\<forall>e \<in> set (accept_errs q). isRemoteClientClosed (Some e))) \<and>
     (closed_with q \<noteq> None \<longrightarrow> \<not> bidi q \<and> \<not> uni q \<and> active q = 0 \<and>
        closed_with q = Some (if group_err q = None then 0 else errCodeAcceptStream))"

definition serving_inv :: "serving \<Rightarrow> bool" where
  [inv_defs]: "serving_inv s \<longleftrightarrow>
     finite (dom (conns s)) \<and> connsCount s = card (open_conns s) \<and>
     (\<forall>c q. conns s c = Some q \<longrightarrow> qconn_ok q) \<and>
     (\<forall>c. accept_loop s = Accepted c \<longrightarrow> conns s c = None)"

lemma conn_update_simps [simp]:
  "conns (set_conn c q s) = (conns s)(c \<mapsto> q)" "connsCount (set_conn c q s) = connsCount s"
  "accept_loop (set_conn c q s) = accept_loop s" "close_call (set_conn c q s) = close_call s"
  "ctx_cancelled (set_conn c q s) = ctx_cancelled s" "relayCount (set_conn c q s) = relayCount s"
  "relayCount (close_conn c q s) = relayCount s"
  "connsCount (close_conn c q s) = connsCount s - 1" "accept_loop (close_conn c q s) = accept_loop s"
  "close_call (close_conn c q s) = close_call s" "ctx_cancelled (close_conn c q s) = ctx_cancelled s"
  "conns (close_conn c q s) =
     (conns s)(c \<mapsto> q\<lparr>closed_with := Some (if group_err q = None then 0 else errCodeAcceptStream)\<rparr>)"
  by (simp_all add: set_conn_def close_conn_def)

lemma set_conn_twice [simp]: "set_conn c q (set_conn c q' s) = set_conn c q s"
  by (simp add: set_conn_def)

lemma loop_ends_simps [simp]:
  "closed_with (loop_ends what e q) = closed_with q" "bidi (loop_ends what e q) = bidi q"
  "uni (loop_ends what e q) = uni q" "active (loop_ends what e q) = active q"
  by (simp_all add: loop_ends_def)

lemma finite_open: "finite (dom (conns s)) \<Longrightarrow> finite (open_conns s)"
  by (rule finite_subset [of _ "dom (conns s)"]) (auto simp: open_conns_def)

lemma qconn_ok_new: "qconn_ok new_qconn"
  by (simp add: qconn_ok_def new_qconn_def)

lemma qconn_ok_ends:
  "qconn_ok q \<Longrightarrow> bidi q \<Longrightarrow> qconn_ok (loop_ends what e (q\<lparr>bidi := False\<rparr>))"
  "qconn_ok q \<Longrightarrow> uni q \<Longrightarrow> qconn_ok (loop_ends what e (q\<lparr>uni := False\<rparr>))"
  by (auto simp: qconn_ok_def loop_ends_def loop_result_def errorf_def split: option.splits if_splits)

text \<open>A move of one connection that does not close it keeps the invariant.\<close>

lemma serving_inv_move:
  assumes "serving_inv s" and "conns s c = Some q" and "qconn_ok q'" and "closed_with q' = closed_with q"
  shows "serving_inv (set_conn c q' s)"
proof -
  have "open_conns (set_conn c q' s) = open_conns s"
    using assms(2,4) by (auto simp: open_conns_def)
  then show ?thesis using assms by (auto simp: serving_inv_def)
qed

lemma serving_inv_close:
  assumes "serving_inv s" and "conns s c = Some q" and "\<not> bidi q" and "\<not> uni q" and "active q = 0"
    and "closed_with q = None"
  shows "serving_inv (close_conn c q s)"
proof -
  let ?q = "q\<lparr>closed_with := Some (if group_err q = None then 0 else errCodeAcceptStream)\<rparr>"
  have "qconn_ok ?q" using assms by (auto simp: serving_inv_def qconn_ok_def)
  moreover have "open_conns (close_conn c q s) = open_conns s - {c}"
    by (auto simp: open_conns_def)
  moreover have "c \<in> open_conns s" "finite (open_conns s)"
    using assms finite_open by (auto simp: open_conns_def serving_inv_def)
  ultimately show ?thesis using assms(1,2) by (auto simp: serving_inv_def)
qed

interpretation serving: inductive_invariant "\<lambda>s. s = serving0" serving_step serving_inv
proof unfold_locales
  fix s assume "s = serving0"
  then show "serving_inv s" by (simp add: serving_inv_def serving0_def open_conns_def)
next
  fix s t assume inv: "serving_inv s" and "serving_step s t"
  from this(2) show "serving_inv t"
  proof cases
    case (serve c)
    then have "conns s c = None" using inv by (auto simp: serving_inv_def)
    then have "open_conns t = insert c (open_conns s)" "c \<notin> open_conns s"
      using serve by (auto simp: open_conns_def new_qconn_def)
    then show ?thesis using serve inv finite_open [of s] qconn_ok_new by (auto simp: serving_inv_def)
  next
    case (bidi_fails c q e)
    then have "qconn_ok q" using inv by (auto simp: serving_inv_def)
    then show ?thesis
      using serving_inv_move [OF inv bidi_fails(2)] qconn_ok_ends bidi_fails(1,3) by simp
  next
    case (uni_fails c q e)
    then have "qconn_ok q" using inv by (auto simp: serving_inv_def)
    then show ?thesis
      using serving_inv_move [OF inv uni_fails(2)] qconn_ok_ends uni_fails(1,3) by simp
  next
    case (conn_done c q)
    then show ?thesis using serving_inv_close [OF inv] by simp
  next
    case (bidi_stream c q)
    then have "qconn_ok q" using inv by (auto simp: serving_inv_def)
    then show ?thesis using serving_inv_move [OF inv bidi_stream(2)] bidi_stream by (auto simp: qconn_ok_def)
  next
    case (uni_stream c q)
    then have "qconn_ok q" using inv by (auto simp: serving_inv_def)
    then show ?thesis using serving_inv_move [OF inv uni_stream(2)] uni_stream by (auto simp: qconn_ok_def)
  next
    case (handled c q)
    then have "qconn_ok q" using inv by (auto simp: serving_inv_def)
    then show ?thesis using serving_inv_move [OF inv handled(2)] handled by (auto simp: qconn_ok_def)
  qed (use inv in \<open>auto simp: serving_inv_def open_conns_def\<close>)
qed

section \<open>Closing\<close>

lemma all_closed:
  assumes "serving_inv s" and "connsCount s = 0" and "conns s c = Some q"
  shows "closed_with q \<noteq> None"
proof -
  have "finite (open_conns s)" using assms(1) finite_open by (simp add: serving_inv_def)
  then have "open_conns s = {}" using assms(1,2) by (simp add: serving_inv_def)
  then show ?thesis using assms(3) by (auto simp: open_conns_def)
qed

text \<open>A connection can be brought to its end: its loops fail and its handlers return.\<close>

lemma serving_steps_move:
  assumes "conns s c = Some q" and "active q = n"
  shows "serving_step\<^sup>*\<^sup>* s (set_conn c (q\<lparr>active := 0\<rparr>) s)"
  using assms
proof (induction n arbitrary: s q)
  case 0
  then have "q\<lparr>active := 0\<rparr> = q" "(conns s)(c \<mapsto> q) = conns s" by auto
  then show ?case by (simp add: set_conn_def)
next
  case (Suc n)
  let ?m = "set_conn c (q\<lparr>active := active q - 1\<rparr>) s"
  have "serving_step s ?m" using Suc.prems by (intro handled) auto
  moreover have "serving_step\<^sup>*\<^sup>* ?m (set_conn c ((q\<lparr>active := active q - 1\<rparr>)\<lparr>active := 0\<rparr>) ?m)"
    by (rule Suc.IH) (use Suc.prems in auto)
  ultimately show ?case by simp
qed

lemma bidi_can_end:
  assumes "conns s c = Some q"
  shows "\<exists>q'. serving_step\<^sup>*\<^sup>* s (set_conn c q' s) \<and> \<not> bidi q' \<and> closed_with q' = closed_with q"
proof (cases "bidi q")
  case True
  show ?thesis
    by (rule exI [of _ "loop_ends ''stream'' (Leaf ContextCanceled) (q\<lparr>bidi := False\<rparr>)"])
      (use bidi_fails [OF assms True] in auto)
next
  case False
  have "set_conn c q s = s" using assms by (simp add: set_conn_def fun_upd_idem)
  then show ?thesis using False by (intro exI [of _ q]) simp
qed

lemma uni_can_end:
  assumes "conns s c = Some q"
  shows "\<exists>q'. serving_step\<^sup>*\<^sup>* s (set_conn c q' s) \<and> \<not> uni q' \<and> bidi q' = bidi q \<and> closed_with q' = closed_with q"
proof (cases "uni q")
  case True
  show ?thesis
    by (rule exI [of _ "loop_ends ''unidirectional stream'' (Leaf ContextCanceled) (q\<lparr>uni := False\<rparr>)"])
      (use uni_fails [OF assms True] in auto)
next
  case False
  have "set_conn c q s = s" using assms by (simp add: set_conn_def fun_upd_idem)
  then show ?thesis using False by (intro exI [of _ q]) simp
qed

lemma conn_can_end:
  assumes "conns s c = Some q" and "closed_with q = None"
  shows "\<exists>s'. serving_step\<^sup>*\<^sup>* s s' \<and> connsCount s' = connsCount s - 1 \<and> close_call s' = close_call s \<and>
    relayCount s' = relayCount s"
proof -
  from bidi_can_end [OF assms(1)] obtain q1 where q1: "serving_step\<^sup>*\<^sup>* s (set_conn c q1 s)" "\<not> bidi q1" "closed_with q1 = None"
    using assms(2) by auto
  from uni_can_end [of "set_conn c q1 s" c q1] obtain q2 where
    q2: "serving_step\<^sup>*\<^sup>* (set_conn c q1 s) (set_conn c q2 s)" "\<not> uni q2" "\<not> bidi q2" "closed_with q2 = None"
    using q1 by auto
  let ?q = "q2\<lparr>active := 0\<rparr>" and ?s = "set_conn c (q2\<lparr>active := 0\<rparr>) s"
  have q3: "serving_step\<^sup>*\<^sup>* (set_conn c q2 s) ?s"
    using serving_steps_move [of "set_conn c q2 s" c q2] by simp
  have "serving_step ?s (close_conn c ?q ?s)" using q2 by (intro conn_done) simp_all
  then have "serving_step\<^sup>*\<^sup>* s (close_conn c ?q ?s)"
    using q1(1) q2(1) q3 by (meson rtranclp.rtrancl_into_rtrancl rtranclp_trans)
  then show ?thesis by (intro exI conjI) (assumption | simp)+
qed

lemma conns_can_close:
  "serving_inv s \<Longrightarrow> close_call s = WaitingConns \<Longrightarrow>
   \<exists>s'. serving_step\<^sup>*\<^sup>* s s' \<and> close_call s' = CloseReturned"
proof (induction "connsCount s" arbitrary: s)
  case 0
  then have "serving_step s (s\<lparr>close_call := CloseReturned\<rparr>)" by (intro close_ends) simp_all
  then show ?case by (intro exI conjI) (rule r_into_rtranclp, assumption, simp)
next
  case (Suc n)
  then have "open_conns s \<noteq> {}" by (auto simp: serving_inv_def)
  then obtain c q where "conns s c = Some q" "closed_with q = None" by (auto simp: open_conns_def)
  from conn_can_end [OF this] obtain t where t: "serving_step\<^sup>*\<^sup>* s t" "connsCount t = n" "close_call t = WaitingConns"
    using Suc by auto
  then have "serving_inv t" using serving.inv_steps Suc.prems(1) by blast
  with Suc.hyps(1) [of t] t show ?case by (meson rtranclp_trans)
qed

lemma relays_can_end: "serving_step\<^sup>*\<^sup>* s (s\<lparr>relayCount := 0\<rparr>)"
proof (induction "relayCount s" arbitrary: s)
  case 0
  then have "s\<lparr>relayCount := 0\<rparr> = s" by simp
  then show ?case by simp
next
  case (Suc n)
  let ?t = "s\<lparr>relayCount := relayCount s - 1\<rparr>"
  have "serving_step s ?t" using Suc.hyps(2) by (intro relay_ends) simp
  moreover have "serving_step\<^sup>*\<^sup>* ?t (?t\<lparr>relayCount := 0\<rparr>)" using Suc.hyps(2) by (intro Suc.hyps(1)) simp
  ultimately show ?case by simp
qed

lemma close_can_return:
  assumes "serving_inv s" and "closing s"
  shows "\<exists>s'. serving_step\<^sup>*\<^sup>* s s' \<and> close_call s' = CloseReturned"
proof (cases "close_call s = WaitingConns")
  case False
  let ?t = "s\<lparr>relayCount := 0, close_call := WaitingConns\<rparr>"
  have "serving_step (s\<lparr>relayCount := 0\<rparr>) ((s\<lparr>relayCount := 0\<rparr>)\<lparr>close_call := WaitingConns\<rparr>)"
    using False assms(2) by (intro relays_done) (auto simp: closing_def)
  then have t: "serving_step\<^sup>*\<^sup>* s ?t" using relays_can_end [of s] by (meson rtranclp.rtrancl_into_rtrancl)
  then have "serving_inv ?t" using serving.inv_steps assms(1) by blast
  then obtain s' where "serving_step\<^sup>*\<^sup>* ?t s'" "close_call s' = CloseReturned" using conns_can_close by fastforce
  then show ?thesis using t by (meson rtranclp_trans)
qed (use conns_can_close assms(1) in blast)

text \<open>
  C16. Closing the registar. When \<open>Close\<close> returns, every connection that is being served has been closed: no
  handler of it runs, and its code is 0 exactly when both of its loops ended because the client
  closed the connection, and \<open>errCodeAcceptStream\<close> otherwise. And a waiting \<open>Close\<close> can return
  from every state, provided that relays and handlers return.
\<close>
theorem serving_close:
  assumes "serving_reach s" and "closing s"
  shows "(\<exists>s'. serving_step\<^sup>*\<^sup>* s s' \<and> close_call s' = CloseReturned) \<and>
    (\<forall>t c q. serving_step s t \<and> close_call t = CloseReturned \<and> conns t c = Some q \<longrightarrow>
       active q = 0 \<and> length (accept_errs q) = 2 \<and>
       closed_with q = Some (if list_all (\<lambda>e. isRemoteClientClosed (Some e)) (accept_errs q) then 0
                             else errCodeAcceptStream))"
proof (intro conjI allI impI)
  have inv: "serving_inv s" using assms(1) by (rule serving.inv_reach)
  show "\<exists>s'. serving_step\<^sup>*\<^sup>* s s' \<and> close_call s' = CloseReturned" by (rule close_can_return [OF inv assms(2)])
  fix t c q
  assume t: "serving_step s t \<and> close_call t = CloseReturned \<and> conns t c = Some q"
  then have "connsCount s = 0" "conns s c = Some q"
    using assms(2) by (auto simp: closing_def elim: serving_step.cases)
  with inv all_closed have "closed_with q \<noteq> None" "qconn_ok q" by (auto simp: serving_inv_def)
  then show "active q = 0" "length (accept_errs q) = 2"
    "closed_with q = Some (if list_all (\<lambda>e. isRemoteClientClosed (Some e)) (accept_errs q) then 0
                             else errCodeAcceptStream)"
    by (auto simp: qconn_ok_def list_all_iff)
qed

lemmas serving_next = reach_next [where init = "\<lambda>s. s = serving0" and step = serving_step]

lemma reach_closing: "serving_reach (serving0\<lparr>ctx_cancelled := True, close_call := WaitingRelays\<rparr>)"
proof -
  have "serving_reach serving0" by (rule reach_init) simp
  then show ?thesis by (rule serving_next [OF _ close_begins]) (simp_all add: serving0_def)
qed

theorem serving_close_witness:
  "\<exists>s'. serving_step\<^sup>*\<^sup>* (serving0\<lparr>ctx_cancelled := True, close_call := WaitingRelays\<rparr>) s' \<and> close_call s' = CloseReturned"
  using serving_close [OF reach_closing] by (simp add: closing_def)

text \<open>
  But \<open>Serve\<close> counts a connection only after \<open>Accept\<close> has returned it: a \<open>Close\<close> in between finds the
  count at zero and returns, and the connection is served afterwards.
\<close>
theorem serving_after_close:
  "\<exists>c q s. serving_reach s \<and> close_call s = CloseReturned \<and> conns s c = Some q \<and> bidi q \<and> closed_with q = None"
proof -
  have s0: "serving_reach serving0" by (rule reach_init) simp
  have s1: "serving_reach (serving0\<lparr>accept_loop := Accepted 1\<rparr>)"
    by (rule serving_next [OF s0 accept]) (simp_all add: serving0_def)
  have s2: "serving_reach (serving0\<lparr>accept_loop := Accepted 1, ctx_cancelled := True, close_call := WaitingRelays\<rparr>)"
    by (rule serving_next [OF s1 close_begins]) (simp_all add: serving0_def)
  have s3: "serving_reach (serving0\<lparr>accept_loop := Accepted 1, ctx_cancelled := True, close_call := WaitingConns\<rparr>)"
    by (rule serving_next [OF s2 relays_done]) (simp_all add: serving0_def)
  have s3: "serving_reach (serving0\<lparr>accept_loop := Accepted 1, ctx_cancelled := True, close_call := CloseReturned\<rparr>)"
    by (rule serving_next [OF s3 close_ends]) (simp_all add: serving0_def)
  have "serving_reach (serving0\<lparr>accept_loop := Accepting, ctx_cancelled := True, close_call := CloseReturned,
      connsCount := 1, conns := [1 \<mapsto> new_qconn]\<rparr>)"
    by (rule serving_next [OF s3 serve]) (simp_all add: serving0_def)
  then show ?thesis by (intro exI [of _ "1 :: nat"] exI [of _ new_qconn] exI conjI) (assumption | simp add: new_qconn_def)+
qed

text \<open>
  \<open>Close\<close> relies on the handlers to return: as long as one runs, its connection stays open, and
  \<open>Close\<close> waits. The handler of a relay stream waits for its partner or for the end of its stream.
\<close>
lemma close_waits:
  assumes "serving_inv s" and "conns s c = Some q" and "0 < active q" and "closing s"
    and "serving_step s t"
  shows "closing t"
proof -
  have "qconn_ok q" using assms(1,2) by (auto simp: serving_inv_def)
  then have "closed_with q = None" using assms(3) by (auto simp: qconn_ok_def)
  then have "c \<in> open_conns s" using assms(2) by (auto simp: open_conns_def)
  moreover have "finite (open_conns s)" using assms(1) finite_open by (simp add: serving_inv_def)
  ultimately have "connsCount s \<noteq> 0" using assms(1) by (auto simp: serving_inv_def)
  then show ?thesis using assms(4,5) by (auto simp: closing_def elim: serving_step.cases)
qed

text \<open>
  It waits for the relays before it waits for the handlers that start them: a handler that takes
  over a waiting session in between leaves a relay that runs when \<open>Close\<close> has returned.
\<close>
lemma relay_after_close:
  "\<exists>s. serving_reach s \<and> close_call s = CloseReturned \<and> relayCount s = 1"
proof -
  let ?q = "new_qconn\<lparr>active := 1\<rparr>" and ?s = "serving0\<lparr>connsCount := 1, conns := [1 \<mapsto> new_qconn\<lparr>active := 1\<rparr>]\<rparr>"
  have s0: "serving_reach serving0" by (rule reach_init) simp
  have s1: "serving_reach (serving0\<lparr>accept_loop := Accepted 1\<rparr>)"
    by (rule serving_next [OF s0 accept]) (simp_all add: serving0_def)
  have s2: "serving_reach (serving0\<lparr>connsCount := 1, conns := [1 \<mapsto> new_qconn]\<rparr>)"
    by (rule serving_next [OF s1 serve]) (simp_all add: serving0_def)
  have s3: "serving_reach ?s"
    by (rule serving_next [OF s2 bidi_stream [of _ 1 new_qconn]]) (simp_all add: serving0_def new_qconn_def set_conn_def)
  have s4: "serving_reach (?s\<lparr>ctx_cancelled := True, close_call := WaitingRelays\<rparr>)"
    by (rule serving_next [OF s3 close_begins]) (simp_all add: serving0_def)
  have s5: "serving_reach (?s\<lparr>ctx_cancelled := True, close_call := WaitingConns\<rparr>)"
    by (rule serving_next [OF s4 relays_done]) (simp_all add: serving0_def)
  let ?r = "?s\<lparr>ctx_cancelled := True, close_call := WaitingConns, relayCount := 1\<rparr>"
  have s6: "serving_reach ?r"
    by (rule serving_next [OF s5 relay_starts [of _ 1 ?q]]) (simp_all add: serving0_def)
  have "conns ?r 1 = Some ?q" and "closed_with ?q = None" by (simp_all add: new_qconn_def)
  from conn_can_end [OF this] obtain t where
    run: "serving_step\<^sup>*\<^sup>* ?r t" "connsCount t = connsCount ?r - 1" "close_call t = close_call ?r" "relayCount t = relayCount ?r"
    by blast
  then have t: "connsCount t = 0" "close_call t = WaitingConns" "relayCount t = 1" by simp_all
  have "serving_reach t" using run(1) s6 by (rule reach_steps)
  from this close_ends [OF t(2,1)] refl have "serving_reach (t\<lparr>close_call := CloseReturned\<rparr>)" by (rule serving_next)
  then show ?thesis using t(3) by (intro exI conjI) (assumption | simp)+
qed

end
