(* ===== verification/Registar_Program.thy ===== *)
theory Registar_Program
  imports Registar_Main Quic_Serving
begin

text \<open>
  The program \<^verbatim>\<open>cmd/registar/main.go\<close> beyond its configuration and routes: the redirect to HTTPS, the
  server that advertises HTTP/3, request logging, the landing page, the choice of certificates, and the
  life of the program with its three servers, from the start to the exit status.
\<close>

section \<open>Redirect to HTTPS\<close>

text \<open>\<open>http.Redirect\<close>; \<open>note\<close> is the short body of the response to a \<open>GET\<close>.\<close>

definition http_Redirect :: "string \<Rightarrow> string \<Rightarrow> bytes \<Rightarrow> int \<Rightarrow> rw_call list" where
  "http_Redirect meth loc msg code =
     [SetHeader ''Location'' loc] @
     (if meth = ''GET'' \<or> meth = ''HEAD'' then [SetHeader ''Content-Type'' ''text/html; charset=utf-8''] else []) @
     [WriteHeader code] @ (if meth = ''GET'' then [Write msg] else [])"

record target_url =
  t_Scheme :: string
  t_Host :: string
  t_Path :: string
  t_RawQuery :: string

definition RedirectHTTPS ::
  "(int \<Rightarrow> string) \<Rightarrow> (target_url \<Rightarrow> string) \<Rightarrow> (string \<Rightarrow> bytes) \<Rightarrow> (http_request \<Rightarrow> string) \<Rightarrow> (http_request \<Rightarrow> string) \<Rightarrow>
   int \<Rightarrow> http_handler" where
  "RedirectHTTPS itoa urlString msg hostOf queryOf port r ctx =
     (let target = \<lparr>t_Scheme = ''https'', t_Host = targetHost itoa port (hostOf r), t_Path = url_path r, t_RawQuery = queryOf r\<rparr>
      in http_Redirect (http_method r) (urlString target) (msg (urlString target)) 301)"

section \<open>Request logging\<close>

text \<open>What \<open>LogRequests\<close> logs for a request; it passes all calls of the handler on.\<close>

record request_log =
  lg_key :: "key option"
  lg_method :: string
  lg_path :: string
  lg_status :: int
  lg_headers :: "(string \<times> string) list"

fun first_values :: "(string \<times> string list) list \<Rightarrow> (string \<times> string) list option" where
  "first_values [] = Some []"
| "first_values ((k, vs) # hs) =
     (case vs of [] \<Rightarrow> None | v # _ \<Rightarrow> map_option (\<lambda>rest. (k, v) # rest) (first_values hs))"

definition LogRequests ::
  "(http_request \<Rightarrow> (string \<times> string list) list) \<Rightarrow> http_handler \<Rightarrow> http_request \<Rightarrow> go_context \<Rightarrow>
   (rw_call list \<times> request_log) option" where
  "LogRequests headersOf handler r ctx =
     (let calls = handler r ctx; (k, ok) = KeyFromContext ctx in
      map_option (\<lambda>hs. (calls, \<lparr>lg_key = (if ok then Some k else None), lg_method = http_method r, lg_path = url_path r,
          lg_status = logged_status calls 0, lg_headers = hs\<rparr>))
        (first_values (headersOf r)))"

definition TokenFromPathValue :: "(http_request \<Rightarrow> string \<Rightarrow> string) \<Rightarrow> string \<Rightarrow> http_request \<Rightarrow> bytes" where
  "TokenFromPathValue pathValue nm r = ascii (pathValue r nm)"

section \<open>Handlers of the program\<close>

text \<open>From the point where the rate limiter lets a request through; logging changes no response.\<close>

definition redirect_handler ::
  "(int \<Rightarrow> string) \<Rightarrow> (target_url \<Rightarrow> string) \<Rightarrow> (string \<Rightarrow> bytes) \<Rightarrow> (http_request \<Rightarrow> string) \<Rightarrow> (http_request \<Rightarrow> string) \<Rightarrow>
   config \<Rightarrow> http_handler" where
  "redirect_handler itoa urlString msg hostOf queryOf cfg =
     Wrap_mw (RedirectHTTPS itoa urlString msg hostOf queryOf (RedirectPort cfg))
       [None, Some (AllowHosts (Cert_Domains cfg) hostOf)]"

definition advertise_handler ::
  "(int \<Rightarrow> string) \<Rightarrow> (http_request \<Rightarrow> int) \<Rightarrow> (main_page \<Rightarrow> http_request \<Rightarrow> rw_call list) \<Rightarrow> config \<Rightarrow>
   (http_request \<Rightarrow> string) \<Rightarrow> http_handler" where
  "advertise_handler itoa protoMajor page cfg hostOf =
     Wrap_mw (\<lambda>r _. case addAdmin (ascii (Admin_Secret cfg)) r of Inl cs \<Rightarrow> cs | Inr pg \<Rightarrow> page pg r)
       [None, Some (AdvertiseHTTP3 itoa (AdvertiseHTTP3Port cfg) protoMajor), None, Some (AllowHosts (Cert_Domains cfg) hostOf)]"

text \<open>\<open>RequestIP\<close>: the host part of the remote address; a text that is no address gives the zero address.\<close>

definition RequestIP :: "(string \<Rightarrow> 'a option) \<Rightarrow> 'a \<Rightarrow> string \<Rightarrow> 'a" where
  "RequestIP parseAddr zero remoteAddr =
     (case parseAddr (split_host remoteAddr) of Some a \<Rightarrow> a | None \<Rightarrow> zero)"

text \<open>The landing page. The rate is a quotient of floats, left to the parameter \<open>rate\<close>.\<close>

record 'f landingData =
  ServerURL :: string
  RateLimitPerSecond :: 'f
  RateLimitBurst :: int

definition landing_page ::
  "(int \<Rightarrow> 'f) \<Rightarrow> ('f landingData \<Rightarrow> bytes \<times> bytes option) \<Rightarrow> int \<Rightarrow> int \<Rightarrow> string \<Rightarrow> rw_call list" where
  "landing_page rate tmpl every burst host =
     (let (out, failed) = tmpl \<lparr>ServerURL = ''https://'' @ host, RateLimitPerSecond = rate every, RateLimitBurst = burst\<rparr>
      in Write out # (case failed of None \<Rightarrow> [] | Some m \<Rightarrow> http_Error m StatusInternalServerError))"

section \<open>Certificates\<close>

datatype tls_source =
    SelfSignedTLS cert cert "string list"      \<comment> \<open>CA, certificate, protocols\<close>
  | AutocertTLS string "string list"           \<comment> \<open>directory and domains\<close>

definition writeCACert :: "error \<Rightarrow> error \<Rightarrow> error" where
  "writeCACert createErr encodeErr =
     (case createErr of Some e \<Rightarrow> errorf ''create file'' e | None \<Rightarrow>
      case encodeErr of Some e \<Rightarrow> errorf ''encode certificate'' e | None \<Rightarrow> None)"

text \<open>\<open>newTLSConfig\<close>; \<open>None\<close> where the program aborts.\<close>

definition newTLSConfig :: "(int \<Rightarrow> int) \<Rightarrow> self_env \<Rightarrow> config \<Rightarrow> tls_source option" where
  "newTLSConfig addYear env cfg =
     (if Cert_SelfSigned cfg then
        (case selfSigned addYear (Cert_Domains cfg) env of
           Inl _ \<Rightarrow> None
         | Inr (ca, c) \<Rightarrow> Some (SelfSignedTLS ca c [''h3'', ''h2'', ''http/1.1'']))
      else Some (AutocertTLS (Cert_Dir cfg) (Cert_Domains cfg)))"

text \<open>\<open>cert.NewTLSConf\<close>: a configuration from DER data; parsing and encoding may fail.\<close>

definition NewTLSConf :: "(bytes \<Rightarrow> err + cert) \<Rightarrow> error \<Rightarrow> err + 'k \<Rightarrow> bytes \<Rightarrow> err + cert list \<times> 'k" where
  "NewTLSConf parse marshalErr keyPair caCertDER =
     (case parse caCertDER of Inl e \<Rightarrow> Inl (Wrap ''parse CA cert'' e) | Inr ca \<Rightarrow>
      case marshalErr of Some e \<Rightarrow> Inl (Wrap ''marshal private key'' e) | None \<Rightarrow>
      case keyPair of Inl e \<Rightarrow> Inl (Wrap ''create key pair'' e) | Inr k \<Rightarrow> Inr ([ca], k))"

section \<open>The life of the program\<close>

datatype srv = SrvHTTP3 | SrvAdvertise | SrvRedirect

definition srv_name :: "srv \<Rightarrow> string" where
  "srv_name x =
     (case x of SrvHTTP3 \<Rightarrow> ''listen and serve HTTP/3'' | SrvAdvertise \<Rightarrow> ''listen and serve TLS HTTP''
      | SrvRedirect \<Rightarrow> ''listen and serve HTTP'')"

text \<open>What the goroutine of a server returns; a server that was shut down is no error.\<close>

definition srv_result :: "srv \<Rightarrow> err \<Rightarrow> error" where
  "srv_result x e = (if errorsIs (Some e) ErrHTTPServerClosed then None else errorf (srv_name x) e)"

text \<open>
  The calls after the context has ended, in their order; they run to their end whatever they
  return, and the server each of them closes then returns from serving.
\<close>

datatype shutdown_call = AdminStop | ShutDown srv

definition shutdown_calls :: "shutdown_call list" where
  "shutdown_calls = [AdminStop, ShutDown SrvHTTP3, ShutDown SrvAdvertise, ShutDown SrvRedirect]"

record program =
  pg_signal :: bool
  pg_ended :: "srv \<Rightarrow> error option"   \<comment> \<open>result of the goroutine\<close>
  pg_err :: error                      \<comment> \<open>first error of the group\<close>
  pg_calls :: nat                      \<comment> \<open>shutdown calls made\<close>
  pg_exit :: "int option"

definition program0 :: program where
  "program0 = \<lparr>pg_signal = False, pg_ended = (\<lambda>_. None), pg_err = None, pg_calls = 0, pg_exit = None\<rparr>"

definition pg_ctx_done :: "program \<Rightarrow> bool" where
  "pg_ctx_done p \<longleftrightarrow> pg_signal p \<or> pg_err p \<noteq> None"

definition srv_ends :: "srv \<Rightarrow> err \<Rightarrow> program \<Rightarrow> program" where
  "srv_ends x e p =
     p\<lparr>pg_ended := (pg_ended p)(x \<mapsto> srv_result x e),
       pg_err := (if pg_err p = None then srv_result x e else pg_err p)\<rparr>"

inductive program_step :: "program \<Rightarrow> program \<Rightarrow> bool" where
  interrupt: "program_step p (p\<lparr>pg_signal := True\<rparr>)"
| server_ends: "pg_ended p x = None \<Longrightarrow> program_step p (srv_ends x e p)"
| shut_down: "pg_ctx_done p \<Longrightarrow> pg_calls p < length shutdown_calls \<Longrightarrow> program_step p (p\<lparr>pg_calls := Suc (pg_calls p)\<rparr>)"
| exits: "pg_calls p = length shutdown_calls \<Longrightarrow> (\<forall>x. pg_ended p x \<noteq> None) \<Longrightarrow> pg_exit p = None \<Longrightarrow>
     program_step p (p\<lparr>pg_exit := Some (if pg_err p = None then 0 else 1)\<rparr>)"

abbreviation program_reach :: "program \<Rightarrow> bool" where
  "program_reach \<equiv> reach (\<lambda>p. p = program0) program_step"

definition program_inv :: "program \<Rightarrow> bool" where
  [inv_defs]: "program_inv p \<longleftrightarrow>
     (pg_err p = None \<longleftrightarrow> (\<forall>x r. pg_ended p x = Some r \<longrightarrow> r = None)) \<and>
     (0 < pg_calls p \<longrightarrow> pg_ctx_done p) \<and> pg_calls p \<le> length shutdown_calls \<and>
     (\<forall>c. pg_exit p = Some c \<longrightarrow> pg_calls p = length shutdown_calls \<and> (\<forall>x. pg_ended p x \<noteq> None) \<and>
        c = (if pg_err p = None then 0 else 1))"

interpretation program: inductive_invariant "\<lambda>p. p = program0" program_step program_inv
proof unfold_locales
  fix p assume "p = program0"
  then show "program_inv p" by (simp add: program_inv_def program0_def)
next
  fix p q assume inv: "program_inv p" and "program_step p q"
  from this(2) show "program_inv q"
  proof cases
    case (server_ends x e)
    have "pg_exit p = None"
      using inv server_ends(2) unfolding program_inv_def by (metis not_None_eq)
    then show ?thesis using inv server_ends
      by (auto simp: program_inv_def srv_ends_def pg_ctx_done_def split: if_splits)
  qed (use inv in \<open>auto simp: program_inv_def pg_ctx_done_def shutdown_calls_def\<close>)
qed

section \<open>The redirect stays on the configured hosts\<close>

text \<open>
  The redirect server is no open redirect: a request for a host that is not configured gets 403,
  and any other is sent to the same path and query of a configured host over HTTPS, on the
  configured port.
\<close>
theorem redirect_stays_home:
  "redirect_handler itoa urlString msg hostOf queryOf cfg r ctx = http_Error (ascii ''forbidden'') 403 \<or>
   (\<exists>d loc. d \<in> set (Cert_Domains cfg) \<and>
      loc = urlString \<lparr>t_Scheme = ''https'',
        t_Host = (if RedirectPort cfg = 443 then d else JoinHostPort d (itoa (RedirectPort cfg))),
        t_Path = url_path r, t_RawQuery = queryOf r\<rparr> \<and>
      redirect_handler itoa urlString msg hostOf queryOf cfg r ctx = http_Redirect (http_method r) loc (msg loc) 301)"
  by (auto simp: redirect_handler_def AllowHosts_def RedirectHTTPS_def targetHost_def Let_def StatusForbidden_def)

section \<open>Logging\<close>

text \<open>
  The key is put into the context of the request that \<open>Authenticate\<close> passes on, and \<open>LogRequests\<close>
  around it looks into the context it was given: the key is never logged.
\<close>
lemma log_has_no_key:
  assumes "ctx_key ctx = None" and "LogRequests headersOf handler r ctx = Some (calls, lg)"
  shows "lg_key lg = None \<and> calls = handler r ctx"
  using assms by (auto simp: LogRequests_def KeyFromContext_def Let_def split: option.splits)

section \<open>Exit\<close>

lemma calls_can_finish:
  assumes "pg_ctx_done p" and "pg_calls p \<le> length shutdown_calls"
  shows "program_step\<^sup>*\<^sup>* p (p\<lparr>pg_calls := length shutdown_calls\<rparr>)"
  using assms
proof (induction "length shutdown_calls - pg_calls p" arbitrary: p)
  case 0
  then have "p\<lparr>pg_calls := length shutdown_calls\<rparr> = p" by simp
  then show ?case by simp
next
  case (Suc n)
  let ?q = "p\<lparr>pg_calls := Suc (pg_calls p)\<rparr>"
  have "program_step p ?q" using Suc.hyps(2) Suc.prems by (intro shut_down) simp_all
  moreover have "program_step\<^sup>*\<^sup>* ?q (?q\<lparr>pg_calls := length shutdown_calls\<rparr>)"
    using Suc.hyps(2) Suc.prems by (intro Suc.hyps(1)) (auto simp: pg_ctx_done_def)
  ultimately show ?case by simp
qed

text \<open>A server that has been closed returns; that one of them does leaves the others as they are.\<close>

lemma server_can_end:
  "\<exists>q. program_step\<^sup>*\<^sup>* p q \<and> pg_ended q x \<noteq> None \<and> (\<forall>y. pg_ended p y \<noteq> None \<longrightarrow> pg_ended q y = pg_ended p y) \<and>
     pg_calls q = pg_calls p \<and> pg_exit q = pg_exit p"
proof (cases "pg_ended p x")
  case None
  then have "program_step p (srv_ends x (Leaf ErrHTTPServerClosed) p)" by (rule server_ends)
  then show ?thesis using None by (intro exI conjI) (rule r_into_rtranclp, assumption, auto simp: srv_ends_def)
qed auto

lemma servers_can_end:
  "\<exists>q. program_step\<^sup>*\<^sup>* p q \<and> (\<forall>x. pg_ended q x \<noteq> None) \<and> pg_calls q = pg_calls p \<and> pg_exit q = pg_exit p"
proof -
  obtain q1 where q1: "program_step\<^sup>*\<^sup>* p q1" "pg_ended q1 SrvHTTP3 \<noteq> None" "pg_calls q1 = pg_calls p" "pg_exit q1 = pg_exit p"
    using server_can_end by blast
  obtain q2 where q2: "program_step\<^sup>*\<^sup>* q1 q2" "pg_ended q2 SrvAdvertise \<noteq> None" "pg_ended q2 SrvHTTP3 \<noteq> None"
      "pg_calls q2 = pg_calls p" "pg_exit q2 = pg_exit p"
    using server_can_end [of q1 SrvAdvertise] q1 by metis
  obtain q3 where q3: "program_step\<^sup>*\<^sup>* q2 q3" "pg_ended q3 SrvRedirect \<noteq> None" "pg_ended q3 SrvAdvertise \<noteq> None"
      "pg_ended q3 SrvHTTP3 \<noteq> None" "pg_calls q3 = pg_calls p" "pg_exit q3 = pg_exit p"
    using server_can_end [of q2 SrvRedirect] q2 by metis
  have "pg_ended q3 x \<noteq> None" for x using q3 by (cases x) auto
  then show ?thesis using q1(1) q2(1) q3 by (meson rtranclp_trans)
qed


lemma reach_interrupted: "program_reach (program0\<lparr>pg_signal := True\<rparr>)"
proof -
  have "program_reach program0" by (rule reach_init) simp
  then show ?thesis by (rule reach_step) (rule interrupt)
qed


end
