(* ===== verification/Host_Lifecycle.thy ===== *)
theory Host_Lifecycle
  imports Forwarder
begin

text \<open>
  A running host: \<open>Hoster\<close> of \<^verbatim>\<open>internal/registar/client.go\<close> and \<open>Host\<close> of \<^verbatim>\<open>internal/forwarder/host.go\<close> together. The
  control agent offers connections through a channel, \<open>AcceptAndLink\<close> takes them and starts a
  link for each, and \<open>Close\<close> stops all of it. They run concurrently, so the model is a step relation;
  the fields from \<open>hs_offered\<close> on are history.
\<close>

section \<open>State and steps\<close>

datatype host_loop = HAccepting | HLoopReturned error

datatype host_closer =
    CNotCalled
  | CAgent               \<comment> \<open>in \<open>Hoster.Close\<close>, waits for the agent\<close>
  | CLinks error         \<comment> \<open>in \<open>Host.Close\<close>, waits for the links, with the error of the hoster\<close>
  | CReturned error

record host_st =
  hs_conns :: "dconn option"      \<comment> \<open>the channel holds one connection\<close>
  hs_done :: bool
  hs_ctx :: bool                  \<comment> \<open>the context of \<open>AcceptAndLink\<close> is cancelled\<close>
  hs_agent :: "error option"      \<comment> \<open>result of the agent; \<open>None\<close> while it serves\<close>
  hs_loop :: host_loop
  hs_links :: "dconn set"         \<comment> \<open>links that run\<close>
  hs_closer :: host_closer
  hs_reports :: "err list"        \<comment> \<open>what \<open>handleError\<close> was called with\<close>
  hs_offered :: "dconn set"
  hs_accepted :: "dconn list"
  hs_closed :: "dconn set"        \<comment> \<open>connections whose deferred \<open>Close\<close> ran\<close>

definition host0 :: host_st where
  "host0 = \<lparr>hs_conns = None, hs_done = False, hs_ctx = False, hs_agent = None, hs_loop = HAccepting, hs_links = {},
     hs_closer = CNotCalled, hs_reports = [], hs_offered = {}, hs_accepted = [], hs_closed = {}\<rparr>"

text \<open>The hoster as \<open>Accept\<close> sees it.\<close>

definition hoster_of :: "host_st \<Rightarrow> hoster" where
  "hoster_of s = \<lparr>h_conns = hs_conns s, h_done = hs_done s, h_agent = hs_agent s\<rparr>"

definition accept_ctx :: "host_st \<Rightarrow> error" where
  "accept_ctx s = (if hs_ctx s then Some (Leaf ContextCanceled) else None)"

text \<open>What the loop of \<open>AcceptAndLink\<close> makes of a result of \<open>Accept\<close>.\<close>

definition host_accept :: "err + dconn \<Rightarrow> host_st \<Rightarrow> host_st" where
  "host_accept r s =
     (case r of
        Inr c \<Rightarrow> s\<lparr>hs_conns := None, hs_links := insert c (hs_links s), hs_accepted := hs_accepted s @ [c]\<rparr>
      | Inl e \<Rightarrow> s\<lparr>hs_loop := HLoopReturned
          (if errorsIs (Some e) ErrHosterClosed then None else errorf ''accept peer connection'' e)\<rparr>)"

text \<open>The goroutine of a link ends with the result of \<open>linkWithHost\<close>.\<close>

definition link_done :: "dconn \<Rightarrow> error \<Rightarrow> host_st \<Rightarrow> host_st" where
  "link_done c e s =
     s\<lparr>hs_links := hs_links s - {c}, hs_closed := insert c (hs_closed s),
       hs_reports := hs_reports s @ (case host_report e of None \<Rightarrow> [] | Some x \<Rightarrow> [x])\<rparr>"

inductive host_step :: "host_st \<Rightarrow> host_st \<Rightarrow> bool" where
  offer: "hs_agent s = None \<Longrightarrow> hs_conns s = None \<Longrightarrow> c \<notin> hs_offered s \<Longrightarrow>
     host_step s (s\<lparr>hs_conns := Some c, hs_offered := insert c (hs_offered s)\<rparr>)"
| agent_ends: "hs_agent s = None \<Longrightarrow> host_step s (s\<lparr>hs_agent := Some (serveResult (Some e))\<rparr>)"
| cancelled: "host_step s (s\<lparr>hs_ctx := True\<rparr>)"
| accepts: "hs_loop s = HAccepting \<Longrightarrow> r \<in> Accept_results (accept_ctx s) (hoster_of s) \<Longrightarrow>
     host_step s (host_accept r s)"
| link_ends: "c \<in> hs_links s \<Longrightarrow> host_step s (link_done c (linkWithHost dialErr linkErr) s)"
| close_begins: "Hoster_Close (hoster_of s) = Some h \<Longrightarrow>
     host_step s (s\<lparr>hs_done := h_done h, hs_closer := CAgent\<rparr>)"
| hoster_closed: "hs_closer s = CAgent \<Longrightarrow> hs_agent s = Some e \<Longrightarrow>
     host_step s (s\<lparr>hs_closer := CLinks (Close_result e)\<rparr>)"
| close_ends: "hs_closer s = CLinks e \<Longrightarrow> hs_links s = {} \<Longrightarrow>
     host_step s (s\<lparr>hs_closer := CReturned (Host_Close e)\<rparr>)"

abbreviation host_reach :: "host_st \<Rightarrow> bool" where
  "host_reach \<equiv> reach (\<lambda>s. s = host0) host_step"

section \<open>Invariant\<close>

text \<open>Connections: offered once, accepted at most once, and linked until they are closed.\<close>

definition conns_inv :: "host_st \<Rightarrow> bool" where
  "conns_inv s \<longleftrightarrow>
     distinct (hs_accepted s) \<and> set (hs_accepted s) \<subseteq> hs_offered s \<and>
     (\<forall>c. hs_conns s = Some c \<longrightarrow> c \<in> hs_offered s \<and> c \<notin> set (hs_accepted s)) \<and>
     hs_links s \<union> hs_closed s = set (hs_accepted s) \<and> hs_links s \<inter> hs_closed s = {}"

text \<open>Results: those of the loop and of \<open>Close\<close> are what the sequential definitions give.\<close>

definition results_inv :: "host_st \<Rightarrow> bool" where
  "results_inv s \<longleftrightarrow>
     (\<forall>r. hs_loop s = HLoopReturned r \<longrightarrow>
        (\<exists>e. Host_AcceptAndLink (map Inr (hs_accepted s) @ [Inl e]) = (hs_accepted s, Some r)) \<and>
        (r = None \<longrightarrow> hs_done s)) \<and>
     (hs_done s \<longleftrightarrow> hs_closer s \<noteq> CNotCalled) \<and>
     (\<forall>e. hs_closer s = CLinks e \<longrightarrow> (\<exists>a. hs_agent s = Some a \<and> e = Close_result a)) \<and>
     (\<forall>e. hs_closer s = CReturned e \<longrightarrow> (\<exists>a. hs_agent s = Some a \<and> e = Host_Close (Close_result a)))"

definition host_inv :: "host_st \<Rightarrow> bool" where
  [inv_defs]: "host_inv s \<longleftrightarrow> conns_inv s \<and> results_inv s"

lemma Accept_results_cases:
  assumes "r \<in> Accept_results (accept_ctx s) (hoster_of s)"
  obtains (conn) c where "r = Inr c" "hs_conns s = Some c"
  | (closed) "r = Inl (Leaf ErrHosterClosed)" "hs_done s"
  | (ctx) "r = Inl (Leaf ContextCanceled)" "hs_ctx s"
  using assms by (auto simp: Accept_results_def accept_ctx_def hoster_of_def split: option.splits if_splits)

lemma conns_inv_step: "conns_inv s \<Longrightarrow> host_step s t \<Longrightarrow> conns_inv t"
proof (erule host_step.cases)
  fix s' r
  assume inv: "conns_inv s" and eqs: "s = s'" "t = host_accept r s'"
    and r: "r \<in> Accept_results (accept_ctx s') (hoster_of s')"
  from r show "conns_inv t"
    by (cases rule: Accept_results_cases) (use inv eqs in \<open>auto simp: conns_inv_def host_accept_def\<close>)
qed (auto simp: conns_inv_def link_done_def)

lemma results_inv_accept:
  assumes "results_inv s" and "hs_loop s = HAccepting" and "r \<in> Accept_results (accept_ctx s) (hoster_of s)"
  shows "results_inv (host_accept r s)"
  using assms(3)
proof (cases rule: Accept_results_cases)
  case (conn c)
  then show ?thesis using assms(1,2) by (auto simp: results_inv_def host_accept_def)
next
  case closed
  then show ?thesis
    using assms(1) Host_AcceptAndLink_result [of "hs_accepted s" "Leaf ErrHosterClosed" "[]"]
    by (auto simp: results_inv_def host_accept_def)
next
  case ctx
  then show ?thesis
    using assms(1) Host_AcceptAndLink_result [of "hs_accepted s" "Leaf ContextCanceled" "[]"]
    by (auto simp: results_inv_def host_accept_def ContextCanceled_def ErrHosterClosed_def errorf_def)
qed

lemma results_inv_step: "results_inv s \<Longrightarrow> host_step s t \<Longrightarrow> results_inv t"
proof (erule host_step.cases)
  fix s' r
  assume "results_inv s" "s = s'" "t = host_accept r s'" "hs_loop s' = HAccepting"
    "r \<in> Accept_results (accept_ctx s') (hoster_of s')"
  then show "results_inv t" using results_inv_accept by simp
qed (auto simp: results_inv_def link_done_def Hoster_Close_def hoster_of_def split: if_splits)

interpretation host: inductive_invariant "\<lambda>s. s = host0" host_step host_inv
proof unfold_locales
  fix s assume "s = host0"
  then show "host_inv s" by (simp add: host_inv_def conns_inv_def results_inv_def host0_def)
next
  fix s t assume "host_inv s" "host_step s t"
  then show "host_inv t" using conns_inv_step results_inv_step unfolding host_inv_def by blast
qed

section \<open>Closing\<close>

definition host_closing :: "host_st \<Rightarrow> bool" where
  "host_closing s \<longleftrightarrow> hs_closer s = CAgent \<or> (\<exists>e. hs_closer s = CLinks e)"

lemma links_can_end:
  assumes "finite (hs_links s)"
  shows "\<exists>t. host_step\<^sup>*\<^sup>* s t \<and> hs_links t = {} \<and> hs_closer t = hs_closer s \<and> hs_agent t = hs_agent s"
  using assms
proof (induction "card (hs_links s)" arbitrary: s)
  case (Suc n)
  then obtain c where c: "c \<in> hs_links s" by fastforce
  let ?t = "link_done c (linkWithHost None (Some (Leaf ErrTransportClosed))) s"
  have t: "host_step s ?t" by (rule link_ends [OF c])
  have "card (hs_links ?t) = n" "finite (hs_links ?t)" "hs_closer ?t = hs_closer s" "hs_agent ?t = hs_agent s"
    using Suc c by (simp_all add: link_done_def)
  with Suc.hyps(1) [of ?t] t show ?case by (metis converse_rtranclp_into_rtranclp)
qed auto

lemma host_links_finite: "host_inv s \<Longrightarrow> finite (hs_links s)"
  by (metis List.finite_set conns_inv_def finite_Un host_inv_def)

lemma links_then_return:
  assumes "host_inv s" and "hs_closer s = CLinks e"
  shows "\<exists>t. host_step\<^sup>*\<^sup>* s t \<and> hs_closer t = CReturned (Host_Close e)"
proof -
  obtain t where t: "host_step\<^sup>*\<^sup>* s t" "hs_links t = {}" "hs_closer t = CLinks e"
    using links_can_end [OF host_links_finite [OF assms(1)]] assms(2) by auto
  have "host_step t (t\<lparr>hs_closer := CReturned (Host_Close e)\<rparr>)" by (rule close_ends [OF t(3,2)])
  then show ?thesis using t(1) by (intro exI conjI) (erule rtranclp.rtrancl_into_rtrancl, assumption, simp)
qed

lemma host_close_can_return:
  assumes "host_inv s" and "host_closing s"
  shows "\<exists>t e. host_step\<^sup>*\<^sup>* s t \<and> hs_closer t = CReturned e"
proof (cases "hs_closer s")
  case CAgent
  obtain t a where t: "host_step\<^sup>*\<^sup>* s t" "hs_agent t = Some a" "hs_closer t = CAgent"
  proof (cases "hs_agent s")
    case None
    let ?r = "serveResult (Some (Leaf (H3Error errCodeClientClosed False)))"
    have "host_step s (s\<lparr>hs_agent := Some ?r\<rparr>)" by (rule agent_ends [OF None])
    then show ?thesis by (intro that [of "s\<lparr>hs_agent := Some ?r\<rparr>" ?r]) (simp_all add: CAgent)
  next
    case (Some a)
    then show ?thesis using CAgent by (intro that [of s a]) simp_all
  qed
  let ?u = "t\<lparr>hs_closer := CLinks (Close_result a)\<rparr>"
  have u: "host_step\<^sup>*\<^sup>* s ?u" using t hoster_closed [OF t(3,2)] by (meson rtranclp.rtrancl_into_rtrancl)
  then have "host_inv ?u" using host.inv_steps assms(1) by blast
  from links_then_return [OF this, of "Close_result a"] obtain v where
    "host_step\<^sup>*\<^sup>* ?u v" "hs_closer v = CReturned (Host_Close (Close_result a))" by auto
  then show ?thesis using u by (meson rtranclp_trans)
next
  case (CLinks e)
  then show ?thesis using links_then_return [OF assms(1)] by blast
qed (use assms(2) in \<open>auto simp: host_closing_def\<close>)


text \<open>A host that accepted a peer and is being closed.\<close>

definition one_peer :: host_st where
  "one_peer = host0\<lparr>hs_links := {P2PConn 1}, hs_offered := {P2PConn 1}, hs_accepted := [P2PConn 1],
     hs_done := True, hs_closer := CAgent\<rparr>"

lemmas host_next = reach_next [where init = "\<lambda>s. s = host0" and step = host_step]

lemma reach_offered: "host_reach (host0\<lparr>hs_conns := Some c, hs_offered := {c}\<rparr>)"
proof -
  have "host_reach host0" by (rule reach_init) simp
  then show ?thesis by (rule host_next [OF _ offer [where c = c]]) (simp_all add: host0_def)
qed

lemma reach_one_peer: "host_reach one_peer"
proof -
  have s1: "host_reach (host0\<lparr>hs_links := {P2PConn 1}, hs_offered := {P2PConn 1}, hs_accepted := [P2PConn 1]\<rparr>)"
    by (rule host_next [OF reach_offered accepts [where r = "Inr (P2PConn 1)"]])
      (simp_all add: host0_def Accept_results_def hoster_of_def host_accept_def)
  show ?thesis
    by (rule host_next [OF s1 close_begins [where h = "\<lparr>h_conns = None, h_done = True, h_agent = None\<rparr>"]])
      (simp_all add: host0_def Hoster_Close_def hoster_of_def one_peer_def)
qed


text \<open>
  But \<open>Accept\<close> chooses among the ready cases: with a connection in the channel it may return it after
  \<open>Close\<close> has returned, and its link starts after \<open>Close\<close> has waited for all of them.
\<close>
lemma link_after_close: "\<exists>s e. host_reach s \<and> hs_closer s = CReturned e \<and> hs_links s \<noteq> {}"
proof -
  let ?c = "P2PConn 1" and ?r = "serveResult (Some (Leaf (H3Error errCodeClientClosed False)))"
  let ?s = "host0\<lparr>hs_conns := Some ?c, hs_offered := {?c}, hs_done := True, hs_closer := CAgent\<rparr>"
  have s1: "host_reach ?s"
    by (rule host_next [OF reach_offered close_begins [where h = "\<lparr>h_conns = Some ?c, h_done = True, h_agent = None\<rparr>"]])
      (simp_all add: host0_def Hoster_Close_def hoster_of_def)
  have s2: "host_reach (?s\<lparr>hs_agent := Some ?r\<rparr>)"
    by (rule host_next [OF s1 agent_ends]) (simp_all add: host0_def)
  have s3: "host_reach (?s\<lparr>hs_agent := Some ?r, hs_closer := CLinks (Close_result ?r)\<rparr>)"
    by (rule host_next [OF s2 hoster_closed]) (simp_all add: host0_def)
  let ?t = "?s\<lparr>hs_agent := Some ?r, hs_closer := CReturned (Host_Close (Close_result ?r))\<rparr>"
  have s4: "host_reach ?t"
    by (rule host_next [OF s3 close_ends]) (simp_all add: host0_def)
  have "host_reach (host_accept (Inr ?c) ?t)"
    by (rule host_next [OF s4 accepts]) (simp_all add: host0_def Accept_results_def hoster_of_def)
  then show ?thesis by (intro exI conjI) (assumption | simp add: host_accept_def)+
qed

end
