(* ===== verification/Udp_Pipe.thy ===== *)
theory Udp_Pipe
  imports Udp_Listener
begin

text \<open>
  \<^verbatim>\<open>internal/platform/udp/pipe.go\<close>, a pair of connected UDP connections made with the listener, and the dialer
  of \<^verbatim>\<open>internal/platform/net.go\<close>.
\<close>

section \<open>Pipe\<close>

definition handshake :: bytes where "handshake = map (of_nat \<circ> of_char) ''hello''"

text \<open>
  \<open>Pipe\<close> on the results of its calls, in their order: listening, dialling, writing, accepting, reading and
  closing the listener. The error of listening is formatted with \<open>%v\<close> and so not wrapped.
\<close>

definition Pipe ::
  "error \<Rightarrow> err + 's \<Rightarrow> error \<Rightarrow> err + conn_id \<Rightarrow> err + bytes \<Rightarrow> error \<Rightarrow> err + 's \<times> conn_id" where
  "Pipe listenErr dial writeErr acc rd closeErr =
     (case listenErr of Some e \<Rightarrow> Inl (Leaf (Opaque ''failed to listen UDP'')) | None \<Rightarrow>
      case dial of Inl e \<Rightarrow> Inl (Wrap ''failed to dial UDP'' e) | Inr stdConn \<Rightarrow>
      case writeErr of Some e \<Rightarrow> Inl (Wrap ''failed to write to UDP connection'' e) | None \<Rightarrow>
      case acc of Inl e \<Rightarrow> Inl (Wrap ''failed to accept UDP connection'' e) | Inr custom \<Rightarrow>
      case rd of Inl e \<Rightarrow> Inl (Wrap ''failed to read from UDP connection'' e) | Inr res \<Rightarrow>
      if res \<noteq> handshake then Inl (Leaf (Opaque ''handshake failed''))
      else case closeErr of Some e \<Rightarrow> Inl (Wrap ''close listener'' e) | None \<Rightarrow> Inr (stdConn, custom))"

section \<open>DialUDP\<close>

definition LocalDialer_DialUDP :: "(string \<Rightarrow> string \<Rightarrow> err + 'c) \<Rightarrow> (int \<Rightarrow> string) \<Rightarrow> int \<Rightarrow> err + 'c" where
  "LocalDialer_DialUDP dialContext itoa port =
     (case dialContext ''udp'' (''127.0.0.1:'' @ itoa port) of
        Inl e \<Rightarrow> Inl (Wrap ''dial UDP'' e)
      | Inr c \<Rightarrow> Inr c)"

section \<open>The pipe works\<close>

lemmas udp_next = reach_next [where init = "udp_init" and step = udp_step]

lemma length_handshake: "length handshake \<le> MTU"
  by (simp add: handshake_def MTU_def)

text \<open>The listener after the first packet of a peer was dispatched, and after it was accepted.\<close>

definition greeted :: "packet \<Rightarrow> listener" where
  "greeted p = (Listen 0 0)\<lparr>heap := (\<lambda>_. blank_conn)(0 := new_conn p), next_id := 1, acceptQueue := [0],
     conns := [src p \<mapsto> 0]\<rparr>"

lemma reach_greeted:
  assumes "length (payload p) \<le> MTU"
  shows "udp_reach (greeted p)"
proof -
  let ?l = "Listen 0 0"
  have s0: "udp_reach ?l" by (rule reach_init) (auto simp: udp_init_def)
  have s1: "udp_reach (?l\<lparr>rpc := RLookup p\<rparr>)"
    by (rule udp_next [OF s0 recv [of _ p]]) (simp_all add: Listen_def assms)
  have s2: "udp_reach (?l\<lparr>rpc := RMiss p\<rparr>)"
    by (rule udp_next [OF s1 lookup [of _ p]]) (simp_all add: Listen_def dispatch_lookup_def)
  have s3: "udp_reach (?l\<lparr>rpc := RNew p\<rparr>)"
    by (rule udp_next [OF s2 check [of _ p]]) (simp_all add: Listen_def dispatch_check_def)
  have s4: "udp_reach (?l\<lparr>heap := (\<lambda>_. blank_conn)(0 := new_conn p), next_id := 1, acceptQueue := [0],
      rpc := RStore (src p) 0\<rparr>)"
    by (rule udp_next [OF s3 enqueue [of _ p]])
      (simp_all add: Listen_def dispatch_enqueue_def set_conn_def defaultConnBacklog_def)
  show ?thesis
    by (rule udp_next [OF s4 store [of _ "src p" 0]]) (simp_all add: Listen_def dispatch_store_def greeted_def)
qed

definition piped :: "packet \<Rightarrow> listener" where
  "piped p = (greeted p)\<lparr>acceptQueue := [], accepted := {0}, heap := (\<lambda>_. blank_conn)(0 := (new_conn p)\<lparr>reads := []\<rparr>),
     l_done := True\<rparr>"

lemma reach_piped:
  assumes "length (payload p) \<le> MTU"
  shows "udp_reach (piped p)"
proof -
  let ?a = "(greeted p)\<lparr>acceptQueue := [], accepted := {0}\<rparr>"
  have s1: "udp_reach ?a"
    by (rule udp_next [OF reach_greeted [OF assms] accept [of _ 0 ?a]]) (simp_all add: Accept_def greeted_def Listen_def)
  have s2: "udp_reach (?a\<lparr>heap := (\<lambda>_. blank_conn)(0 := (new_conn p)\<lparr>reads := []\<rparr>)\<rparr>)"
    by (rule udp_next [OF s1 read [of 0 _ "Inr (payload p)" "(new_conn p)\<lparr>reads := []\<rparr>" "length (payload p)" 0]])
      (simp_all add: Conn_Read_def greeted_def new_conn_def set_conn_def)
  show ?thesis
    by (rule udp_next [OF s2 listener_close])
      (simp_all add: Listener_Close_def tryCloseConn_def greeted_def Listen_def piped_def)
qed

text \<open>
  The calls of \<open>Pipe\<close> fit together. After the greeting of a peer was dispatched, \<open>Accept\<close> returns its
  connection, whose \<open>Read\<close> into a buffer of the length of the greeting returns just that, so that
  \<open>Pipe\<close> succeeds; and closing the listener then leaves the socket open, and the next packets of
  the peer are dispatched to the connection.
\<close>
theorem pipe_works:
  assumes "payload p = handshake"
  shows "udp_reach (greeted p) \<and> Accept_ready (greeted p) = {Inr 0} \<and>
    Conn_Read (length handshake) now (heap (greeted p) 0) = {(Inr handshake, heap (piped p) 0)} \<and>
    Pipe None (Inr stdConn) None (Inr 0) (Inr handshake) None = Inr (stdConn, 0) \<and>
    udp_reach (piped p) \<and> \<not> sock_closed (piped p) \<and> conns (piped p) (src p) = Some 0 \<and>
    rpc (dispatch_lookup q (piped p)) = (if src q = src p then RFound 0 q else RMiss q)"
  using reach_greeted [of p] reach_piped [of p] length_handshake assms
  by (simp add: greeted_def piped_def Listen_def Accept_ready_def Conn_Read_def new_conn_def deadline_fired_def
      Pipe_def dispatch_lookup_def)

theorem pipe_works_witness:
  "udp_reach (piped \<lparr>src = ''a'', payload = handshake\<rparr>) \<and> \<not> sock_closed (piped \<lparr>src = ''a'', payload = handshake\<rparr>)"
  using pipe_works [of "\<lparr>src = ''a'', payload = handshake\<rparr>" 0 "()"] by simp

text \<open>Every error of its calls but that of listening can be found in the error of \<open>Pipe\<close>.\<close>

lemma Pipe_errors:
  "Pipe None (Inl e) w a r c = Inl (Wrap ''failed to dial UDP'' e)"
  "errorsIs (Some (Wrap m e)) t \<longleftrightarrow> errorsIs (Some e) t"
  "Pipe l d w a r c = Inr (s, x) \<longleftrightarrow> l = None \<and> d = Inr s \<and> w = None \<and> a = Inr x \<and> r = Inr handshake \<and> c = None"
  by (auto simp: Pipe_def split: option.splits sum.splits if_splits)

end
