(* ===== verification/Rate_Limit.thy ===== *)
theory Rate_Limit
  imports TTL_Map
begin

text \<open>
  What the rate limiter of \<^verbatim>\<open>internal/platform/httpplatform/middleware.go\<close> does for a sequence of requests. It keeps a
  limiter per address in a map that forgets addresses not seen for a while; the time to live is chosen so
  that a limiter is forgotten only when it is full again. Shown is that the forgetting cannot be
  observed, and how many requests of an address get through.
\<close>

section \<open>Token buckets\<close>

text \<open>
  Credit is counted in nanoseconds, one request costs \<open>every\<close> of them. A bucket with credit \<open>c\<close> at time \<open>t\<close>
  gains one per nanosecond up to its capacity.
\<close>

definition level :: "int \<Rightarrow> int \<Rightarrow> int \<times> int \<Rightarrow> int" where
  "level cap now b = min cap (fst b + (now - snd b))"

text \<open>
  The documented behaviour of a limiter of \<open>x/time/rate\<close>, with a function \<open>tk\<close> that tells its credit and the time
  to which that applies: a new one is full; a reservation takes a token that is there, without delay, or has
  a delay; and cancelling one that has just been made undoes it. The law leaves out the rounding of the
  \<open>float64\<close> in which the library counts tokens.
\<close>

definition bucket_law :: "'l rate_api \<Rightarrow> int \<Rightarrow> int \<Rightarrow> ('l \<Rightarrow> int \<times> int) \<Rightarrow> bool" where
  "bucket_law api every cap tk \<longleftrightarrow>
     tk (NewLimiter api) = (cap, 0) \<and>
     (\<forall>now l. snd (tk l) \<le> now \<longrightarrow>
        (case Reserve api now l of
           (delay, l') \<Rightarrow>
             if every \<le> level cap now (tk l)
             then delay = Some 0 \<and> tk l' = (level cap now (tk l) - every, now)
             else (delay = None \<or> 0 < the delay) \<and> tk (Cancel api now l') = (level cap now (tk l), now)))"

lemma bucket_lawD:
  assumes "bucket_law api every cap tk" and "snd (tk l) \<le> now" and "Reserve api now l = (delay, l')"
  shows "if every \<le> level cap now (tk l)
     then delay = Some 0 \<and> tk l' = (level cap now (tk l) - every, now)
     else (delay = None \<or> 0 < the delay) \<and> tk (Cancel api now l') = (level cap now (tk l), now)"
  using conjunct2 [OF assms(1) [unfolded bucket_law_def], rule_format, OF assms(2)] assms(3) by simp

section \<open>Sequences of requests\<close>

text \<open>
  Requests one after the other, each at one reading of the clock; the results tell which of them
  were let through.
\<close>

fun RateLimit_run :: "'l rate_api \<Rightarrow> (int \<Rightarrow> string) \<Rightarrow> (int \<times> ip_addr) list \<Rightarrow> 'l rate_state \<Rightarrow> (bool list \<times> 'l rate_state) option" where
  "RateLimit_run api itoa [] s = Some ([], s)"
| "RateLimit_run api itoa ((now, ip) # rs) s =
     do { (resp, _, s') \<leftarrow> RateLimit_request api itoa (at now) now now ip s;
          (bs, s'') \<leftarrow> RateLimit_run api itoa rs s';
          Some ((resp = None) # bs, s'') }"

text \<open>What it promises: a bucket for every address, for ever.\<close>

fun buckets :: "int \<Rightarrow> int \<Rightarrow> (int \<times> ip_addr) list \<Rightarrow> (ip_addr \<Rightarrow> int \<times> int) \<Rightarrow> bool list" where
  "buckets every cap [] g = []"
| "buckets every cap ((now, ip) # rs) g =
     (let c = level cap now (g ip); ok = (every \<le> c) in
      ok # buckets every cap rs (if ok then g(ip := (c - every, now)) else g))"

fun times_ok :: "int \<Rightarrow> (int \<times> ip_addr) list \<Rightarrow> bool" where
  "times_ok now [] = True"
| "times_ok now ((t, _) # rs) \<longleftrightarrow> now \<le> t \<and> times_ok t rs"

lemma level_le: "level cap now b \<le> cap"
  by (simp add: level_def)

lemma level_later: "now \<le> t \<Longrightarrow> level cap t (level cap now b, now) = level cap t b"
  by (simp add: level_def min_def)

lemma level_grows: "now \<le> t \<Longrightarrow> level cap t b \<le> level cap now b + (t - now)"
  by (simp add: level_def min_def)

lemma level_mono: "now \<le> t \<Longrightarrow> level cap now b \<le> level cap t b"
  by (simp add: level_def min_def)

section \<open>Forgetting cannot be observed\<close>

text \<open>
  The map, as the abstract map \<open>f\<close> from addresses to pointers with the time of their last access, against the
  buckets: a limiter in the map has the level of the bucket of its address, an address that is
  not in the map has a full bucket, and no two addresses share a limiter.
\<close>

definition tracks ::
  "('l \<Rightarrow> int \<times> int) \<Rightarrow> int \<Rightarrow> int \<Rightarrow> (ip_addr \<rightharpoonup> nat \<times> int) \<Rightarrow> (nat \<rightharpoonup> 'l) \<Rightarrow> nat \<Rightarrow> (ip_addr \<Rightarrow> int \<times> int) \<Rightarrow> bool" where
  "tracks tk cap now f lims fresh g \<longleftrightarrow>
     (\<forall>ip p t. f ip = Some (p, t) \<longrightarrow>
        p < fresh \<and> t \<le> now \<and>
        (\<exists>l. lims p = Some l \<and> snd (tk l) \<le> t \<and> 0 \<le> fst (tk l) \<and>
             (\<forall>u \<ge> now. level cap u (tk l) = level cap u (g ip)))) \<and>
     (\<forall>ip. f ip = None \<longrightarrow> (\<forall>u \<ge> now. level cap u (g ip) = cap)) \<and>
     (\<forall>ip ip' p t t'. f ip = Some (p, t) \<longrightarrow> f ip' = Some (p, t') \<longrightarrow> ip = ip')"

lemma tracksD:
  assumes "tracks tk cap now f lims fresh g"
  shows "f ip = Some (p, t) \<Longrightarrow> p < fresh \<and> t \<le> now \<and>
        (\<exists>l. lims p = Some l \<and> snd (tk l) \<le> t \<and> 0 \<le> fst (tk l) \<and>
             (\<forall>u \<ge> now. level cap u (tk l) = level cap u (g ip)))"
    and "f ip = None \<Longrightarrow> now \<le> u \<Longrightarrow> level cap u (g ip) = cap"
    and "f ip = Some (p, t) \<Longrightarrow> f ip' = Some (p, t') \<Longrightarrow> ip = ip'"
  using assms unfolding tracks_def by blast+

text \<open>An entry that has expired had the time to fill up.\<close>

lemma tracks_forget:
  assumes "tracks tk cap now f lims fresh g" and "now \<le> t"
  shows "tracks tk cap t (live cap t f) lims fresh g"
proof -
  note D = tracksD [OF assms(1)]
  have kept: "f i = Some (q, v)" if "live cap t f i = Some (q, v)" for i q v
    using that by (auto simp: live_def split: option.splits prod.splits if_splits)
  have gone: "level cap u (g i) = cap" if "live cap t f i = None" "t \<le> u" for i u
  proof (cases "f i")
    case None
    then show ?thesis using D(2) that(2) assms(2) by simp
  next
    case (Some x)
    then obtain q v where x: "f i = Some (q, v)" by (cases x) simp
    then have "cap \<le> t - v" using that(1) by (auto simp: live_def split: if_splits)
    moreover obtain l where "snd (tk l) \<le> v" "0 \<le> fst (tk l)" "level cap u (tk l) = level cap u (g i)"
      using D(1) [OF x] \<open>t \<le> u\<close> assms(2) by (meson order_trans)
    ultimately show ?thesis using \<open>t \<le> u\<close> by (simp add: level_def)
  qed
  show ?thesis
    unfolding tracks_def using D(1,3) kept gone assms(2) by (meson order_trans)
qed

lemma tracks_touch:
  assumes "tracks tk cap now f lims fresh g" and "f ip = Some (p, t)"
  shows "tracks tk cap now (f(ip \<mapsto> (p, now))) lims fresh g"
proof -
  note D = tracksD [OF assms(1)]
  show ?thesis
    unfolding tracks_def using D(1) [OF assms(2)] D(1) D(2) D(3) [OF _ assms(2)] D(3) [OF assms(2)] D(3)
    by (auto simp: fun_upd_apply split: if_splits)
qed

lemma tracks_make:
  assumes "tracks tk cap now f lims fresh g" and "f ip = None" and "tk l = (cap, 0)" and "0 \<le> now" and "0 \<le> cap"
  shows "tracks tk cap now (f(ip \<mapsto> (fresh, now))) (lims(fresh \<mapsto> l)) (Suc fresh) g"
proof -
  note D = tracksD [OF assms(1)]
  have old: "p < fresh" if "f i = Some (p, t)" for i p t using D(1) [OF that] by blast
  have full: "level cap u (cap, 0) = level cap u (g ip)" if "now \<le> u" for u
    using D(2) [OF assms(2) that] assms(4) that by (simp add: level_def)
  show ?thesis
    unfolding tracks_def using D(1,2,3) old full assms(3-5)
    by (auto simp: fun_upd_apply less_Suc_eq split: if_splits) (fastforce dest: old)+
qed

lemma tracks_use:
  assumes "tracks tk cap now f lims fresh g" and "f ip = Some (p, now)"
    and "snd (tk l) \<le> now" and "0 \<le> fst (tk l)" and "\<And>u. now \<le> u \<Longrightarrow> level cap u (tk l) = level cap u b"
  shows "tracks tk cap now f (lims(p \<mapsto> l)) fresh (g(ip := b))"
proof -
  note D = tracksD [OF assms(1)]
  have "i = ip" if "f i = Some (p, t)" for i t using D(3) [OF that assms(2)] .
  then show ?thesis
    unfolding tracks_def using D(1,2,3) assms(2-5) by (auto simp: fun_upd_apply)
qed

section \<open>A request\<close>

definition limiter_ok :: "('l \<Rightarrow> int \<times> int) \<Rightarrow> int \<Rightarrow> int \<Rightarrow> 'l rate_state \<Rightarrow> (ip_addr \<Rightarrow> int \<times> int) \<Rightarrow> bool" where
  [inv_defs]: "limiter_ok tk cap now s g \<longleftrightarrow>
     ttl_ok now (ipLimiterMap s) \<and> ttl (ipLimiterMap s) = cap \<and>
     tracks tk cap now (ttl_abs (ipLimiterMap s)) (rl_lims s) (rl_fresh s) g"

lemma limiter_ok_new:
  assumes "0 < every" and "0 < burst"
  shows "limiter_ok tk (burst * every) 0 (RateLimit_new every burst) (\<lambda>_. (burst * every, 0))"
proof -
  have "RateLimit_ttl every burst = burst * every"
    using assms by (auto simp: RateLimit_ttl_def)
  then show ?thesis by (simp add: limiter_ok_def tracks_def RateLimit_new_def level_def)
qed

text \<open>The limiter a request works with, and the state at that point.\<close>

definition looked_up :: "'l rate_api \<Rightarrow> nat \<Rightarrow> (ip_addr, nat) ttl_map \<Rightarrow> 'l rate_state \<Rightarrow> 'l rate_state" where
  "looked_up api p m s =
     (if p = rl_fresh s
      then s\<lparr>rl_lims := (rl_lims s)(p \<mapsto> NewLimiter api), rl_fresh := Suc (rl_fresh s)\<rparr> else s)\<lparr>ipLimiterMap := m\<rparr>"

lemma limiter_lookup:
  assumes ok: "limiter_ok tk cap now s g" and "now \<le> t" and "0 \<le> now" and "0 \<le> cap" and new: "tk (NewLimiter api) = (cap, 0)"
  shows "\<exists>p m. GetOrSet (at t) ip (rl_fresh s) (ipLimiterMap s) = Some (p, m) \<and>
    limiter_ok tk cap t (looked_up api p m s) g \<and> ttl_abs m ip = Some (p, t)"
proof -
  let ?f = "ttl_abs (ipLimiterMap s)"
  have tr: "tracks tk cap t (live cap t ?f) (rl_lims s) (rl_fresh s) g"
    using ok tracks_forget assms(2) by (auto simp: limiter_ok_def)
  have "mono (at t)" "ttl_ok (at t 0) (ipLimiterMap s)"
    using ok ttl_ok_mono assms(2) by (auto simp: limiter_ok_def at_def mono_def)
  from GetOrSet_live [OF this, of ip "rl_fresh s"] obtain p m c j where
    "GetOrSet (at t) ip (rl_fresh s) (ipLimiterMap s) = Some (p, m)" "ttl m = ttl (ipLimiterMap s)" "ttl_ok (at t j) m"
    "p = (case live (ttl (ipLimiterMap s)) (at t c) ?f ip of Some (w, _) \<Rightarrow> w | None \<Rightarrow> rl_fresh s)"
    "ttl_abs m = (live (ttl (ipLimiterMap s)) (at t c) ?f)(ip \<mapsto> (p, at t j))" by blast
  moreover have "ttl (ipLimiterMap s) = cap" "at t i = t" for i using ok by (simp_all add: limiter_ok_def at_def)
  ultimately have g: "GetOrSet (at t) ip (rl_fresh s) (ipLimiterMap s) = Some (p, m)" "ttl m = cap" "ttl_ok t m"
      "p = (case live cap t ?f ip of Some (w, _) \<Rightarrow> w | None \<Rightarrow> rl_fresh s)"
      "ttl_abs m = (live cap t ?f)(ip \<mapsto> (p, t))" by simp_all
  have "limiter_ok tk cap t (looked_up api p m s) g"
  proof (cases "live cap t ?f ip")
    case None
    then have "p = rl_fresh s" using g(4) by simp
    then show ?thesis using tracks_make [OF tr None new] g assms(2-4)
      by (simp add: limiter_ok_def looked_up_def)
  next
    case (Some x)
    then obtain v where x: "live cap t ?f ip = Some (p, v)" using g(4) by (cases x) simp
    then have "p \<noteq> rl_fresh s" using tracksD(1) [OF tr x] by simp
    then show ?thesis using tracks_touch [OF tr x] g
      by (simp add: limiter_ok_def looked_up_def)
  qed
  then show ?thesis using g(1,5) by auto
qed

lemma RateLimit_step:
  assumes law: "bucket_law api every cap tk" and ok: "limiter_ok tk cap now s g" and "now \<le> t" and "0 \<le> now"
    and "0 \<le> cap" and "0 < every" and c_def: "c = level cap t (g ip)"
  shows "\<exists>resp p s'. RateLimit_request api itoa (at t) t t ip s = Some (resp, p, s') \<and> (resp = None \<longleftrightarrow> every \<le> c) \<and>
    limiter_ok tk cap t s' (if every \<le> c then g(ip := (c - every, t)) else g)"
proof -
  have "tk (NewLimiter api) = (cap, 0)" using law by (simp add: bucket_law_def)
  from limiter_lookup [OF ok assms(3-5) this, of ip] obtain p m where
    m: "GetOrSet (at t) ip (rl_fresh s) (ipLimiterMap s) = Some (p, m)"
      "limiter_ok tk cap t (looked_up api p m s) g" "ttl_abs m ip = Some (p, t)" by blast
  let ?s = "looked_up api p m s"
  have tr: "tracks tk cap t (ttl_abs m) (rl_lims ?s) (rl_fresh ?s) g" and rest: "ttl_ok t m" "ttl m = cap"
    using m(2) by (simp_all add: limiter_ok_def looked_up_def)
  from tracksD(1) [OF tr m(3)] obtain l where
    l: "rl_lims ?s p = Some l" "snd (tk l) \<le> t" "0 \<le> fst (tk l)" "level cap t (tk l) = level cap t (g ip)"
    by blast
  obtain delay l' where r: "Reserve api t l = (delay, l')" by force
  have res: "if every \<le> c then delay = Some 0 \<and> tk l' = (c - every, t)
     else (delay = None \<or> 0 < the delay) \<and> tk (Cancel api t l') = (c, t)"
    using bucket_lawD [OF law l(2) r] l(4) by (simp add: c_def)
  have put: "limiter_ok tk cap t (?s\<lparr>rl_lims := (rl_lims ?s)(p \<mapsto> l2)\<rparr>) (g(ip := b))"
    if "snd (tk l2) \<le> t" "0 \<le> fst (tk l2)" "\<And>u. t \<le> u \<Longrightarrow> level cap u (tk l2) = level cap u b" for l2 b
    using tracks_use [OF tr m(3) that] rest by (simp add: limiter_ok_def looked_up_def)
  have req: "RateLimit_request api itoa (at t) t t ip s =
    (if delay = None \<or> 0 < the delay
     then Some (Some (too_many itoa delay), p, ?s\<lparr>rl_lims := (rl_lims ?s)(p \<mapsto> Cancel api t l')\<rparr>)
     else Some (None, p, ?s\<lparr>rl_lims := (rl_lims ?s)(p \<mapsto> l')\<rparr>))"
    using m(1) l(1) r by (simp add: RateLimit_request_def looked_up_def Let_def)
  show ?thesis
  proof (cases "every \<le> c")
    case True
    then show ?thesis using res put [of l' "(c - every, t)"] req by simp
  next
    case False
    have "0 \<le> c" using l(2-4) assms(3-5) by (simp add: c_def level_def)
    moreover have "level cap u (c, t) = level cap u (g ip)" if "t \<le> u" for u
      using level_later [OF that] by (simp add: c_def)
    ultimately show ?thesis using False res put [of "Cancel api t l'" "g ip"] req by auto
  qed
qed

lemma RateLimit_run_buckets:
  assumes "bucket_law api every cap tk" and "0 \<le> cap" and "0 < every"
  shows "limiter_ok tk cap now s g \<Longrightarrow> 0 \<le> now \<Longrightarrow> times_ok now rs \<Longrightarrow>
    \<exists>s'. RateLimit_run api itoa rs s = Some (buckets every cap rs g, s')"
proof (induction rs arbitrary: now s g)
  case Nil
  then show ?case by simp
next
  case (Cons r rs)
  obtain t ip where r: "r = (t, ip)" by (cases r)
  define c where "c = level cap t (g ip)"
  have "now \<le> t" using Cons.prems r by simp
  from RateLimit_step [OF assms(1) Cons.prems(1) this Cons.prems(2) assms(2,3) c_def, of itoa] obtain resp p s1 where
    s1: "RateLimit_request api itoa (at t) t t ip s = Some (resp, p, s1)" "resp = None \<longleftrightarrow> every \<le> c"
      "limiter_ok tk cap t s1 (if every \<le> c then g(ip := (c - every, t)) else g)" by blast
  from Cons.IH [OF s1(3)] Cons.prems obtain s' where
    "RateLimit_run api itoa rs s1 = Some (buckets every cap rs (if every \<le> c then g(ip := (c - every, t)) else g), s')"
    by (auto simp: r)
  then show ?case using s1(1,2) by (simp add: r c_def Let_def del: fun_upd_apply)
qed

section \<open>How many get through\<close>

definition admitted :: "ip_addr \<Rightarrow> int \<Rightarrow> int \<Rightarrow> (int \<times> ip_addr) list \<Rightarrow> bool list \<Rightarrow> nat" where
  "admitted ip a b rs bs = length (filter (\<lambda>((t, i), ok). ok \<and> i = ip \<and> a \<le> t \<and> t \<le> b) (zip rs bs))"

lemma admitted_simps [simp]:
  "admitted ip a b [] bs = 0"
  "admitted ip a b ((t, i) # rs) (ok # bs) = (if ok \<and> i = ip \<and> a \<le> t \<and> t \<le> b then 1 else 0) + admitted ip a b rs bs"
  by (simp_all add: admitted_def)

lemma admitted_late: "times_ok now rs \<Longrightarrow> b < now \<Longrightarrow> admitted ip a b rs bs = 0"
proof (induction rs arbitrary: now bs)
  case (Cons r rs)
  then show ?case by (cases r; cases bs) (force simp: admitted_def)+
qed simp

text \<open>
  From \<open>m\<close> on, the later of the present and the start of the window, an address can spend what is in its bucket
  and what flows in until the end of the window.
\<close>

lemma buckets_bound:
  assumes "0 < every"
  shows "times_ok now rs \<Longrightarrow> m = max now a \<Longrightarrow> m \<le> b \<Longrightarrow> 0 \<le> level cap now (g ip) \<Longrightarrow>
    every * int (admitted ip a b rs (buckets every cap rs g)) \<le> level cap m (g ip) + (b - m)"
proof (induction rs arbitrary: now m g)
  case Nil
  then show ?case using level_mono [of now m cap "g ip"] by simp
next
  case (Cons r rs)
  obtain t i where r: "r = (t, i)" by (cases r)
  let ?c = "level cap t (g i)"
  let ?g = "if every \<le> ?c then g(i := (?c - every, t)) else g"
  have t: "now \<le> t" "times_ok t rs" using Cons.prems r by auto
  have pos: "0 \<le> level cap m (g ip)" "0 \<le> level cap t (g ip)" "0 \<le> level cap t (?g ip)"
    using Cons.prems(2,4) t(1) level_mono [of now m cap "g ip"] level_mono [of now t cap "g ip"]
    by (auto simp: level_def)
  show ?case
  proof (cases "max t a \<le> b")
    case True
    have IH: "every * int (admitted ip a b rs (buckets every cap rs ?g)) \<le> level cap (max t a) (?g ip) + (b - max t a)"
      using Cons.IH [where g = ?g, OF t(2) refl True pos(3)] .
    have "level cap (max t a) (?g ip) + (if every \<le> ?c \<and> i = ip \<and> a \<le> t \<and> t \<le> b then every else 0) \<le>
      level cap m (g ip) + (max t a - m)"
      using Cons.prems(2) t(1) assms by (auto simp: level_def min_def max_def)
    then show ?thesis using IH by (auto simp: r Let_def algebra_simps simp del: fun_upd_apply split: if_splits)
  next
    case False
    then have "b < t" using Cons.prems(2,3) by auto
    then have "admitted ip a b (r # rs) bs = 0" for bs
      using admitted_late [of t "r # rs"] t by (simp add: r)
    then show ?thesis using pos(1) Cons.prems(3) by simp
  qed
qed


text \<open>A limiter that keeps the law: a bucket that a reservation may overdraw.\<close>

definition overdraft :: "int \<Rightarrow> int \<Rightarrow> (int \<times> int) rate_api" where
  "overdraft every cap =
     \<lparr>NewLimiter = (cap, 0),
      Reserve = (\<lambda>now l. (Some (max 0 (every - level cap now l)), (level cap now l - every, now))),
      Cancel = (\<lambda>now l. (fst l + every, now))\<rparr>"

lemma overdraft_law: "bucket_law (overdraft every cap) every cap id"
  by (simp add: bucket_law_def overdraft_def)

text \<open>
  Two requests in a burst, one every five nanoseconds: the third request comes too early, the fourth
  after the limiter has been forgotten.
\<close>

definition four_requests :: "(int \<times> ip_addr) list" where
  "four_requests = [(0, V4 1), (1, V4 1), (2, V4 1), (20, V4 1)]"


end
