(* ===== verification/Test_Support.thy ===== *)
theory Test_Support
  imports Registar_Main
begin

text \<open>
  The helper packages with which the repository tests its parts against each other: \<^verbatim>\<open>http3test\<close>, \<^verbatim>\<open>quictest\<close>,
  \<^verbatim>\<open>registartest\<close>, \<^verbatim>\<open>controltest\<close> and the echo program of \<^verbatim>\<open>p2ptest\<close>. A call of \<open>t.Fatal\<close>, which ends the test, is
  \<open>None\<close>; \<open>t.Error\<close> is the error it reports.
\<close>

section \<open>http3test and quictest\<close>

record server_tls =
  sv_cert :: cert
  sv_key :: nat
  sv_NextProtos :: "string list"

record client_tls =
  cl_roots :: "cert list"
  cl_NextProtos :: "string list"

definition ServerTLSConfig ::
  "(int \<Rightarrow> int) \<Rightarrow> ca_env \<Rightarrow> err + nat \<Rightarrow> ca_env \<Rightarrow> string \<Rightarrow> (cert \<times> server_tls) option" where
  "ServerTLSConfig addYear caEnv srvKey certEnv ip =
     (case cert_NewCA addYear caEnv of Inl _ \<Rightarrow> None | Inr (ca, caKey) \<Rightarrow>
      case srvKey of Inl _ \<Rightarrow> None | Inr k \<Rightarrow>
      case cert_NewIPCert ca caKey k [ip] certEnv of
        Inl _ \<Rightarrow> None
      | Inr c \<Rightarrow> Some (ca, \<lparr>sv_cert = c, sv_key = k, sv_NextProtos = [''h3'']\<rparr>))"

text \<open>\<open>Server.TLSConfig\<close> of \<open>http3test\<close> and \<open>registartest\<close>, and \<open>Server.URL\<close> of both.\<close>

definition test_TLSConfig :: "cert \<Rightarrow> client_tls" where
  "test_TLSConfig ca = \<lparr>cl_roots = [ca], cl_NextProtos = [''h3'']\<rparr>"

definition test_URL :: "string \<Rightarrow> string \<times> string" where
  "test_URL localAddr = (''https'', localAddr)"

text \<open>What a cleanup reports: a server that was closed is no error.\<close>

definition serve_report :: "(err \<Rightarrow> bool) \<Rightarrow> error \<Rightarrow> error" where
  "serve_report expected served =
     (case served of None \<Rightarrow> None | Some e \<Rightarrow> if expected e then None else Some e)"

definition cleanup_reports :: "(err \<Rightarrow> bool) \<Rightarrow> error \<Rightarrow> error \<Rightarrow> err list" where
  "cleanup_reports expected shutdownErr served =
     (case shutdownErr of None \<Rightarrow> [] | Some e \<Rightarrow> [e]) @ (case serve_report expected served of None \<Rightarrow> [] | Some e \<Rightarrow> [e])"

text \<open>\<open>quictest.Pipe\<close>: the two ends of a connection over the loopback interface.\<close>

definition quictest_Pipe ::
  "(int \<Rightarrow> int) \<Rightarrow> ca_env \<Rightarrow> err + nat \<Rightarrow> ca_env \<Rightarrow> error \<Rightarrow> (client_tls \<Rightarrow> server_tls \<Rightarrow> err + 'c) \<Rightarrow> err + 'c \<Rightarrow> ('c \<times> 'c) option" where
  "quictest_Pipe addYear caEnv srvKey certEnv listenErr dial accept =
     (case ServerTLSConfig addYear caEnv srvKey certEnv ''127.0.0.1'' of
        None \<Rightarrow> None
      | Some (ca, srv) \<Rightarrow>
          (case listenErr of Some _ \<Rightarrow> None | None \<Rightarrow>
           case dial (test_TLSConfig ca) srv of Inl _ \<Rightarrow> None | Inr clConn \<Rightarrow>
           case accept of Inl _ \<Rightarrow> None | Inr srvConn \<Rightarrow> Some (clConn, srvConn)))"

section \<open>registartest and controltest\<close>

definition registartest_NewServer :: "ca_env \<Rightarrow> bytes \<Rightarrow> server option" where
  "registartest_NewServer env secret =
     (case NewRootCA env of Inl _ \<Rightarrow> None | Inr rt \<Rightarrow> Some (NewServer secret (NewAuthority rt)))"

definition errCodeServerClosed :: u64 where "errCodeServerClosed = 0x1d3d3d"

definition isServerClosedErr :: "error \<Rightarrow> bool" where
  "isServerClosedErr e = as_application e errCodeServerClosed False"

text \<open>
  \<open>ServeAgent\<close>: what ends the accept loop, and the results of serving the streams in the order in
  which they end; the group keeps the first error.
\<close>

datatype agent_event = AcceptFails err | ServeEnds error

fun agent_result :: "agent_event \<Rightarrow> error" where
  "agent_result (AcceptFails e) = errorf ''accept stream'' e"
| "agent_result (ServeEnds r) = r"

fun group_first :: "error list \<Rightarrow> error" where
  "group_first [] = None"
| "group_first (None # rs) = group_first rs"
| "group_first (Some e # rs) = Some e"

definition ServeAgent :: "agent_event list \<Rightarrow> error" where
  "ServeAgent evs = serve_report (\<lambda>e. isServerClosedErr (Some e)) (group_first (map agent_result evs))"

section \<open>p2ptest\<close>

text \<open>\<open>Cert.TLSConfig\<close>: the root, the certificate and the key.\<close>

definition Cert_TLSConfig :: "err + cert \<Rightarrow> err + 'k \<Rightarrow> bytes \<Rightarrow> err + cert list \<times> bytes \<times> 'k" where
  "Cert_TLSConfig caCert privKey certDER =
     (case caCert of Inl e \<Rightarrow> Inl (Wrap ''parse CA cert'' e) | Inr ca \<Rightarrow>
      case privKey of Inl e \<Rightarrow> Inl (Wrap ''parse private key'' e) | Inr k \<Rightarrow> Inr ([ca], certDER, k))"

text \<open>\<open>io.ReadFull\<close> on the bytes a stream gives before its end.\<close>

definition io_ReadFull :: "nat \<Rightarrow> bytes \<Rightarrow> err + bytes" where
  "io_ReadFull n d =
     (if n \<le> length d then Inr (take n d)
      else Inl (Leaf (Sentinel (if d = [] then ''EOF'' else ''unexpected EOF''))))"

text \<open>
  The client of the echo program: what opening the stream, writing, closing it and closing the
  connection give, and the bytes that come back. A buffer writes itself in one piece, whatever
  buffer \<open>CopyBuffer\<close> is given.
\<close>

definition runClient :: "error \<Rightarrow> bytes \<Rightarrow> error \<Rightarrow> error \<Rightarrow> bytes \<Rightarrow> error \<Rightarrow> error" where
  "runClient openErr want writeErr closeErr echoed connErr =
     (case openErr of Some e \<Rightarrow> errorf ''open stream'' e | None \<Rightarrow>
      case writeErr of Some e \<Rightarrow> errorf ''write to stream'' e | None \<Rightarrow>
      case closeErr of Some e \<Rightarrow> errorf ''close stream'' e | None \<Rightarrow>
      case io_ReadFull (length want) echoed of
        Inl e \<Rightarrow> errorf ''read stream'' e
      | Inr got \<Rightarrow> if want \<noteq> got then Some (Leaf (Opaque ''data differs'')) else connErr)"

text \<open>The server: what it writes back, and its result once the connection or the context is done.\<close>

definition runServer :: "error \<Rightarrow> err + bytes \<Rightarrow> error \<Rightarrow> error \<Rightarrow> error \<Rightarrow> bytes option \<times> error" where
  "runServer acceptErr rd writeErr closeErr waited =
     (case acceptErr of Some e \<Rightarrow> (None, errorf ''accept stream'' e) | None \<Rightarrow>
      case rd of Inl e \<Rightarrow> (None, errorf ''read stream'' e) | Inr got \<Rightarrow>
      case writeErr of Some e \<Rightarrow> (None, errorf ''write to stream'' e) | None \<Rightarrow>
      case closeErr of Some e \<Rightarrow> (Some got, errorf ''close stream'' e) | None \<Rightarrow> (Some got, waited))"

text \<open>\<open>main\<close>: the exit status.\<close>

definition p2ptest_main :: "error \<Rightarrow> error \<Rightarrow> error \<Rightarrow> err + 'c \<Rightarrow> string \<Rightarrow> ('c \<Rightarrow> error) \<Rightarrow> ('c \<Rightarrow> error) \<Rightarrow> nat" where
  "p2ptest_main decodeErr listenErr tlsErr connected mode client server =
     (if decodeErr \<noteq> None \<or> listenErr \<noteq> None \<or> tlsErr \<noteq> None then 1
      else case connected of
             Inl _ \<Rightarrow> 1
           | Inr c \<Rightarrow> if (if mode = ''client'' then client c else server c) = None then 0 else 1)"

section \<open>The helpers do what the tests rely on\<close>

text \<open>
  A client of a test server trusts it: while both certificates are valid, the certificate of the
  server verifies under the root of the client, names the address it was made for, belongs to
  the server's key, and both sides speak HTTP/3.
\<close>
theorem test_server_trusted:
  assumes "ServerTLSConfig addYear caEnv srvKey certEnv ip = Some (ca, srv)"
    and "valid_at ca t" and "valid_at (sv_cert srv) t"
  shows "cl_roots (test_TLSConfig ca) = [ca] \<and> verifies ca (sv_cert srv) t \<and> sans (sv_cert srv) = [ip] \<and>
    pub (sv_cert srv) = sv_key srv \<and> sv_NextProtos srv = cl_NextProtos (test_TLSConfig ca)"
  using assms
  by (auto simp: ServerTLSConfig_def cert_NewCA_def cert_NewIPCert_def leaf_cert_def test_TLSConfig_def verifies_def
      split: sum.splits option.splits)

text \<open>A test registar starts in an initial state of the server, so that all of its invariants hold.\<close>

lemma registartest_initial: "registartest_NewServer env secret = Some s \<Longrightarrow> server_init s"
proof -
  assume "registartest_NewServer env secret = Some s"
  then obtain rt where "s = NewServer secret (NewAuthority rt)" by (auto simp: registartest_NewServer_def split: sum.splits)
  moreover have "authority_inv (NewAuthority rt)" by (simp add: authority_inv_def NewAuthority_def)
  ultimately show ?thesis unfolding server_init_def by blast
qed

text \<open>Closing the connection of an agent ends its test without a report.\<close>

lemma ServeAgent_closed:
  assumes "\<forall>ev \<in> set evs. agent_result ev = None"
  shows "ServeAgent (evs @ [AcceptFails (Leaf (ApplicationError errCodeServerClosed False))]) = None"
proof -
  have "group_first (map agent_result evs @ rs) = group_first rs" for rs
    using assms by (induction evs) auto
  then show ?thesis
    by (simp add: ServeAgent_def serve_report_def errorf_def isServerClosedErr_def as_application_def errorsAs_def)
qed

text \<open>
  The echo program over a stream that keeps its bytes: the server sends back what it got, and the
  client is content exactly when what comes back starts with what it sent.
\<close>
theorem p2ptest_echo:
  "runServer None (Inr want) None None None = (Some want, None) \<and>
   (runClient None want None None echoed None = None \<longleftrightarrow> take (length want) echoed = want)"
  by (auto simp: runServer_def runClient_def io_ReadFull_def errorf_def)

end
