(* ===== verification/Spec2Isabelle.thy ===== *)
theory Spec2Isabelle
  imports Ring_Queue Udp_Listener Discovery Udp_Relay Registar_Properties P2P_Connector
    Registar_Models Star_Main Web_Pages Peer_Setup Client_Requests Registar_Program Host_Lifecycle Udp_Pipe Rate_Limit Test_Support
begin

text \<open>
  Star lets friends play a LAN game over the internet. A host and its peers register with a
  \<^emph>\<open>registar\<close>, which issues certificates for their game, tells them each other's addresses and, when they
  cannot reach each other directly, relays their datagrams; a forwarder at each end carries the
  packets between the game's UDP socket and the QUIC connection. This development models the Go
  sources under \<^verbatim>\<open>src/\<close> and proves what makes them correct, and where they are not.

  \<^bold>\<open>The program and its theories.\<close>

  \<^item> \<open>Star_Prelude\<close>: machine words, the run-time checks of Go (a panic is \<open>None\<close>), index arithmetic
    of ring buffers, reachability and the locale \<open>inductive_invariant\<close>, which every state machine below
    instantiates.
  \<^item> \<open>Go_Errors\<close>: error trees with \<open>errors.Is\<close>, \<open>errors.As\<close>, \<open>errors.Join\<close>; \<^verbatim>\<open>internal/errcode\<close>.
  \<^item> \<open>Go_Codec\<close>, \<open>Sha256\<close>: what the sources use of \<open>encoding/binary\<close>, \<open>base32\<close>, \<open>base64\<close>, UTF-8, SHA-256
    and HMAC, with round trips as locales over the alphabet.
  \<^item> \<open>Auth\<close>: \<^verbatim>\<open>internal/registar/auth\<close>, game keys and signed tokens.
  \<^item> \<open>Ring_Queue\<close>: \<^verbatim>\<open>internal/platform/queue.go\<close>, refined to a FIFO list.
  \<^item> \<open>Udp_Listener\<close>: \<^verbatim>\<open>internal/platform/udp\<close>, connections over one socket, as a step relation of the
    reader, the acceptor and the connections; \<open>Udp_Pipe\<close> puts a pair of connections on a run of it.
  \<^item> \<open>Netip\<close>, \<open>Discovery\<close>: addresses with the order and encoding of \<open>net/netip\<close>; \<^verbatim>\<open>internal/discovery\<close>.
  \<^item> \<open>Udp_Relay\<close>: \<^verbatim>\<open>internal/relay\<close>, workers that forward packets along routes.
  \<^item> \<open>Http_Model\<close>, \<open>Http_Middleware\<close>, \<open>Http_Static\<close>, \<open>TTL_Map\<close>, \<open>Rate_Limit\<close>: a handler is the calls it
    makes on its writer; \<^verbatim>\<open>internal/platform/httpplatform\<close>, \<^verbatim>\<open>http3platform\<close> and \<^verbatim>\<open>internal/platform/ttlmap.go\<close>; the
    rate limiter against token buckets that are never forgotten.
  \<^item> \<open>Control_Channel\<close>: \<^verbatim>\<open>internal/registar/control\<close>, commands from the registar to its agents.
  \<^item> \<open>Session_CA\<close>: \<^verbatim>\<open>internal/registar/ca.go\<close>, with symbolic signatures.
  \<^item> \<open>Relay_Sessions\<close>, \<open>Registar_Server\<close>, \<open>Registar_Properties\<close>: \<^verbatim>\<open>internal/registar/server.go\<close> and \<open>peer.go\<close>;
    one step per critical section over the tables the server shares between requests.
  \<^item> \<open>Registar_Serve\<close>, \<open>Quic_Serving\<close>: the rest of \<open>server.go\<close>: the handler \<open>Register\<close> as one function, refined to
    steps of \<open>Registar_Server\<close>; the accept loops, the connections they serve and the waiting of \<open>Close\<close>.
  \<^item> \<open>P2P_Connector\<close>: \<^verbatim>\<open>internal/registar/p2p\<close>, two connectors that dial and accept at the same time.
  \<^item> \<open>Registar_Client\<close>, \<open>Client_Requests\<close>, \<open>Registar_Models\<close>: \<^verbatim>\<open>internal/registar/client.go\<close> and \<open>models.go\<close>; the
    flows of calls and callbacks, and the requests and TLS configurations a client builds.
  \<^item> \<open>Peer_Setup\<close>: registar, agents and connectors put together for one peer that joins.
  \<^item> \<open>Forwarder\<close>, \<open>Host_Lifecycle\<close>: \<^verbatim>\<open>internal/forwarder\<close>, links and the accept loops of host and peer; a running
    host with its control agent, accept loop, links and \<open>Close\<close> as one step relation.
  \<^item> \<open>Window\<close>, \<open>Subscribers\<close>: what the admin page and the log stream share, the locale \<open>window\<close> of buffers
    that keep the last entries, and fan-out over buffered channels.
  \<^item> \<open>Sse_Log\<close>, \<open>Web_Server\<close>, \<open>Web_Pages\<close>: \<^verbatim>\<open>internal/webserver\<close>, its log stream, its session state machine, and
    its pages with the dispatch of one request; \<open>Admin_Panel\<close>: \<^verbatim>\<open>internal/registar/admin\<close>.
  \<^item> \<open>Registar_Main\<close>, \<open>Registar_Program\<close>, \<open>Star_Main\<close>: \<^verbatim>\<open>cmd/registar\<close>, \<^verbatim>\<open>internal/cert\<close> and \<^verbatim>\<open>cmd/star\<close>: configuration,
    routes, certificates, and how the programs start, are interrupted and exit.
  \<^item> \<open>Test_Support\<close>: the helper packages of the tests, put against the certificates and the server they set up.

  \<^bold>\<open>How the parts interact.\<close> \<open>Registar_Main\<close> puts the router behind \<open>Authenticate\<close> and \<open>AllowHosts\<close>;
  a request that passes becomes a request of \<open>Registar_Server\<close>, which asks \<open>Session_CA\<close> for
  certificates, drives both ends through \<open>Control_Channel\<close> and falls back to \<open>Relay_Sessions\<close>. The
  callbacks at the ends are those of \<open>Registar_Client\<close>, which run \<open>P2P_Connector\<close>; the connection
  they agree on is what \<open>Forwarder\<close> links to a game through \<open>Udp_Listener\<close>. \<open>Peer_Setup\<close> composes the registar's
  side of a set-up with both clients, \<open>Client_Requests\<close> the requests of a client with the router and its
  certificates with a handshake, and the theorem at the end of this file the invite code a host
  prints with what the registar does for both commands.

  \<^bold>\<open>What is shown.\<close> \<^emph>\<open>Trust\<close>: exactly the tokens the secret issues are accepted, only their holders reach
  the handlers, certificates of one game verify for it and for no other, so that clients complete a
  TLS handshake exactly within a game, admin pages need the password, redirects stay on the
  configured domains. \<^emph>\<open>Matching\<close>: two connectors that both choose choose the same connection; host and peer are
  brought together only within a game, one set-up at a time; what the agents report decides
  between direct connection, relay and failure; a successful set-up leaves both clients with the
  same connection or with relay streams of one session. \<^emph>\<open>Transport\<close>: a connection reads its own packets
  only, relays keep sessions apart and account for every packet, buffers stay within bounds, the
  read loop of a link ends. \<^emph>\<open>Data structures\<close>: the queue is a FIFO list, the TTL map an abstract
  map that forgets, unnoticed by the rate limiter's clients, the rings are windows on what was added. \<^emph>\<open>Encodings\<close>: keys, tokens and discovery
  messages come back as they were sent. \<^emph>\<open>Programs\<close>: every request of the web interface is answered without
  a panic once it is set up, a closing server leaves no connection open and a closed host no link,
  an interrupted registar can always exit. \<^emph>\<open>Flaws\<close>: several theorems exhibit runs in which the
  code deadlocks, leaks, races or panics; each says so in its text.

  \<^bold>\<open>Conventions.\<close> State is a record; an operation is a function that returns the new state, with \<open>None\<close>
  for a panic; errors are values. Where goroutines share state, each critical section is one
  step of an inductive relation, so every interleaving of critical sections is a run. The order in
  which a map is ranged over, the readings of the clock, the case a \<open>select\<close> takes and what
  the network answers are arguments or are left open by the relation. Integers are words where
  they wrap (byte counters, error codes, ports) and \<open>nat\<close> or \<open>int\<close> where the sources bound them.

  \<^bold>\<open>Bounds and fuel.\<close> The base32 decoder and the read loop of a link take fuel: the decoder is given the length
  of its input, of which every quantum takes eight characters, and parsing a key is shown never to
  run out of it; the read loop is shown to return within
  \<open>timeout / 100ms + 2\<close> turns when a read that misses its deadline takes 100 ms. All other loops are
  structural recursions over what they consume.

  \<^bold>\<open>Parameters.\<close> quic-go, http3, \<open>x/time/rate\<close>, \<open>crypto/x509\<close>, PEM, JSON, templates, gzip, \<open>float64\<close>
  arithmetic and \<open>url.Parse\<close> enter as functions or as the results of their calls; what a theorem
  needs of them is one of its hypotheses, and its witness supplies an instance.

  \<^bold>\<open>Not modelled.\<close> The text of log records, flag and environment parsing with the usage texts, the contents
  of templates and embedded assets with the file server for them, and the ACME challenges of autocert: they are
  calls into libraries and keep no state of their own. Memory and
  scheduling are as the Go memory model gives them to programs that hold their locks; the places
  where the sources read shared state without one are modelled as separate steps.
\<close>

section \<open>From the invite code to the registar\<close>

text \<open>
  C15. The invite code brings two players together: the key that the command \<open>host\<close> prints parses, as
  the flag of the command \<open>peer\<close>, to a key that command accepts, and the registrations both of them send to
  a registar with their secret run the handlers of host and peer for one and the same key.
\<close>
theorem invite_code_meets:
  assumes "root_path u" and "root_path u'" and "fresh \<noteq> zero_key" and "host_token fresh k0 secret = (k, t)"
  shows "\<exists>k'. ParseKey upper (Key_String k) = Some (Inr k') \<and>
    cmd_peerConfig_Parse (Inr (k', port)) = Inr (k', port) \<and>
    NewRouter run errText (ascii secret) other (register_request u True t) ctx =
      run HostEndpoint k (register_request u True t) \<and>
    NewRouter run errText (ascii secret) other (register_request u' False (peer_token k' secret)) ctx' =
      run JoinEndpoint k (register_request u' False (peer_token k' secret))"
proof -
  have t: "t = NewToken k (ascii secret)" and "k \<noteq> zero_key"
    using assms(3,4) by (auto simp: host_token_def Let_def split: if_splits)
  then have "cmd_peerConfig_Parse (Inr (k, port)) = Inr (k, port)"
    by (simp add: cmd_peerConfig_Parse_def)
  then show ?thesis
    by (simp add: parse_print t peer_token_def register_runs [OF assms(1)] register_runs [OF assms(2)])
qed

theorem invite_code_meets_witness:
  "\<exists>k'. ParseKey (\<lambda>n. n) (Key_String gameA) = Some (Inr k') \<and>
    NewRouter (\<lambda>ep k r. [WriteHeader (if ep = JoinEndpoint \<and> k = gameA then 200 else 500)]) (\<lambda>_. []) (ascii ''s'') (\<lambda>_ _. [])
      (register_request \<lparr>u_scheme = ''https'', u_hostname = ''star.example'', u_port = [], u_path = []\<rparr> False
        (peer_token k' ''s'')) \<lparr>ctx_key = None\<rparr> = [WriteHeader 200]"
proof -
  let ?u = "\<lparr>u_scheme = ''https'', u_hostname = ''star.example'', u_port = [], u_path = []\<rparr>"
  have "root_path ?u" and "gameA \<noteq> zero_key" and "host_token gameA zero_key ''s'' = (gameA, NewToken gameA (ascii ''s''))"
    by (simp_all add: root_path_def gameA_def zero_key_def host_token_def Let_def)
  from invite_code_meets [OF this(1) this(1) this(2) this(3), where upper = "\<lambda>n. n" and port = 0
      and run = "\<lambda>ep k r. [WriteHeader (if ep = JoinEndpoint \<and> k = gameA then 200 else 500)]" and errText = "\<lambda>_. []"
      and other = "\<lambda>_ _. []" and ctx = "\<lparr>ctx_key = None\<rparr>" and ctx' = "\<lparr>ctx_key = None\<rparr>"]
  show ?thesis by auto
qed

end
